(* ===== verification/Prelude.thy ===== *)
theory Prelude
  imports Main "HOL-Library.Word" "HOL-Library.Char_ord" "HOL-Library.List_Lexorder"
    "HOL-Library.Sublist"
begin

text \<open>
  What every component shares: the fixed-width integers, results and effectful calls, and the
  part of Rust's \<^verbatim>\<open>str\<close>, integer parsing and UTF-8 that the sources use.

  A Rust \<^verbatim>\<open>String\<close> or \<^verbatim>\<open>&str\<close> is its UTF-8 byte sequence, and an
  Isabelle \<^typ>\<open>char\<close> is exactly a byte, so a string is a \<^typ>\<open>string\<close>: \<open>length\<close> is
  \<^verbatim>\<open>len()\<close> and the order on strings is the byte order that \<^verbatim>\<open>BTreeMap\<close> uses.
  A Rust \<^verbatim>\<open>char\<close> is the chunk of bytes that encodes it (\<open>chars\<close>).
  Raw data (\<^verbatim>\<open>Vec<u8>\<close>, \<^verbatim>\<open>&[u8]\<close>) is a list of 8-bit words.

  A call on a state \<open>'s\<close> has type \<open>'s \<Rightarrow> (('e + 'a) \<times> 's) option\<close>: \<open>None\<close> is a call that does
  not return (it spins for ever or panics), \<open>Inl\<close> an error, \<open>Inr\<close> a value.
\<close>

section \<open>Integers and results\<close>

type_synonym u8 = "8 word"
type_synonym u16 = "16 word"
type_synonym u32 = "32 word"
type_synonym u64 = "64 word"
type_synonym bytes = "u8 list"

abbreviation Err :: "'e \<Rightarrow> 'e + 'a" where "Err \<equiv> Inl"
abbreviation Ok :: "'a \<Rightarrow> 'e + 'a" where "Ok \<equiv> Inr"

text \<open>Saturating arithmetic at a fixed width.\<close>

definition saturating_add :: "'a::len word \<Rightarrow> 'a word \<Rightarrow> 'a word" where
  "saturating_add a b = (if uint a + uint b < 2 ^ LENGTH('a) then a + b else - 1)"

definition saturating_sub :: "'a::len word \<Rightarrow> 'a word \<Rightarrow> 'a word" where
  "saturating_sub a b = (if b \<le> a then a - b else 0)"

definition saturating_mul :: "'a::len word \<Rightarrow> 'a word \<Rightarrow> 'a word" where
  "saturating_mul a b = (if uint a * uint b < 2 ^ LENGTH('a) then a * b else - 1)"

lemma unat_saturating_add:
  "unat (saturating_add a b :: 'a::len word) = min (unat a + unat b) (2 ^ LENGTH('a) - 1)"
proof -
  have "uint a + uint b < 2 ^ LENGTH('a) \<longleftrightarrow> unat a + unat b < 2 ^ LENGTH('a)"
  proof -
    have "uint a + uint b = int (unat a + unat b)" "(2 :: int) ^ LENGTH('a) = int (2 ^ LENGTH('a))" by simp_all
    then show ?thesis by (simp only: of_nat_less_iff)
  qed
  then show ?thesis
    by (simp add: saturating_add_def unat_word_ariths unsigned_minus_1_eq_mask mask_eq_exp_minus_1)
qed

named_theorems call_simps \<open>unfolding of the sequencing combinators\<close>
named_theorems str_simps \<open>evaluation of string operations\<close>

definition and_then :: "'e + 'a \<Rightarrow> ('a \<Rightarrow> 'e + 'b) \<Rightarrow> 'e + 'b" where
  "and_then r k = (case r of Inl e \<Rightarrow> Inl e | Inr x \<Rightarrow> k x)"

definition ok_or :: "'a option \<Rightarrow> 'e \<Rightarrow> 'e + 'a" where
  "ok_or x e = (case x of None \<Rightarrow> Inl e | Some y \<Rightarrow> Inr y)"

definition map_err :: "('e \<Rightarrow> 'f) \<Rightarrow> 'e + 'a \<Rightarrow> 'f + 'a" where
  "map_err f r = (case r of Inl e \<Rightarrow> Inl (f e) | Inr x \<Rightarrow> Inr x)"

text \<open>The \<^verbatim>\<open>?\<close> operator: on a value that was computed without effect (\<open>attempt\<close>),
  and on the outcome of an effectful call (\<open>bind\<close>).\<close>

definition attempt ::
  "'e + 'a \<Rightarrow> 's \<Rightarrow> ('a \<Rightarrow> (('e + 'b) \<times> 's) option) \<Rightarrow> (('e + 'b) \<times> 's) option" where
  "attempt r s k = (case r of Inl e \<Rightarrow> Some (Inl e, s) | Inr x \<Rightarrow> k x)"

definition bind ::
  "(('e + 'a) \<times> 's) option \<Rightarrow> ('a \<Rightarrow> 's \<Rightarrow> (('e + 'b) \<times> 's) option) \<Rightarrow> (('e + 'b) \<times> 's) option"
  where
  "bind m k = (case m of None \<Rightarrow> None
     | Some (Inl e, s) \<Rightarrow> Some (Inl e, s)
     | Some (Inr x, s) \<Rightarrow> k x s)"

text \<open>A call on a field of a larger state: \<open>put\<close> stores the field back.\<close>

definition on_field :: "('r \<times> 's) option \<Rightarrow> ('s \<Rightarrow> 't) \<Rightarrow> ('r \<times> 't) option" where
  "on_field m put = (case m of None \<Rightarrow> None | Some (r, s) \<Rightarrow> Some (r, put s))"

lemma and_then_simps [simp]:
  "and_then (Inl e) k = Inl e" "and_then (Inr x) k = k x"
  by (simp_all add: and_then_def)

lemma and_then_Inr_iff: "and_then r k = Inr y \<longleftrightarrow> (\<exists>x. r = Inr x \<and> k x = Inr y)"
  by (cases r) simp_all

lemma ok_or_simps [simp]: "ok_or None e = Inl e" "ok_or (Some x) e = Inr x"
  by (simp_all add: ok_or_def)

lemma ok_or_Inr_iff [simp]: "ok_or x e = Inr y \<longleftrightarrow> x = Some y"
  by (cases x) simp_all

lemma map_err_simps [simp]: "map_err f (Inl e) = Inl (f e)" "map_err f (Inr x) = Inr x"
  by (simp_all add: map_err_def)

lemma map_err_Inr_iff [simp]: "map_err f r = Inr y \<longleftrightarrow> r = Inr y"
  by (cases r) simp_all

lemma attempt_simps [simp]:
  "attempt (Inl e) s k = Some (Inl e, s)" "attempt (Inr x) s k = k x"
  by (simp_all add: attempt_def)

lemma bind_simps [simp]:
  "bind None k = None"
  "bind (Some (Inl e, s)) k = Some (Inl e, s)"
  "bind (Some (Inr x, s)) k = k x s"
  by (simp_all add: bind_def)

lemma on_field_simps [simp]:
  "on_field None put = None" "on_field (Some (r, s)) put = Some (r, put s)"
  by (simp_all add: on_field_def)

text \<open>Every outcome of a sequence comes from an error of the first call or from the second.\<close>

lemma attempt_SomeE [elim!]:
  assumes "attempt r s k = Some (q, t)"
  obtains (err) e where "r = Inl e" "q = Inl e" "t = s"
    | (val) x where "r = Inr x" "k x = Some (q, t)"
  using assms by (cases r) auto

lemma bind_SomeE [elim!]:
  assumes "bind m k = Some (q, t)"
  obtains (err) e where "m = Some (Inl e, t)" "q = Inl e"
    | (val) x s where "m = Some (Inr x, s)" "k x s = Some (q, t)"
  using assms by (auto simp: bind_def split: option.splits sum.splits)

lemma on_field_SomeE [elim!]:
  assumes "on_field m put = Some (q, t)"
  obtains s where "m = Some (q, s)" "t = put s"
  using assms by (auto simp: on_field_def split: option.splits)

section \<open>Characters and UTF-8\<close>

definition code :: "char \<Rightarrow> nat" where
  "code c = of_char c"

definition is_cont :: "char \<Rightarrow> bool" where
  "is_cont c \<longleftrightarrow> 0x80 \<le> code c \<and> code c < 0xC0"

text \<open>The width that a lead byte announces, and the well-formed encodings of one scalar value
  (no overlong forms, no surrogates, nothing above \<^verbatim>\<open>U+10FFFF\<close>).\<close>

definition utf8_width :: "char \<Rightarrow> nat" where
  "utf8_width c = (if code c < 0x80 then 1 else if code c < 0xE0 then 2
     else if code c < 0xF0 then 3 else 4)"

fun well_formed_char :: "string \<Rightarrow> bool" where
  "well_formed_char [a] \<longleftrightarrow> code a < 0x80"
| "well_formed_char [a, b] \<longleftrightarrow> 0xC2 \<le> code a \<and> code a \<le> 0xDF \<and> is_cont b"
| "well_formed_char [a, b, c] \<longleftrightarrow> is_cont c \<and>
     (code a = 0xE0 \<and> 0xA0 \<le> code b \<and> code b \<le> 0xBF
      \<or> 0xE1 \<le> code a \<and> code a \<le> 0xEC \<and> is_cont b
      \<or> code a = 0xED \<and> 0x80 \<le> code b \<and> code b \<le> 0x9F
      \<or> 0xEE \<le> code a \<and> code a \<le> 0xEF \<and> is_cont b)"
| "well_formed_char [a, b, c, d] \<longleftrightarrow> is_cont c \<and> is_cont d \<and>
     (code a = 0xF0 \<and> 0x90 \<le> code b \<and> code b \<le> 0xBF
      \<or> 0xF1 \<le> code a \<and> code a \<le> 0xF3 \<and> is_cont b
      \<or> code a = 0xF4 \<and> 0x80 \<le> code b \<and> code b \<le> 0x8F)"
| "well_formed_char _ \<longleftrightarrow> False"

function chars :: "string \<Rightarrow> string list" where
  "chars [] = []"
| "chars (c # s) = (c # take (utf8_width c - 1) s) # chars (drop (utf8_width c - 1) s)"
  by pat_completeness auto
termination
  by (relation "measure length") auto

definition valid_utf8 :: "string \<Rightarrow> bool" where
  "valid_utf8 s \<longleftrightarrow> list_all well_formed_char (chars s)"

lemma concat_chars [simp]: "concat (chars s) = s"
  by (induction s rule: chars.induct) auto

definition byte_of :: "char \<Rightarrow> u8" where
  "byte_of c = word_of_nat (code c)"

definition char_of_byte :: "u8 \<Rightarrow> char" where
  "char_of_byte b = char_of (unat b)"

definition as_bytes :: "string \<Rightarrow> bytes" where
  "as_bytes s = map byte_of s"

text \<open>\<^verbatim>\<open>String::from_utf8\<close>: \<open>None\<close> when the bytes are not valid UTF-8.\<close>

definition from_utf8 :: "bytes \<Rightarrow> string option" where
  "from_utf8 bs = (let s = map char_of_byte bs in if valid_utf8 s then Some s else None)"

lemma code_less [simp]: "code c < 256"
  by (simp add: code_def)

lemma char_of_byte_of [simp]: "char_of_byte (byte_of c) = c"
proof -
  have "unat (byte_of c) = code c"
    by (simp add: byte_of_def unat_of_nat code_less [THEN mod_less])
  then show ?thesis by (simp add: char_of_byte_def code_def)
qed

lemma byte_of_char_of [simp]: "byte_of (char_of_byte b) = b"
proof -
  have "unat b < 2 ^ LENGTH(8)" by (rule unsigned_less)
  then show ?thesis by (simp add: byte_of_def char_of_byte_def code_def)
qed

lemma map_char_of_as_bytes [simp]: "map char_of_byte (as_bytes s) = s"
  by (induction s) (simp_all add: as_bytes_def)

lemma length_as_bytes [simp]: "length (as_bytes s) = length s"
  by (simp add: as_bytes_def)

lemma from_utf8_as_bytes [simp]: "valid_utf8 s \<Longrightarrow> from_utf8 (as_bytes s) = Some s"
  by (simp add: from_utf8_def)

lemma from_utf8_SomeD: "from_utf8 bs = Some s \<Longrightarrow> bs = as_bytes s \<and> valid_utf8 s"
  by (auto simp: from_utf8_def as_bytes_def Let_def map_idI split: if_splits)

lemma valid_utf8_ascii: "list_all (\<lambda>c. code c < 0x80) s \<Longrightarrow> valid_utf8 s"
  unfolding valid_utf8_def
  by (induction s rule: chars.induct) (auto simp: utf8_width_def)

section \<open>Integers and slices as bytes\<close>

text \<open>\<^verbatim>\<open>to_le_bytes\<close> and \<^verbatim>\<open>from_le_bytes\<close>, least significant byte first.\<close>

fun le_bytes :: "nat \<Rightarrow> nat \<Rightarrow> bytes" where
  "le_bytes 0 n = []"
| "le_bytes (Suc k) n = word_of_nat (n mod 256) # le_bytes k (n div 256)"

fun from_le :: "bytes \<Rightarrow> nat" where
  "from_le [] = 0"
| "from_le (b # bs) = unat b + 256 * from_le bs"

text \<open>\<^verbatim>\<open>array[offset..].copy_from_slice(data)\<close>.\<close>

definition put_slice :: "nat \<Rightarrow> bytes \<Rightarrow> bytes \<Rightarrow> bytes" where
  "put_slice off data array = take off array @ data @ drop (off + length data) array"

lemma length_put_slice [simp]:
  "off + length data \<le> length xs \<Longrightarrow> length (put_slice off data xs) = length xs"
  by (simp add: put_slice_def)

lemma length_le_bytes [simp]: "length (le_bytes k n) = k"
  by (induction k arbitrary: n) simp_all

lemma unat_byte [simp]: "unat (word_of_nat (n mod 256) :: u8) = n mod 256"
  by (simp add: unat_of_nat)

lemma from_le_le_bytes: "from_le (le_bytes k n) = n mod 256 ^ k"
proof (induction k arbitrary: n)
  case (Suc k)
  have "n mod 256 ^ Suc k = 256 * (n div 256 mod 256 ^ k) + n mod 256"
    by (simp add: mod_mult2_eq)
  with Suc show ?case by simp
qed simp

lemma from_le_le_bytes_u32 [simp]: "from_le (le_bytes 4 (unat (w :: u32))) = unat w"
  and from_le_le_bytes_u64 [simp]: "from_le (le_bytes 8 (unat (v :: u64))) = unat v"
  using unsigned_less [of w, where ?'a = nat] unsigned_less [of v, where ?'a = nat]
  by (simp_all add: from_le_le_bytes)

end
