(* ===== verification/Api.thy ===== *)
theory Api
  imports Rust_Str
begin

text \<open>
  \<^verbatim>\<open>crates/afos-api\<close>: the error type, the shared data types, the capabilities and
  the \<^verbatim>\<open>Platform\<close> trait. A trait object is a record of its methods: code that is generic
  in \<^verbatim>\<open>P: Platform\<close> takes a \<open>'p platform\<close> as an argument, and what it relies on is
  the locale \<open>storage_platform\<close>. The methods take the backend's state \<open>'p\<close> and return it updated,
  also where Rust takes \<^verbatim>\<open>&self\<close>: the clock moves between two readings.
\<close>

section \<open>Errors\<close>

datatype error =
    InvalidPath
  | NotFound string
  | AlreadyExists string
  | NotDirectory string
  | IsDirectory string
  | ReadOnly string
  | PermissionDenied string
  | CapabilityNotDeclared string
  | AuthenticationFailed
  | AuthenticationRequired
  | RateLimited u64
  | InvalidInput string
  | Unsupported string
  | ResourceLimit string
  | Runtime string
  | Io string

type_synonym 'a res = "error + 'a"
type_synonym ('s, 'a) outcome = "('a res \<times> 's) option"

fun display_error :: "error \<Rightarrow> string" where
  "display_error InvalidPath = ''invalid path''"
| "display_error (NotFound path) = ''not found: '' @ path"
| "display_error (AlreadyExists path) = ''already exists: '' @ path"
| "display_error (NotDirectory path) = ''not a directory: '' @ path"
| "display_error (IsDirectory path) = ''is a directory: '' @ path"
| "display_error (ReadOnly path) = ''read-only path: '' @ path"
| "display_error (PermissionDenied message) = ''permission denied: '' @ message"
| "display_error (CapabilityNotDeclared capability) = ''capability not declared: '' @ capability"
| "display_error AuthenticationFailed = ''authentication failed''"
| "display_error AuthenticationRequired = ''authentication required''"
| "display_error (RateLimited milliseconds) =
     ''authentication rate limited for '' @ show_nat (unat milliseconds) @ '' ms''"
| "display_error (InvalidInput message) = ''invalid input: '' @ message"
| "display_error (Unsupported message) = ''unsupported: '' @ message"
| "display_error (ResourceLimit message) = ''resource limit: '' @ message"
| "display_error (Runtime message) = ''runtime error: '' @ message"
| "display_error (Io message) = ''I/O error: '' @ message"

section \<open>Shared data\<close>

record system_info =
  info_name :: string
  info_version :: string
  info_platform :: string
  info_architecture :: string

record storage_entry =
  entry_name :: string
  entry_is_dir :: bool
  entry_len :: u64

record net_status =
  link_up :: bool
  mac :: string
  address :: "string option"
  gateway :: "string option"

datatype capability =
    FsRead string
  | FsWrite string
  | Clock
  | SystemInfo
  | Network string

fun display_capability :: "capability \<Rightarrow> string" where
  "display_capability (FsRead path) = ''fs.read:'' @ path"
| "display_capability (FsWrite path) = ''fs.write:'' @ path"
| "display_capability Clock = ''clock''"
| "display_capability SystemInfo = ''system.info''"
| "display_capability (Network host) = ''net:'' @ host"

record app_identity =
  app_id :: string
  source_path :: string
  trusted :: bool
  api_version :: nat
  capabilities :: "capability list"

section \<open>The platform trait\<close>

record 'p platform =
  console_write :: "'p \<Rightarrow> string \<Rightarrow> ('p, unit) outcome"
  console_read_line :: "'p \<Rightarrow> string \<Rightarrow> bool \<Rightarrow> ('p, string) outcome"
  console_clear :: "'p \<Rightarrow> ('p, unit) outcome"
  storage_read :: "'p \<Rightarrow> string \<Rightarrow> ('p, bytes) outcome"
  storage_write :: "'p \<Rightarrow> string \<Rightarrow> bytes \<Rightarrow> ('p, unit) outcome"
  storage_list :: "'p \<Rightarrow> string \<Rightarrow> ('p, storage_entry list) outcome"
  storage_create_dir_all :: "'p \<Rightarrow> string \<Rightarrow> ('p, unit) outcome"
  storage_remove :: "'p \<Rightarrow> string \<Rightarrow> ('p, unit) outcome"
  storage_rename :: "'p \<Rightarrow> string \<Rightarrow> string \<Rightarrow> ('p, unit) outcome"
  storage_exists :: "'p \<Rightarrow> string \<Rightarrow> ('p, bool) outcome"
  monotonic_millis :: "'p \<Rightarrow> u64 \<times> 'p"
  fill_random :: "'p \<Rightarrow> nat \<Rightarrow> ('p, bytes) outcome"
  platform_info :: "'p \<Rightarrow> system_info"
  poll_cancel :: "'p \<Rightarrow> (bool \<times> 'p) option"
  net_status :: "'p \<Rightarrow> ('p, net_status) outcome"
  net_connect :: "'p \<Rightarrow> string \<Rightarrow> u16 \<Rightarrow> ('p, u64) outcome"
  net_send :: "'p \<Rightarrow> u64 \<Rightarrow> bytes \<Rightarrow> ('p, nat) outcome"
  net_recv :: "'p \<Rightarrow> u64 \<Rightarrow> nat \<Rightarrow> ('p, nat \<times> bytes) outcome"
  net_close :: "'p \<Rightarrow> u64 \<Rightarrow> ('p, unit) outcome"

text \<open>The trait's default network methods, for backends without a network.\<close>

definition net_unavailable :: error where
  "net_unavailable = Unsupported ''networking is unavailable on this platform''"

definition without_network :: "'p platform \<Rightarrow> 'p platform" where
  "without_network P = P
     \<lparr>net_status := (\<lambda>p. Some (Err net_unavailable, p)),
      net_connect := (\<lambda>p _ _. Some (Err net_unavailable, p)),
      net_send := (\<lambda>p _ _. Some (Err net_unavailable, p)),
      net_recv := (\<lambda>p _ _. Some (Err net_unavailable, p)),
      net_close := (\<lambda>p _. Some (Err net_unavailable, p))\<rparr>"

section \<open>What the core relies on\<close>

text \<open>Storage paths are relative: names, none of them empty or a dot name, separated by slashes.\<close>

definition storage_path :: "string \<Rightarrow> bool" where
  "storage_path path \<longleftrightarrow> set (split_on CHR ''/'' path) \<inter> {[], ''.'', ''..''} = {}"

text \<open>A storage path is at or below another one when it is that path or continues it after a
  slash.\<close>

definition at_or_below :: "string \<Rightarrow> string \<Rightarrow> bool" where
  "at_or_below a q \<longleftrightarrow> q = a \<or> starts_with (a @ ''/'') q"

text \<open>A call is confined to a set of storage paths when it keeps the invariant \<open>good\<close> and changes
  what is stored (\<open>view\<close>) at no other path; it keeps everything when that set is empty.\<close>

definition confined ::
  "('s \<Rightarrow> bool) \<Rightarrow> ('s \<Rightarrow> string \<Rightarrow> 'f) \<Rightarrow> string set \<Rightarrow> 's \<Rightarrow> ('r \<times> 's) option \<Rightarrow> bool" where
  "confined good view S s m \<longleftrightarrow>
     (\<forall>r s'. m = Some (r, s') \<longrightarrow> good s' \<and> (\<forall>q. q \<notin> S \<longrightarrow> view s' q = view s q))"

abbreviation keeps ::
  "('s \<Rightarrow> bool) \<Rightarrow> ('s \<Rightarrow> string \<Rightarrow> 'f) \<Rightarrow> 's \<Rightarrow> ('r \<times> 's) option \<Rightarrow> bool" where
  "keeps good view \<equiv> confined good view {}"

named_theorems frame \<open>calls and the storage paths they are confined to\<close>

lemma keepsD:
  "keeps good view s m \<Longrightarrow> m = Some (r, s') \<Longrightarrow> good s' \<and> view s' = view s"
  by (auto simp: confined_def)

lemma confinedD:
  "confined good view S s m \<Longrightarrow> m = Some (r, s') \<Longrightarrow> good s'"
  "confined good view S s m \<Longrightarrow> m = Some (r, s') \<Longrightarrow> q \<notin> S \<Longrightarrow> view s' q = view s q"
  by (auto simp: confined_def)

lemma confined_mono: "confined good view S s m \<Longrightarrow> S \<subseteq> T \<Longrightarrow> confined good view T s m"
  by (auto simp: confined_def)

lemma keeps_confined: "keeps good view s m \<Longrightarrow> confined good view S s m"
  by (erule confined_mono) simp

lemma confined_return: "good s \<Longrightarrow> confined good view S s (Some (r, s))"
  by (simp add: confined_def)

lemma confined_attempt:
  "good s \<Longrightarrow> (\<And>x. r = Inr x \<Longrightarrow> confined good view S s (k x)) \<Longrightarrow>
    confined good view S s (attempt r s k)"
  by (cases r) (auto simp: confined_return)

lemma confined_bind:
  assumes "confined good view S s m"
    and "\<And>x t. m = Some (Inr x, t) \<Longrightarrow> good t \<Longrightarrow> confined good view S t (k x t)"
  shows "confined good view S s (bind m k)"
  unfolding confined_def
proof (intro allI impI)
  fix r u assume run: "bind m k = Some (r, u)"
  then show "good u \<and> (\<forall>q. q \<notin> S \<longrightarrow> view u q = view s q)"
  proof (cases rule: bind_SomeE)
    case (err e)
    then show ?thesis using confinedD [OF assms(1)] by blast
  next
    case (val x t)
    then have "good t" "\<And>q. q \<notin> S \<Longrightarrow> view t q = view s q"
      using confinedD [OF assms(1)] by blast+
    moreover have "good u" "\<And>q. q \<notin> S \<Longrightarrow> view u q = view t q"
      using val confinedD [OF assms(2) [OF val(1) \<open>good t\<close>] val(2)] by blast+
    ultimately show ?thesis by simp
  qed
qed

lemma confined_on_field:
  assumes "confined good view S p m"
    and "\<And>p'. good p' \<Longrightarrow> good' (put p')" "\<And>p'. view' (put p') = view p'" "view' t = view p"
  shows "confined good' view' S t (on_field m put)"
  unfolding confined_def
proof (intro allI impI)
  fix r s' assume "on_field m put = Some (r, s')"
  then obtain p' where "m = Some (r, p')" "s' = put p'" by (rule on_field_SomeE)
  with assms show "good' s' \<and> (\<forall>q. q \<notin> S \<longrightarrow> view' s' q = view' t q)"
    using confinedD [OF assms(1)] by simp
qed

text \<open>
  The contract: \<open>files p\<close> is what the backend stores, by storage path. On proper storage paths, writing binds the path,
  removing unbinds it with everything below, renaming moves it with everything below, an error
  changes no file, and no other method touches a file.
\<close>

locale storage_platform =
  fixes P :: "'p platform" and files :: "'p \<Rightarrow> string \<Rightarrow> bytes option" and good :: "'p \<Rightarrow> bool"
  assumes console_write_keeps: "good p \<Longrightarrow> keeps good files p (console_write P p text)"
    and console_read_line_keeps: "good p \<Longrightarrow> keeps good files p (console_read_line P p text secret)"
    and console_clear_keeps: "good p \<Longrightarrow> keeps good files p (console_clear P p)"
    and storage_read_keeps: "good p \<Longrightarrow> keeps good files p (storage_read P p path)"
    and storage_list_keeps: "good p \<Longrightarrow> keeps good files p (storage_list P p path)"
    and storage_exists_keeps: "good p \<Longrightarrow> keeps good files p (storage_exists P p path)"
    and create_dir_all_keeps: "good p \<Longrightarrow> storage_path path \<Longrightarrow> keeps good files p (storage_create_dir_all P p path)"
    and monotonic_millis_keeps: "good p \<Longrightarrow> keeps good files p (Some (monotonic_millis P p))"
    and fill_random_keeps: "good p \<Longrightarrow> keeps good files p (fill_random P p n)"
    and poll_cancel_keeps: "good p \<Longrightarrow> keeps good files p (poll_cancel P p)"
    and net_status_keeps: "good p \<Longrightarrow> keeps good files p (net_status P p)"
    and net_connect_keeps: "good p \<Longrightarrow> keeps good files p (net_connect P p host port)"
    and net_send_keeps: "good p \<Longrightarrow> keeps good files p (net_send P p handle data)"
    and net_recv_keeps: "good p \<Longrightarrow> keeps good files p (net_recv P p handle n)"
    and net_close_keeps: "good p \<Longrightarrow> keeps good files p (net_close P p handle)"
    and storage_read_sound: "good p \<Longrightarrow> storage_path path \<Longrightarrow> storage_read P p path = Some (Ok d, p') \<Longrightarrow> files p path = Some d"
    and storage_read_complete: "good p \<Longrightarrow> storage_path path \<Longrightarrow> files p path = Some d \<Longrightarrow>
          \<exists>p'. storage_read P p path = Some (Ok d, p')"
    and storage_exists_complete: "good p \<Longrightarrow> storage_path path \<Longrightarrow> files p path = Some d \<Longrightarrow>
          \<exists>p'. storage_exists P p path = Some (Ok True, p')"
    and storage_write_ok: "good p \<Longrightarrow> storage_path path \<Longrightarrow> storage_write P p path d = Some (Ok u, p') \<Longrightarrow>
          good p' \<and> files p' = (files p)(path \<mapsto> d)"
    and storage_write_err: "good p \<Longrightarrow> storage_path path \<Longrightarrow> storage_write P p path d = Some (Err e, p') \<Longrightarrow>
          good p' \<and> files p' = files p"
    and storage_remove_ok: "good p \<Longrightarrow> storage_path path \<Longrightarrow> storage_remove P p path = Some (Ok u, p') \<Longrightarrow>
          good p' \<and> files p' = (\<lambda>q. if at_or_below path q then None else files p q)"
    and storage_remove_err: "good p \<Longrightarrow> storage_path path \<Longrightarrow> storage_remove P p path = Some (Err e, p') \<Longrightarrow>
          good p' \<and> files p' = files p"
    and storage_rename_ok: "good p \<Longrightarrow> storage_path from \<Longrightarrow> storage_path to \<Longrightarrow> storage_rename P p from to = Some (Ok u, p') \<Longrightarrow>
          good p' \<and> files p' = (if from = to then files p else
            (\<lambda>q. if at_or_below to q then files p (from @ drop (length to) q)
                 else if at_or_below from q then None else files p q))"
    and storage_rename_err: "good p \<Longrightarrow> storage_path from \<Longrightarrow> storage_path to \<Longrightarrow> storage_rename P p from to = Some (Err e, p') \<Longrightarrow>
          good p' \<and> files p' = files p"

section \<open>Applications and runtimes\<close>

text \<open>The \<^verbatim>\<open>SystemApi\<close> trait, which a runtime gets as a trait object, and the
  \<^verbatim>\<open>AppRuntime\<close> trait. \<^verbatim>\<open>cancelled\<close> has no error; exit codes are \<^verbatim>\<open>i32\<close>.\<close>

record 'a system_api =
  api_app :: "'a \<Rightarrow> app_identity"
  api_args :: "'a \<Rightarrow> string list"
  api_cwd :: "'a \<Rightarrow> string"
  api_console_write :: "'a \<Rightarrow> string \<Rightarrow> ('a, unit) outcome"
  api_console_read_line :: "'a \<Rightarrow> string \<Rightarrow> ('a, string) outcome"
  api_read_text :: "'a \<Rightarrow> string \<Rightarrow> ('a, string) outcome"
  api_write_text :: "'a \<Rightarrow> string \<Rightarrow> string \<Rightarrow> ('a, unit) outcome"
  api_list :: "'a \<Rightarrow> string \<Rightarrow> ('a, storage_entry list) outcome"
  api_create_dir_all :: "'a \<Rightarrow> string \<Rightarrow> ('a, unit) outcome"
  api_remove :: "'a \<Rightarrow> string \<Rightarrow> ('a, unit) outcome"
  api_rename :: "'a \<Rightarrow> string \<Rightarrow> string \<Rightarrow> ('a, unit) outcome"
  api_appdata_read :: "'a \<Rightarrow> string \<Rightarrow> ('a, string) outcome"
  api_appdata_write :: "'a \<Rightarrow> string \<Rightarrow> string \<Rightarrow> ('a, unit) outcome"
  api_monotonic_millis :: "'a \<Rightarrow> ('a, u64) outcome"
  api_system_info :: "'a \<Rightarrow> ('a, system_info) outcome"
  api_net_status :: "'a \<Rightarrow> ('a, net_status) outcome"
  api_net_connect :: "'a \<Rightarrow> string \<Rightarrow> u16 \<Rightarrow> ('a, u64) outcome"
  api_net_send :: "'a \<Rightarrow> u64 \<Rightarrow> bytes \<Rightarrow> ('a, nat) outcome"
  api_net_recv :: "'a \<Rightarrow> u64 \<Rightarrow> nat \<Rightarrow> ('a, bytes) outcome"
  api_net_close :: "'a \<Rightarrow> u64 \<Rightarrow> ('a, unit) outcome"
  api_cancelled :: "'a \<Rightarrow> (bool \<times> 'a) option"

record 'a app_runtime =
  runtime_id :: string
  runtime_extension :: string
  runtime_execute :: "string \<Rightarrow> 'a system_api \<Rightarrow> 'a \<Rightarrow> ('a, int) outcome"

text \<open>A transition law that every method of the trait object obeys, and the contract of a runtime:
  it reaches the session only through these methods, so that a law they all obey, if it composes,
  is obeyed by a whole execution.\<close>

definition obeys :: "('a \<Rightarrow> 'a \<Rightarrow> bool) \<Rightarrow> 'a \<Rightarrow> ('r \<times> 'a) option \<Rightarrow> bool" where
  "obeys R a m \<longleftrightarrow> (\<forall>r b. m = Some (r, b) \<longrightarrow> R a b)"

definition api_obeys :: "('a \<Rightarrow> 'a \<Rightarrow> bool) \<Rightarrow> 'a system_api \<Rightarrow> bool" where
  "api_obeys R api \<longleftrightarrow> (\<forall>a s t h port bs n.
     obeys R a (api_console_write api a s) \<and> obeys R a (api_console_read_line api a s)
     \<and> obeys R a (api_read_text api a s) \<and> obeys R a (api_write_text api a s t)
     \<and> obeys R a (api_list api a s) \<and> obeys R a (api_create_dir_all api a s)
     \<and> obeys R a (api_remove api a s) \<and> obeys R a (api_rename api a s t)
     \<and> obeys R a (api_appdata_read api a s) \<and> obeys R a (api_appdata_write api a s t)
     \<and> obeys R a (api_monotonic_millis api a) \<and> obeys R a (api_system_info api a)
     \<and> obeys R a (api_net_status api a) \<and> obeys R a (api_net_connect api a s port)
     \<and> obeys R a (api_net_send api a h bs) \<and> obeys R a (api_net_recv api a h n)
     \<and> obeys R a (api_net_close api a h) \<and> obeys R a (api_cancelled api a))"

locale sandboxed_runtime =
  fixes runtime :: "'a app_runtime"
  assumes execute_obeys: "reflp R \<Longrightarrow> transp R \<Longrightarrow> api_obeys R api \<Longrightarrow>
      obeys R a (runtime_execute runtime source api a)"

end
