(* ===== verification/BTree.thy ===== *)
theory BTree
  imports Prelude
begin

text \<open>
  \<^verbatim>\<open>BTreeMap\<close> and \<^verbatim>\<open>BTreeSet\<close> as the sources use them: collections whose
  iteration order is the key order. A map is its list of entries with strictly increasing keys,
  a set its strictly increasing list of elements, so two collections are equal (\<^verbatim>\<open>Eq\<close>)
  exactly when they have the same content (\<open>omap_eqI\<close>, \<open>oset_eqI\<close>).
\<close>

section \<open>Ordered maps\<close>

type_synonym ('k, 'v) btree_map = "('k \<times> 'v) list"

definition omap :: "('k::linorder, 'v) btree_map \<Rightarrow> bool" where
  "omap m \<longleftrightarrow> sorted_wrt (<) (map fst m)"

abbreviation map_get :: "('k, 'v) btree_map \<Rightarrow> 'k \<Rightarrow> 'v option" where
  "map_get \<equiv> map_of"

definition contains_key :: "('k, 'v) btree_map \<Rightarrow> 'k \<Rightarrow> bool" where
  "contains_key m k \<longleftrightarrow> map_of m k \<noteq> None"

fun map_insert :: "'k::linorder \<Rightarrow> 'v \<Rightarrow> ('k, 'v) btree_map \<Rightarrow> ('k, 'v) btree_map" where
  "map_insert k v [] = [(k, v)]"
| "map_insert k v (e # m) = (if fst e < k then e # map_insert k v m
     else if fst e = k then (k, v) # m else (k, v) # e # m)"

definition map_remove :: "'k \<Rightarrow> ('k, 'v) btree_map \<Rightarrow> ('k, 'v) btree_map" where
  "map_remove k m = filter (\<lambda>e. fst e \<noteq> k) m"

definition map_retain :: "('k \<Rightarrow> 'v \<Rightarrow> bool) \<Rightarrow> ('k, 'v) btree_map \<Rightarrow> ('k, 'v) btree_map" where
  "map_retain p m = filter (\<lambda>e. p (fst e) (snd e)) m"

text \<open>\<^verbatim>\<open>entry(k).or_insert(v)\<close> keeps an entry that is there.\<close>

definition or_insert :: "'k::linorder \<Rightarrow> 'v \<Rightarrow> ('k, 'v) btree_map \<Rightarrow> ('k, 'v) btree_map" where
  "or_insert k v m = (if contains_key m k then m else map_insert k v m)"

lemma map_of_above: "\<forall>x\<in>set xs. (k :: 'k::linorder) < fst x \<Longrightarrow> map_of xs k = None"
  by (induction xs) auto

lemma sorted_entries_determined:
  fixes xs ys :: "('k::linorder \<times> 'v) list"
  assumes "sorted_wrt (<) (map fst xs)" "sorted_wrt (<) (map fst ys)" "map_of xs = map_of ys"
  shows "xs = ys"
  using assms
proof (induction xs arbitrary: ys)
  case Nil
  then show ?case by (cases ys) (auto simp: fun_eq_iff split: if_splits)
next
  case (Cons x xs)
  obtain k v where x: "x = (k, v)" by (cases x)
  have fresh: "map_of xs k = None"
    using Cons.prems(1) x by (auto intro: map_of_above)
  from Cons.prems(3) x have "map_of ys k = Some v" by (auto simp: fun_eq_iff split: if_splits)
  then obtain y ys' where ys: "ys = y # ys'" by (cases ys) auto
  have "fst y = k"
  proof (rule antisym)
    from \<open>map_of ys k = Some v\<close> have "k \<in> fst ` set ys"
      by (metis domI dom_map_of_conv_image_fst)
    then show "fst y \<le> k" using Cons.prems(2) ys by (auto intro: less_imp_le)
    have "map_of ys (fst y) \<noteq> None" using ys by (cases y) simp
    then have "map_of (x # xs) (fst y) \<noteq> None" by (simp only: Cons.prems(3) not_False_eq_True)
    then have "fst y \<in> fst ` set (x # xs)" by (simp only: map_of_eq_None_iff not_not)
    then show "k \<le> fst y" using Cons.prems(1) x by (auto intro: less_imp_le)
  qed
  with \<open>map_of ys k = Some v\<close> ys have y: "y = (k, v)" by (cases y) auto
  have fresh': "map_of ys' k = None"
    using Cons.prems(2) ys y by (auto intro: map_of_above)
  have "map_of xs = map_of ys'"
  proof
    fix q show "map_of xs q = map_of ys' q"
      using Cons.prems(3) x y ys fresh fresh'
      by (cases "q = k") (auto simp: fun_eq_iff split: if_splits)
  qed
  with Cons x y ys show ?case by simp
qed

text \<open>The contract its clients rely on: lookups after every update, and an iteration that lists
  each binding once, in key order.\<close>

locale ordered_map =
  fixes inv :: "'m \<Rightarrow> bool" and lookup :: "'m \<Rightarrow> 'k::linorder \<Rightarrow> 'v option"
    and entries :: "'m \<Rightarrow> ('k \<times> 'v) list" and ins :: "'k \<Rightarrow> 'v \<Rightarrow> 'm \<Rightarrow> 'm"
    and del :: "'k \<Rightarrow> 'm \<Rightarrow> 'm" and retain :: "('k \<Rightarrow> 'v \<Rightarrow> bool) \<Rightarrow> 'm \<Rightarrow> 'm"
  assumes inv_ins: "inv m \<Longrightarrow> inv (ins k v m)"
    and inv_del: "inv m \<Longrightarrow> inv (del k m)"
    and inv_retain: "inv m \<Longrightarrow> inv (retain p m)"
    and lookup_ins: "inv m \<Longrightarrow> lookup (ins k v m) = (lookup m)(k \<mapsto> v)"
    and lookup_del: "inv m \<Longrightarrow> lookup (del k m) = (lookup m)(k := None)"
    and lookup_retain: "inv m \<Longrightarrow> lookup (retain p m) k
          = (case lookup m k of None \<Rightarrow> None | Some v \<Rightarrow> if p k v then Some v else None)"
    and entries_sorted: "inv m \<Longrightarrow> sorted_wrt (<) (map fst (entries m))"
    and entries_lookup: "inv m \<Longrightarrow> lookup m k = map_of (entries m) k"
    and entries_inj: "inv m \<Longrightarrow> inv n \<Longrightarrow> entries m = entries n \<Longrightarrow> m = n"
begin

lemma lookup_determines: "inv m \<Longrightarrow> inv n \<Longrightarrow> lookup m = lookup n \<Longrightarrow> m = n"
  by (metis entries_inj entries_lookup entries_sorted ext sorted_entries_determined)

lemma ins_absorb: "inv m \<Longrightarrow> lookup m k = Some v \<Longrightarrow> ins k v m = m"
  by (rule lookup_determines) (auto simp: inv_ins lookup_ins)

lemma del_absent: "inv m \<Longrightarrow> lookup m k = None \<Longrightarrow> del k m = m"
  by (rule lookup_determines) (auto simp: inv_del lookup_del)

end

lemma map_insert_keys: "fst ` set (map_insert k v m) = insert k (fst ` set m)"
  by (induction m) auto

lemma omap_map_insert [simp]: "omap m \<Longrightarrow> omap (map_insert k v m)"
  unfolding omap_def
proof (induction m)
  case (Cons e m)
  have "\<And>x. x \<in> set (map_insert k v m) \<Longrightarrow> fst x = k \<or> fst x \<in> fst ` set m"
    using map_insert_keys [of k v m] by auto
  with Cons show ?case by fastforce
qed simp

lemma map_of_map_insert [simp]: "map_of (map_insert k v m) = (map_of m)(k \<mapsto> v)"
  by (induction m) (auto simp: fun_eq_iff)

lemma sorted_wrt_map_filter:
  "sorted_wrt r (map f xs) \<Longrightarrow> sorted_wrt r (map f (filter p xs))"
  by (induction xs) auto

lemma omap_filter: "omap m \<Longrightarrow> omap (filter p m)"
  by (simp add: omap_def sorted_wrt_map_filter)

lemma omap_remove_retain [simp]:
  "omap m \<Longrightarrow> omap (map_remove k m)" "omap m \<Longrightarrow> omap (map_retain p m)"
  by (simp_all add: map_remove_def map_retain_def omap_filter)

lemma map_of_map_remove [simp]: "map_of (map_remove k m) = (map_of m)(k := None)"
  by (induction m) (auto simp: map_remove_def fun_eq_iff)

lemma map_of_map_retain:
  assumes "omap m"
  shows "map_of (map_retain p m) k
    = (case map_of m k of None \<Rightarrow> None | Some v \<Rightarrow> if p k v then Some v else None)"
  using assms
proof (induction m)
  case (Cons e m)
  then have "omap m" "map_of m (fst e) = None"
    by (auto simp: omap_def intro: map_of_above)
  with Cons.IH show ?case
    by (cases e) (auto simp: map_retain_def split: option.splits)
qed (simp add: map_retain_def)

interpretation omap: ordered_map omap map_of "\<lambda>m. m" map_insert map_remove map_retain
  by unfold_locales (auto simp: map_of_map_retain omap_def [symmetric] fun_eq_iff)

lemmas omap_eqI = omap.lookup_determines

lemma omap_Nil [simp]: "omap []"
  by (simp add: omap_def)

lemma contains_key_insert [simp]: "contains_key (map_insert k v m) q \<longleftrightarrow> q = k \<or> contains_key m q"
  by (simp add: contains_key_def)

lemma omap_or_insert [simp]: "omap m \<Longrightarrow> omap (or_insert k v m)"
  by (simp add: or_insert_def)

lemma map_of_or_insert:
  "map_of (or_insert k v m) q = (if q = k \<and> map_of m k = None then Some v else map_of m q)"
  by (auto simp: or_insert_def contains_key_def)

lemma map_insert_snoc: "omap (m @ [(k, v)]) \<Longrightarrow> map_insert k v m = m @ [(k, v)]"
  unfolding omap_def by (induction m) auto

section \<open>Ordered sets\<close>

type_synonym 'a btree_set = "'a list"

definition oset :: "'a::linorder btree_set \<Rightarrow> bool" where
  "oset s \<longleftrightarrow> sorted_wrt (<) s"

fun set_insert :: "'a::linorder \<Rightarrow> 'a btree_set \<Rightarrow> 'a btree_set" where
  "set_insert x [] = [x]"
| "set_insert x (y # s) = (if y < x then y # set_insert x s
     else if y = x then y # s else x # y # s)"

definition set_remove :: "'a \<Rightarrow> 'a btree_set \<Rightarrow> 'a btree_set" where
  "set_remove x s = filter (\<lambda>y. y \<noteq> x) s"

lemma set_set_insert [simp]: "set (set_insert x s) = insert x (set s)"
  by (induction s) auto

lemma oset_set_insert [simp]: "oset s \<Longrightarrow> oset (set_insert x s)"
  unfolding oset_def by (induction s) auto

lemma set_set_remove [simp]: "set (set_remove x s) = set s - {x}"
  by (auto simp: set_remove_def)

lemma oset_filter [simp]: "oset s \<Longrightarrow> oset (filter p s)"
  unfolding oset_def by (induction s) auto

lemma oset_set_remove [simp]: "oset s \<Longrightarrow> oset (set_remove x s)"
  by (simp add: set_remove_def)

lemma oset_Nil [simp]: "oset []"
  by (simp add: oset_def)

lemma oset_eqI: "oset s \<Longrightarrow> oset t \<Longrightarrow> set s = set t \<Longrightarrow> s = t"
  unfolding oset_def
  by (metis sorted_distinct_set_unique strict_sorted_iff)

lemma set_insert_absorb: "oset s \<Longrightarrow> x \<in> set s \<Longrightarrow> set_insert x s = s"
  by (rule oset_eqI) auto

lemma set_insert_snoc: "oset (s @ [x]) \<Longrightarrow> set_insert x s = s @ [x]"
  unfolding oset_def by (induction s) auto

end
