(* ===== verification/Vfs.thy ===== *)
theory Vfs
  imports Api BTree
begin

text \<open>
  \<^verbatim>\<open>crates/afos-core/src/vfs.rs\<close>: path normalisation and the virtual file system.
  \<open>'p vfs\<close> is \<^verbatim>\<open>Vfs<P>\<close>: the platform's state and the immutable table behind
  \<^verbatim>\<open>/sys\<close>. The second half relates normalised paths to lists of components
  (\<open>abs_path\<close>), on which \<^verbatim>\<open>is_path_prefix\<close> is the list prefix order.
\<close>

section \<open>Paths\<close>

abbreviation slash :: char where "slash \<equiv> CHR ''/''"

record embedded_file =
  file_path :: string
  file_data :: bytes

definition embedded_text :: "string \<Rightarrow> string \<Rightarrow> embedded_file" where
  "embedded_text path data = \<lparr>file_path = path, file_data = as_bytes data\<rparr>"

definition is_path_prefix :: "string \<Rightarrow> string \<Rightarrow> bool" where
  "is_path_prefix pre path \<longleftrightarrow> path = pre
     \<or> (case strip_prefix pre path of None \<Rightarrow> False | Some rest \<Rightarrow> starts_with ''/'' rest)"

fun normalize_loop :: "string list \<Rightarrow> string list \<Rightarrow> string list res" where
  "normalize_loop components [] = Ok components"
| "normalize_loop components (c # cs) =
     (if c = '''' \<or> c = ''.'' then normalize_loop components cs
      else if c = ''..'' then
        if components = [] then Err InvalidPath else normalize_loop (butlast components) cs
      else normalize_loop (components @ [c]) cs)"

definition normalize_path :: "string \<Rightarrow> string \<Rightarrow> string res" where
  "normalize_path cwd input =
     (if CHR 0x00 \<in> set input \<or> CHR 0x5C \<in> set input then Err InvalidPath
      else let components = (if starts_with ''/'' input then []
                 else filter (\<lambda>c. c \<noteq> []) (split_on slash cwd))
        in and_then (normalize_loop components (split_on slash input))
             (\<lambda>components. Ok (''/'' @ join slash components)))"

section \<open>The virtual file system\<close>

record 'p vfs =
  vfs_platform :: 'p
  system_files :: "embedded_file list"

definition vfs_new :: "'p \<Rightarrow> 'p vfs" where
  "vfs_new p = \<lparr>vfs_platform = p, system_files = []\<rparr>"

definition vfs_with_system_files :: "'p \<Rightarrow> embedded_file list \<Rightarrow> 'p vfs" where
  "vfs_with_system_files p fs = \<lparr>vfs_platform = p, system_files = fs\<rparr>"

text \<open>\<^verbatim>\<open>platform_mut()\<close> followed by a method call.\<close>

definition on_platform :: "'p vfs \<Rightarrow> ('r \<times> 'p) option \<Rightarrow> ('r \<times> 'p vfs) option" where
  "on_platform v m = on_field m (\<lambda>p. v\<lparr>vfs_platform := p\<rparr>)"

definition persistent_path :: "string \<Rightarrow> string res" where
  "persistent_path path = and_then (ok_or (strip_prefix ''/'' path) InvalidPath) (\<lambda>relative.
     if relative = [] \<or> \<not> (is_path_prefix ''apps'' relative \<or> is_path_prefix ''user'' relative)
     then Err (PermissionDenied ''path is outside persistent mounts'')
     else Ok relative)"

definition system_file :: "'p vfs \<Rightarrow> string \<Rightarrow> embedded_file option" where
  "system_file v path = find (\<lambda>file. file_path file = path) (system_files v)"

definition with_slash :: "string \<Rightarrow> string" where
  "with_slash path = (if path \<noteq> [] \<and> last path = slash then path else path @ ''/'')"

definition system_dir_exists :: "'p vfs \<Rightarrow> string \<Rightarrow> bool" where
  "system_dir_exists v path =
     list_ex (\<lambda>file. starts_with (with_slash path) (file_path file)) (system_files v)"

definition add_system_entry ::
  "string \<Rightarrow> embedded_file \<Rightarrow> (string, storage_entry) btree_map \<Rightarrow> (string, storage_entry) btree_map"
  where
  "add_system_entry pre file entries = (case strip_prefix pre (file_path file) of
       None \<Rightarrow> entries
     | Some remainder \<Rightarrow>
         let (name, is_dir) = (case split_once slash remainder of
               None \<Rightarrow> (remainder, False) | Some (name, _) \<Rightarrow> (name, True))
         in if name = [] then entries
            else or_insert name \<lparr>entry_name = name, entry_is_dir = is_dir,
              entry_len = (if is_dir then 0 else word_of_nat (length (file_data file)))\<rparr> entries)"

definition list_system :: "'p vfs \<Rightarrow> string \<Rightarrow> storage_entry list res" where
  "list_system v path =
     (if path \<noteq> ''/sys'' \<and> \<not> system_dir_exists v path then Err (NotFound path)
      else Ok (map snd (fold (add_system_entry (with_slash path)) (system_files v) [])))"

fun create_dirs :: "'p platform \<Rightarrow> 'p vfs \<Rightarrow> string list \<Rightarrow> ('p vfs, unit) outcome" where
  "create_dirs P v [] = Some (Ok (), v)"
| "create_dirs P v (path # paths) =
     bind (on_platform v (storage_create_dir_all P (vfs_platform v) path))
       (\<lambda>_ v. create_dirs P v paths)"

definition initialize_layout :: "'p platform \<Rightarrow> 'p vfs \<Rightarrow> ('p vfs, unit) outcome" where
  "initialize_layout P v =
     create_dirs P v [''apps'', ''user'', ''user/config'', ''user/saves'', ''user/appdata'']"

definition vfs_exists :: "'p platform \<Rightarrow> 'p vfs \<Rightarrow> string \<Rightarrow> ('p vfs, bool) outcome" where
  "vfs_exists P v path = attempt (normalize_path ''/'' path) v (\<lambda>path.
     if path = ''/'' \<or> path = ''/sys'' \<or> path = ''/apps'' \<or> path = ''/user'' then Some (Ok True, v)
     else if is_path_prefix ''/sys'' path
     then Some (Ok (system_file v path \<noteq> None \<or> system_dir_exists v path), v)
     else attempt (persistent_path path) v (\<lambda>relative.
       on_platform v (storage_exists P (vfs_platform v) relative)))"

definition vfs_read :: "'p platform \<Rightarrow> 'p vfs \<Rightarrow> string \<Rightarrow> ('p vfs, bytes) outcome" where
  "vfs_read P v path = attempt (normalize_path ''/'' path) v (\<lambda>path.
     if is_path_prefix ''/sys'' path
     then Some (ok_or (map_option file_data (system_file v path)) (NotFound path), v)
     else attempt (persistent_path path) v (\<lambda>relative.
       on_platform v (storage_read P (vfs_platform v) relative)))"

definition vfs_read_text :: "'p platform \<Rightarrow> 'p vfs \<Rightarrow> string \<Rightarrow> ('p vfs, string) outcome" where
  "vfs_read_text P v path = bind (vfs_read P v path) (\<lambda>bs v.
     Some (ok_or (from_utf8 bs) (InvalidInput ''file is not valid UTF-8''), v))"

definition vfs_write :: "'p platform \<Rightarrow> 'p vfs \<Rightarrow> string \<Rightarrow> bytes \<Rightarrow> ('p vfs, unit) outcome" where
  "vfs_write P v path data = attempt (normalize_path ''/'' path) v (\<lambda>path.
     if is_path_prefix ''/sys'' path then Some (Err (ReadOnly path), v)
     else attempt (persistent_path path) v (\<lambda>relative.
       on_platform v (storage_write P (vfs_platform v) relative data)))"

definition root_entry :: "string \<Rightarrow> storage_entry" where
  "root_entry name = \<lparr>entry_name = name, entry_is_dir = True, entry_len = 0\<rparr>"

definition vfs_list :: "'p platform \<Rightarrow> 'p vfs \<Rightarrow> string \<Rightarrow> ('p vfs, storage_entry list) outcome" where
  "vfs_list P v path = attempt (normalize_path ''/'' path) v (\<lambda>path.
     if path = ''/'' then Some (Ok [root_entry ''sys'', root_entry ''apps'', root_entry ''user''], v)
     else if is_path_prefix ''/sys'' path then Some (list_system v path, v)
     else attempt (persistent_path path) v (\<lambda>relative.
       on_platform v (storage_list P (vfs_platform v) relative)))"

definition vfs_create_dir_all :: "'p platform \<Rightarrow> 'p vfs \<Rightarrow> string \<Rightarrow> ('p vfs, unit) outcome" where
  "vfs_create_dir_all P v path = attempt (normalize_path ''/'' path) v (\<lambda>path.
     if is_path_prefix ''/sys'' path then Some (Err (ReadOnly path), v)
     else attempt (persistent_path path) v (\<lambda>relative.
       on_platform v (storage_create_dir_all P (vfs_platform v) relative)))"

definition root_directories :: "string list" where
  "root_directories =
     [''/'', ''/apps'', ''/user'', ''/user/config'', ''/user/saves'', ''/user/appdata'']"

definition vfs_remove :: "'p platform \<Rightarrow> 'p vfs \<Rightarrow> string \<Rightarrow> ('p vfs, unit) outcome" where
  "vfs_remove P v path = attempt (normalize_path ''/'' path) v (\<lambda>path.
     if is_path_prefix ''/sys'' path then Some (Err (ReadOnly path), v)
     else if path \<in> set root_directories
     then Some (Err (PermissionDenied ''cannot remove an AFOS root directory''), v)
     else attempt (persistent_path path) v (\<lambda>relative.
       on_platform v (storage_remove P (vfs_platform v) relative)))"

definition vfs_rename :: "'p platform \<Rightarrow> 'p vfs \<Rightarrow> string \<Rightarrow> string \<Rightarrow> ('p vfs, unit) outcome" where
  "vfs_rename P v from to = attempt (normalize_path ''/'' from) v (\<lambda>from.
     attempt (normalize_path ''/'' to) v (\<lambda>to.
     if is_path_prefix ''/sys'' from \<or> is_path_prefix ''/sys'' to
     then Some (Err (ReadOnly ''/sys''), v)
     else attempt (persistent_path from) v (\<lambda>from.
       attempt (persistent_path to) v (\<lambda>to.
       on_platform v (storage_rename P (vfs_platform v) from to)))))"

section \<open>Normalised paths as lists of components\<close>

definition proper :: "string \<Rightarrow> bool" where
  "proper c \<longleftrightarrow> c \<noteq> [] \<and> c \<noteq> ''.'' \<and> c \<noteq> ''..'' \<and>
     slash \<notin> set c \<and> CHR 0x00 \<notin> set c \<and> CHR 0x5C \<notin> set c"

definition abs_path :: "string list \<Rightarrow> string" where
  "abs_path cs = ''/'' @ join slash cs"

definition path_components :: "string \<Rightarrow> string list" where
  "path_components p = filter (\<lambda>c. c \<noteq> []) (split_on slash p)"

definition canonical :: "string \<Rightarrow> bool" where
  "canonical p \<longleftrightarrow> list_all proper (path_components p) \<and> p = abs_path (path_components p)"

lemma proper_no_slash: "proper c \<Longrightarrow> slash \<notin> set c"
  and proper_not_Nil: "proper c \<Longrightarrow> c \<noteq> []"
  by (simp_all add: proper_def)

lemma split_on_proper_join:
  "list_all proper cs \<Longrightarrow> cs \<noteq> [] \<Longrightarrow> split_on slash (join slash cs) = cs"
  by (rule split_on_join) (auto simp: list_all_iff proper_no_slash)

lemma filter_proper: "list_all proper cs \<Longrightarrow> filter (\<lambda>c. c \<noteq> []) cs = cs"
  by (simp add: list_all_iff proper_not_Nil)

lemma path_components_abs [simp]: "list_all proper cs \<Longrightarrow> path_components (abs_path cs) = cs"
  by (cases "cs = []")
    (simp_all add: path_components_def abs_path_def split_on_proper_join filter_proper)

lemma canonical_abs [simp]: "list_all proper cs \<Longrightarrow> canonical (abs_path cs)"
  by (simp add: canonical_def)

lemma canonicalE:
  assumes "canonical p"
  obtains cs where "list_all proper cs" "p = abs_path cs"
  using assms by (auto simp: canonical_def)

lemma abs_path_inject:
  "list_all proper cs \<Longrightarrow> list_all proper ds \<Longrightarrow> abs_path cs = abs_path ds \<longleftrightarrow> cs = ds"
  by (metis path_components_abs)

lemma path_components_root [simp]: "path_components ''/'' = []"
  by (simp add: path_components_def)

lemma normalize_loop_keeps_proper:
  assumes "list_all proper comps" "\<forall>c\<in>set cs. slash \<notin> set c \<and> CHR 0x00 \<notin> set c \<and> CHR 0x5C \<notin> set c"
    "normalize_loop comps cs = Ok r"
  shows "list_all proper r"
  using assms
proof (induction comps cs rule: normalize_loop.induct)
  case (2 components c cs)
  have "list_all proper (butlast components)"
    using "2.prems"(1) by (auto simp: list_all_iff dest: in_set_butlastD)
  moreover have "c \<noteq> [] \<Longrightarrow> c \<noteq> ''.'' \<Longrightarrow> c \<noteq> ''..'' \<Longrightarrow> proper c"
    using "2.prems"(2) by (simp add: proper_def)
  ultimately show ?case using 2 by (auto split: if_splits)
qed simp

lemma normalize_loop_proper: "list_all proper cs \<Longrightarrow> normalize_loop comps cs = Ok (comps @ cs)"
  by (induction comps cs rule: normalize_loop.induct) (auto simp: proper_def)

lemma split_input_clean:
  assumes "CHR 0x00 \<notin> set s" "CHR 0x5C \<notin> set s" "c \<in> set (split_on slash s)"
  shows "slash \<notin> set c \<and> CHR 0x00 \<notin> set c \<and> CHR 0x5C \<notin> set c"
  using assms set_split_on [OF assms(3)] split_on_no_sep [OF assms(3)] by auto

lemma normalize_path_canonical:
  assumes "list_all proper (path_components cwd)" "normalize_path cwd input = Ok p"
  shows "canonical p"
proof -
  let ?start = "if starts_with ''/'' input then [] else filter (\<lambda>c. c \<noteq> []) (split_on slash cwd)"
  from assms(2) obtain r where r: "normalize_loop ?start (split_on slash input) = Ok r"
    and p: "p = abs_path r" and clean: "CHR 0x00 \<notin> set input" "CHR 0x5C \<notin> set input"
    by (auto simp: normalize_path_def and_then_Inr_iff abs_path_def Let_def split: if_splits)
  have "list_all proper ?start" using assms(1) by (simp add: path_components_def)
  then have "list_all proper r"
    using r split_input_clean [OF clean] by (blast intro: normalize_loop_keeps_proper)
  with p show ?thesis by simp
qed

lemma normalize_root_canonical: "normalize_path ''/'' input = Ok p \<Longrightarrow> canonical p"
  by (rule normalize_path_canonical [of "''/''"]) simp_all

lemma abs_path_clean:
  assumes "list_all proper cs"
  shows "CHR 0x00 \<notin> set (abs_path cs)" "CHR 0x5C \<notin> set (abs_path cs)"
  using assms set_join [of slash cs] by (auto simp: abs_path_def list_all_iff proper_def)

lemma normalize_abs [simp]: "list_all proper cs \<Longrightarrow> normalize_path cwd (abs_path cs) = Ok (abs_path cs)"
proof -
  assume cs: "list_all proper cs"
  have "normalize_loop [] (split_on slash (abs_path cs)) = Ok cs"
    using cs normalize_loop_proper [OF cs, of "[]"]
    by (cases "cs = []") (simp_all add: abs_path_def split_on_proper_join)
  moreover have "starts_with ''/'' (abs_path cs)" by (simp add: abs_path_def)
  ultimately show ?thesis
    using abs_path_clean [OF cs] by (simp add: normalize_path_def) (simp add: abs_path_def)
qed

lemma normalize_canonical: "canonical p \<Longrightarrow> normalize_path cwd p = Ok p"
  by (elim canonicalE) simp

text \<open>On normalised paths the prefix test is the prefix order on components.\<close>

lemma is_path_prefix_iff: "is_path_prefix a p \<longleftrightarrow> at_or_below a p"
  by (auto simp: is_path_prefix_def at_or_below_def starts_with_iff strip_prefix_Some_iff
      split: option.splits)

lemma join_prefix:
  assumes "list_all proper cs" "list_all proper ds" "cs \<noteq> []"
  shows "at_or_below (join slash cs) (join slash ds) \<longleftrightarrow> prefix cs ds"
proof
  assume "prefix cs ds"
  then obtain es where "ds = cs @ es" by (auto simp: prefix_def)
  with assms(3) show "at_or_below (join slash cs) (join slash ds)"
    by (cases "es = []") (auto simp: at_or_below_def starts_with_iff join_append)
next
  assume below: "at_or_below (join slash cs) (join slash ds)"
  have split_ds: "split_on slash (join slash ds) = (if ds = [] then [[]] else ds)"
    using assms(2) by (simp add: split_on_proper_join)
  have split_cs: "split_on slash (join slash cs) = cs"
    using assms by (simp add: split_on_proper_join)
  from below show "prefix cs ds"
  proof (unfold at_or_below_def, elim disjE)
    assume "join slash ds = join slash cs"
    then have "(if ds = [] then [[]] else ds) = cs" using split_ds split_cs by metis
    then show ?thesis using assms(1) by (auto simp: proper_def split: if_splits)
  next
    assume "starts_with (join slash cs @ ''/'') (join slash ds)"
    then obtain r where r: "join slash ds = join slash cs @ slash # r"
      by (auto simp: starts_with_iff)
    have "split_on slash (join slash (cs @ [r])) = cs @ split_on slash r" for r
      using assms(1,3)
    proof (induction cs)
      case (Cons c cs)
      then show ?case
        by (cases "cs = []") (auto simp: split_on_append_sep join_Cons proper_no_slash)
    qed simp
    with r assms(3) have "split_on slash (join slash ds) = cs @ split_on slash r"
      by (metis join.simps(2) join_append not_Cons_self2)
    with split_ds assms(1,3) show ?thesis
      by (cases cs) (auto simp: prefix_def split: if_splits)
  qed
qed

lemma abs_prefix:
  assumes "list_all proper cs" "list_all proper ds" "cs \<noteq> []"
  shows "is_path_prefix (abs_path cs) (abs_path ds) \<longleftrightarrow> prefix cs ds"
  using join_prefix [OF assms]
  by (simp add: is_path_prefix_iff abs_path_def at_or_below_def starts_with_def)

section \<open>What a call may change\<close>

text \<open>The storage paths at or below an absolute path, and the invariant and the stored files of
  a \<^verbatim>\<open>Vfs\<close> in terms of its platform's.\<close>

definition region :: "string \<Rightarrow> string set" where
  "region path = {q. at_or_below path (slash # q)}"

definition vfs_good :: "('p \<Rightarrow> bool) \<Rightarrow> embedded_file list \<Rightarrow> 'p vfs \<Rightarrow> bool" where
  "vfs_good good table v \<longleftrightarrow> good (vfs_platform v) \<and> system_files v = table"

definition vfs_view :: "('p \<Rightarrow> string \<Rightarrow> bytes option) \<Rightarrow> 'p vfs \<Rightarrow> string \<Rightarrow> bytes option" where
  "vfs_view files v = files (vfs_platform v)"

lemma at_or_below_refl [simp]: "at_or_below a a"
  by (simp add: at_or_below_def)

lemma at_or_below_trans: "at_or_below a b \<Longrightarrow> at_or_below b c \<Longrightarrow> at_or_below a c"
  by (auto simp: at_or_below_def starts_with_iff)

lemma region_self [simp]: "r \<in> region (slash # r)"
  by (simp add: region_def)

lemma region_Cons: "region (slash # r) = {q. at_or_below r q}"
  by (auto simp: region_def at_or_below_def)

lemma persistent_path_Ok:
  "persistent_path p = Ok r \<longleftrightarrow> p = slash # r \<and>
     (is_path_prefix ''apps'' r \<or> is_path_prefix ''user'' r)"
proof (cases "strip_prefix ''/'' p")
  case None
  moreover from None have "p \<noteq> slash # r" by (auto simp: strip_prefix_None_iff)
  ultimately show ?thesis by (simp add: persistent_path_def)
next
  case (Some q)
  have "\<not> is_path_prefix ''apps'' []" "\<not> is_path_prefix ''user'' []"
    by (simp_all add: is_path_prefix_def strip_prefix_def)
  moreover have "p = slash # q" using Some by (simp add: strip_prefix_Some_iff)
  ultimately show ?thesis using Some by (auto simp: persistent_path_def)
qed

lemma confined_on_platform:
  "vfs_good good table v \<Longrightarrow> confined good files S (vfs_platform v) m \<Longrightarrow>
    confined (vfs_good good table) (vfs_view files) S v (on_platform v m)"
  unfolding on_platform_def
  by (rule confined_on_field) (auto simp: vfs_good_def vfs_view_def)

text \<open>A storage path that the platform contract allows: normalised, relative, and inside
  \<^verbatim>\<open>apps\<close> or \<^verbatim>\<open>user\<close>.\<close>

definition mount_path :: "string \<Rightarrow> bool" where
  "mount_path q \<longleftrightarrow> canonical (slash # q) \<and> (is_path_prefix ''apps'' q \<or> is_path_prefix ''user'' q)"

lemma persistent_mount_path:
  "normalize_path ''/'' path = Ok p \<Longrightarrow> persistent_path p = Ok r \<Longrightarrow> mount_path r"
  using normalize_root_canonical by (auto simp: persistent_path_Ok mount_path_def)

lemma mount_storage_path:
  assumes "mount_path r"
  shows "storage_path r"
proof -
  from assms obtain cs where cs: "list_all proper cs" "slash # r = abs_path cs"
    by (auto simp: mount_path_def elim: canonicalE)
  have "cs \<noteq> []"
    using cs(2) assms by (auto simp: mount_path_def abs_path_def is_path_prefix_def strip_prefix_def)
  then show ?thesis
    using cs by (auto simp: storage_path_def abs_path_def split_on_proper_join list_all_iff proper_def)
qed

lemma persistent_storage_path:
  "normalize_path ''/'' path = Ok p \<Longrightarrow> persistent_path p = Ok r \<Longrightarrow> storage_path r"
  by (rule mount_storage_path) (rule persistent_mount_path)

context storage_platform
begin

lemmas platform_keeps =
  console_write_keeps console_read_line_keeps console_clear_keeps storage_read_keeps
  storage_list_keeps storage_exists_keeps create_dir_all_keeps monotonic_millis_keeps
  fill_random_keeps poll_cancel_keeps net_status_keeps net_connect_keeps net_send_keeps
  net_recv_keeps net_close_keeps

lemma storage_write_confined:
  "good p \<Longrightarrow> storage_path path \<Longrightarrow> confined good files {path} p (storage_write P p path d)"
  unfolding confined_def
proof (intro allI impI)
  fix r p' assume "good p" "storage_path path" "storage_write P p path d = Some (r, p')"
  then show "good p' \<and> (\<forall>q. q \<notin> {path} \<longrightarrow> files p' q = files p q)"
    by (cases r) (auto dest: storage_write_ok storage_write_err)
qed

lemma storage_remove_confined:
  "good p \<Longrightarrow> storage_path path \<Longrightarrow> confined good files {q. at_or_below path q} p (storage_remove P p path)"
  unfolding confined_def
proof (intro allI impI)
  fix r p' assume "good p" "storage_path path" "storage_remove P p path = Some (r, p')"
  then show "good p' \<and> (\<forall>q. q \<notin> {q. at_or_below path q} \<longrightarrow> files p' q = files p q)"
    by (cases r) (auto dest: storage_remove_ok storage_remove_err)
qed

lemma storage_rename_confined:
  "good p \<Longrightarrow> storage_path from \<Longrightarrow> storage_path to \<Longrightarrow> confined good files ({q. at_or_below from q} \<union> {q. at_or_below to q}) p
     (storage_rename P p from to)"
  unfolding confined_def
proof (intro allI impI)
  fix r p' assume run: "good p" "storage_path from" "storage_path to" "storage_rename P p from to = Some (r, p')"
  show "good p' \<and> (\<forall>q. q \<notin> {q. at_or_below from q} \<union> {q. at_or_below to q} \<longrightarrow>
      files p' q = files p q)"
  proof (cases r)
    case (Inl e)
    with run show ?thesis using storage_rename_err [of p "from" to e p'] by simp
  next
    case (Inr u)
    with run show ?thesis using storage_rename_ok [of p "from" to u p'] by simp
  qed
qed

lemma on_platform_keeps:
  "vfs_good good table v \<Longrightarrow> keeps good files (vfs_platform v) m \<Longrightarrow>
    confined (vfs_good good table) (vfs_view files) S v (on_platform v m)"
  by (rule keeps_confined, rule confined_on_platform)

lemma vfs_good_platform: "vfs_good good table v \<Longrightarrow> good (vfs_platform v)"
  by (simp add: vfs_good_def)

lemmas vfs_call = confined_attempt confined_bind confined_return on_platform_keeps

lemma vfs_exists_keeps:
  "vfs_good good table v \<Longrightarrow> confined (vfs_good good table) (vfs_view files) S v (vfs_exists P v path)"
  unfolding vfs_exists_def
  by (auto intro!: vfs_call storage_exists_keeps vfs_good_platform)

lemma vfs_read_keeps:
  "vfs_good good table v \<Longrightarrow> confined (vfs_good good table) (vfs_view files) S v (vfs_read P v path)"
  unfolding vfs_read_def
  by (auto intro!: vfs_call storage_read_keeps vfs_good_platform)

lemma vfs_read_text_keeps:
  "vfs_good good table v \<Longrightarrow>
    confined (vfs_good good table) (vfs_view files) S v (vfs_read_text P v path)"
  unfolding vfs_read_text_def by (auto intro!: vfs_call vfs_read_keeps)

lemma vfs_list_keeps:
  "vfs_good good table v \<Longrightarrow> confined (vfs_good good table) (vfs_view files) S v (vfs_list P v path)"
  unfolding vfs_list_def
  by (auto intro!: vfs_call storage_list_keeps vfs_good_platform)

lemma vfs_create_dir_all_keeps:
  "vfs_good good table v \<Longrightarrow>
    confined (vfs_good good table) (vfs_view files) S v (vfs_create_dir_all P v path)"
  unfolding vfs_create_dir_all_def
  by (auto intro!: vfs_call create_dir_all_keeps vfs_good_platform intro: persistent_storage_path)

lemma create_dirs_keeps:
  "vfs_good good table v \<Longrightarrow> list_all storage_path paths \<Longrightarrow>
    confined (vfs_good good table) (vfs_view files) S v (create_dirs P v paths)"
  by (induction paths arbitrary: v) (auto intro!: vfs_call create_dir_all_keeps vfs_good_platform)

lemma initialize_layout_keeps:
  "vfs_good good table v \<Longrightarrow>
    confined (vfs_good good table) (vfs_view files) S v (initialize_layout P v)"
  unfolding initialize_layout_def by (rule create_dirs_keeps) (simp_all add: storage_path_def)

lemma vfs_write_confined:
  assumes "vfs_good good table v" "\<And>p. normalize_path ''/'' path = Ok p \<Longrightarrow> region p \<subseteq> S"
  shows "confined (vfs_good good table) (vfs_view files) S v (vfs_write P v path d)"
  unfolding vfs_write_def
proof (rule confined_attempt, rule assms(1))
  fix p assume p: "normalize_path ''/'' path = Ok p"
  have "confined (vfs_good good table) (vfs_view files) S v (attempt (persistent_path p) v
      (\<lambda>relative. on_platform v (storage_write P (vfs_platform v) relative d)))"
  proof (rule confined_attempt, rule assms(1))
    fix r assume r: "persistent_path p = Ok r"
    then have "p = slash # r" by (simp add: persistent_path_Ok)
    with assms(2) [OF p] have "r \<in> S" by auto
    then show "confined (vfs_good good table) (vfs_view files) S v
        (on_platform v (storage_write P (vfs_platform v) r d))"
      using assms(1) by (auto intro!: confined_on_platform
          confined_mono [OF storage_write_confined] vfs_good_platform persistent_storage_path [OF p r])
  qed
  with assms(1) show "confined (vfs_good good table) (vfs_view files) S v
     (if is_path_prefix ''/sys'' p then Some (Err (ReadOnly p), v)
      else attempt (persistent_path p) v (\<lambda>relative.
        on_platform v (storage_write P (vfs_platform v) relative d)))"
    by (simp add: confined_return)
qed

lemma vfs_remove_confined:
  assumes "vfs_good good table v" "\<And>p. normalize_path ''/'' path = Ok p \<Longrightarrow>
      p \<notin> set root_directories \<Longrightarrow> region p \<subseteq> S"
  shows "confined (vfs_good good table) (vfs_view files) S v (vfs_remove P v path)"
  unfolding vfs_remove_def
proof (rule confined_attempt, rule assms(1))
  fix p assume p: "normalize_path ''/'' path = Ok p"
  have "confined (vfs_good good table) (vfs_view files) S v (attempt (persistent_path p) v
      (\<lambda>relative. on_platform v (storage_remove P (vfs_platform v) relative)))"
    if "p \<notin> set root_directories"
  proof (rule confined_attempt, rule assms(1))
    fix r assume r: "persistent_path p = Ok r"
    then have "p = slash # r" by (simp add: persistent_path_Ok)
    with assms(2) [OF p that] have "{q. at_or_below r q} \<subseteq> S" by (simp add: region_Cons)
    then show "confined (vfs_good good table) (vfs_view files) S v
        (on_platform v (storage_remove P (vfs_platform v) r))"
      using assms(1) by (blast intro: confined_on_platform
          confined_mono [OF storage_remove_confined] vfs_good_platform persistent_storage_path [OF p r])
  qed
  with assms(1) show "confined (vfs_good good table) (vfs_view files) S v
     (if is_path_prefix ''/sys'' p then Some (Err (ReadOnly p), v)
      else if p \<in> set root_directories
      then Some (Err (PermissionDenied ''cannot remove an AFOS root directory''), v)
      else attempt (persistent_path p) v (\<lambda>relative.
        on_platform v (storage_remove P (vfs_platform v) relative)))"
    by (auto intro: confined_return)
qed

lemma vfs_rename_confined:
  assumes "vfs_good good table v"
    "\<And>p. normalize_path ''/'' from = Ok p \<Longrightarrow> region p \<subseteq> S"
    "\<And>p. normalize_path ''/'' to = Ok p \<Longrightarrow> region p \<subseteq> S"
  shows "confined (vfs_good good table) (vfs_view files) S v (vfs_rename P v from to)"
  unfolding vfs_rename_def
proof (rule confined_attempt, rule assms(1), rule confined_attempt, rule assms(1))
  fix a b assume ab: "normalize_path ''/'' from = Ok a" "normalize_path ''/'' to = Ok b"
  have "confined (vfs_good good table) (vfs_view files) S v (attempt (persistent_path a) v
     (\<lambda>f. attempt (persistent_path b) v
     (\<lambda>t. on_platform v (storage_rename P (vfs_platform v) f t))))"
  proof (rule confined_attempt, rule assms(1), rule confined_attempt, rule assms(1))
    fix f t assume ft: "persistent_path a = Ok f" "persistent_path b = Ok t"
    then have "a = slash # f" "b = slash # t" by (simp_all add: persistent_path_Ok)
    with assms(2) [OF ab(1)] assms(3) [OF ab(2)]
    have "{q. at_or_below f q} \<union> {q. at_or_below t q} \<subseteq> S" by (simp add: region_Cons)
    then show "confined (vfs_good good table) (vfs_view files) S v
        (on_platform v (storage_rename P (vfs_platform v) f t))"
      using assms(1) by (blast intro: confined_on_platform
          confined_mono [OF storage_rename_confined] vfs_good_platform
          persistent_storage_path [OF ab(1) ft(1)] persistent_storage_path [OF ab(2) ft(2)])
  qed
  with assms(1) show "confined (vfs_good good table) (vfs_view files) S v
     (if is_path_prefix ''/sys'' a \<or> is_path_prefix ''/sys'' b
      then Some (Err (ReadOnly ''/sys''), v)
      else attempt (persistent_path a) v (\<lambda>f. attempt (persistent_path b) v
        (\<lambda>t. on_platform v (storage_rename P (vfs_platform v) f t))))"
    by (auto intro: confined_return)
qed

end

section \<open>Properties\<close>

text \<open>C27: a path normalised against a current directory that is itself made of proper components
  is canonical (absolute, no empty, dot or dot-dot component, no NUL or backslash), and
  normalising it again, against any directory, changes nothing.\<close>

theorem normalize_path_idempotent:
  assumes "list_all proper (path_components cwd)" "normalize_path cwd input = Ok p"
  shows "canonical p \<and> normalize_path other p = Ok p"
  using normalize_path_canonical [OF assms] normalize_canonical by blast

theorem normalize_path_idempotent_witness:
  "list_all proper (path_components ''/user/saves'')
   \<and> normalize_path ''/user/saves'' ''../config//./x'' = Ok ''/user/config/x''
   \<and> canonical ''/user/config/x'' \<and> normalize_path ''/'' ''/user/config/x'' = Ok ''/user/config/x''"
proof -
  have c: "list_all proper (path_components ''/user/saves'')"
    by (simp add: path_components_def proper_def)
  have n: "normalize_path ''/user/saves'' ''../config//./x'' = Ok ''/user/config/x''"
    by (simp add: normalize_path_def)
  show ?thesis using c n normalize_path_idempotent [OF c n, of "''/''"] by simp
qed

text \<open>The number of names and of dot-dots among the components of a path.\<close>

definition names_in :: "string list \<Rightarrow> nat" where
  "names_in cs = length (filter (\<lambda>c. c \<noteq> [] \<and> c \<noteq> ''.'' \<and> c \<noteq> ''..'') cs)"

definition parents_in :: "string list \<Rightarrow> nat" where
  "parents_in cs = length (filter (\<lambda>c. c = ''..'') cs)"

lemma all_take_Cons:
  "(\<forall>n\<le>length (c # cs). Q (take n (c # cs))) \<longleftrightarrow> Q [] \<and> (\<forall>n\<le>length cs. Q (c # take n cs))"
proof safe
  fix n assume "\<forall>n\<le>length (c # cs). Q (take n (c # cs))"
  then show "Q []" by (metis le0 take0)
next
  fix n assume all: "\<forall>n\<le>length (c # cs). Q (take n (c # cs))" and n: "n \<le> length cs"
  from all have "Q (take (Suc n) (c # cs))" using n by (metis Suc_le_mono length_Cons)
  then show "Q (c # take n cs)" by simp
next
  fix n assume "Q []" "\<forall>n\<le>length cs. Q (c # take n cs)" "n \<le> length (c # cs)"
  then show "Q (take n (c # cs))" by (cases n) auto
qed

lemma normalize_loop_succeeds:
  "(\<exists>r. normalize_loop comps cs = Ok r) \<longleftrightarrow>
    (\<forall>n\<le>length cs. parents_in (take n cs) \<le> length comps + names_in (take n cs))"
proof (induction comps cs rule: normalize_loop.induct)
  case (1 comps)
  then show ?case by (simp add: parents_in_def)
next
  case (2 comps c cs)
  let ?le = "\<lambda>comps xs. parents_in xs \<le> length comps + names_in xs"
  have step: "(\<forall>n\<le>length (c # cs). ?le comps (take n (c # cs))) \<longleftrightarrow>
      ?le comps [] \<and> (\<forall>n\<le>length cs. ?le comps (c # take n cs))"
    by (rule all_take_Cons [where Q = "?le comps"])
  consider (skip) "c = [] \<or> c = ''.''" | (up) "c = ''..''" | (name) "c \<noteq> []" "c \<noteq> ''.''" "c \<noteq> ''..''"
    by blast
  then show ?case
  proof cases
    case skip
    then show ?thesis unfolding step using "2.IH"(1) by (auto simp: parents_in_def names_in_def)
  next
    case up
    show ?thesis
    proof (cases "comps = []")
      case True
      have "\<not> (\<forall>n\<le>length (c # cs). ?le comps (take n (c # cs)))"
        using up True by (auto simp: parents_in_def names_in_def intro!: exI [of _ 1])
      with up True show ?thesis by simp
    next
      case False
      then obtain xs x where "comps = xs @ [x]" by (cases comps rule: rev_cases) auto
      then show ?thesis unfolding step using up "2.IH"(2)
        by (auto simp: parents_in_def names_in_def)
    qed
  next
    case name
    then show ?thesis unfolding step using "2.IH"(3) by (auto simp: parents_in_def names_in_def)
  qed
qed

text \<open>A path is accepted exactly when it has no NUL and no backslash and, read from left to
  right, never has more dot-dots than the directory it starts from and the names read so far
  provide: no spelling reaches above the virtual root, and nothing else is refused.\<close>

theorem normalize_path_accepts_iff:
  "(\<exists>p. normalize_path cwd input = Ok p) \<longleftrightarrow>
     CHR 0x00 \<notin> set input \<and> CHR 0x5C \<notin> set input \<and>
     (let start = (if starts_with ''/'' input then 0 else length (path_components cwd));
          cs = split_on slash input
      in \<forall>n\<le>length cs. parents_in (take n cs) \<le> start + names_in (take n cs))"
proof -
  let ?comps = "if starts_with ''/'' input then [] else path_components cwd"
  have "(\<exists>p. normalize_path cwd input = Ok p) \<longleftrightarrow> CHR 0x00 \<notin> set input \<and> CHR 0x5C \<notin> set input \<and>
      (\<exists>r. normalize_loop ?comps (split_on slash input) = Ok r)"
    by (auto simp: normalize_path_def path_components_def and_then_Inr_iff Let_def)
  then show ?thesis
    by (simp only: normalize_loop_succeeds Let_def if_distrib [of length] list.size(3))
qed

theorem normalize_path_accepts_iff_witness:
  "\<not> (\<exists>p. normalize_path ''/user'' ''../../x'' = Ok p) \<and> (\<exists>p. normalize_path ''/user'' ''../x/..'' = Ok p)"
proof -
  have "parents_in (take 2 (split_on slash ''../../x'')) = 2" "names_in (take 2 (split_on slash ''../../x'')) = 0"
    "length (split_on slash ''../../x'') = 3" "length (path_components ''/user'') = 1"
    by (simp_all add: parents_in_def names_in_def path_components_def)
  then have "\<not> (\<forall>n\<le>length (split_on slash ''../../x''). parents_in (take n (split_on slash ''../../x''))
      \<le> length (path_components ''/user'') + names_in (take n (split_on slash ''../../x'')))"
    by (auto intro!: exI [of _ 2])
  then have "\<not> (\<exists>p. normalize_path ''/user'' ''../../x'' = Ok p)"
    unfolding normalize_path_accepts_iff by (simp add: Let_def)
  moreover have "\<exists>p. normalize_path ''/user'' ''../x/..'' = Ok p" by (simp add: normalize_path_def)
  ultimately show ?thesis by blast
qed

text \<open>C16: nothing below \<^verbatim>\<open>/sys\<close> can be written, created, removed or renamed (from or to),
  however the path is spelt: the call returns a read-only error and neither the platform nor
  the system table changes.\<close>

theorem sys_is_read_only:
  assumes "normalize_path ''/'' path = Ok p" "is_path_prefix ''/sys'' p"
  shows "vfs_write P v path d = Some (Err (ReadOnly p), v)
    \<and> vfs_create_dir_all P v path = Some (Err (ReadOnly p), v)
    \<and> vfs_remove P v path = Some (Err (ReadOnly p), v)
    \<and> (normalize_path ''/'' other = Ok q \<longrightarrow>
        vfs_rename P v path other = Some (Err (ReadOnly ''/sys''), v)
        \<and> vfs_rename P v other path = Some (Err (ReadOnly ''/sys''), v))"
  using assms
  by (simp add: vfs_write_def vfs_create_dir_all_def vfs_remove_def vfs_rename_def)

theorem sys_is_read_only_witness:
  "normalize_path ''/'' ''user/../sys//apps/ls.rhai'' = Ok ''/sys/apps/ls.rhai''
   \<and> is_path_prefix ''/sys'' ''/sys/apps/ls.rhai''
   \<and> (\<forall>(P :: 'p platform) v. vfs_write P v ''user/../sys//apps/ls.rhai'' [1]
        = Some (Err (ReadOnly ''/sys/apps/ls.rhai''), v))"
proof -
  have n: "normalize_path ''/'' ''user/../sys//apps/ls.rhai'' = Ok ''/sys/apps/ls.rhai''"
    by (simp add: normalize_path_def)
  have s: "is_path_prefix ''/sys'' ''/sys/apps/ls.rhai''"
    by (simp add: is_path_prefix_def strip_prefix_def)
  show ?thesis by (intro conjI allI n s sys_is_read_only [OF n s, THEN conjunct1])
qed

text \<open>A platform that never returns on any other storage path.\<close>

definition guarded :: "'p platform \<Rightarrow> 'p platform" where
  "guarded P = P
     \<lparr>storage_read := (\<lambda>p q. if mount_path q then storage_read P p q else None),
      storage_write := (\<lambda>p q d. if mount_path q then storage_write P p q d else None),
      storage_list := (\<lambda>p q. if mount_path q then storage_list P p q else None),
      storage_create_dir_all :=
        (\<lambda>p q. if mount_path q then storage_create_dir_all P p q else None),
      storage_remove := (\<lambda>p q. if mount_path q then storage_remove P p q else None),
      storage_rename := (\<lambda>p q t. if mount_path q \<and> mount_path t then storage_rename P p q t else None),
      storage_exists := (\<lambda>p q. if mount_path q then storage_exists P p q else None)\<rparr>"

lemma attempt_cong:
  "(\<And>x. r = Ok x \<Longrightarrow> k x = l x) \<Longrightarrow> attempt r s k = attempt r s l"
  by (cases r) auto

text \<open>C15: every storage path the virtual file system hands to its platform is normalised,
  relative and inside the \<^verbatim>\<open>apps\<close> or \<^verbatim>\<open>user\<close> mount: on a platform that never returns for any
  other path, every operation has the same outcome as on the original one.\<close>

theorem vfs_calls_are_mounted:
  "vfs_exists (guarded P) v path = vfs_exists P v path
   \<and> vfs_read (guarded P) v path = vfs_read P v path
   \<and> vfs_write (guarded P) v path d = vfs_write P v path d
   \<and> vfs_list (guarded P) v path = vfs_list P v path
   \<and> vfs_create_dir_all (guarded P) v path = vfs_create_dir_all P v path
   \<and> vfs_remove (guarded P) v path = vfs_remove P v path
   \<and> vfs_rename (guarded P) v path to = vfs_rename P v path to
   \<and> initialize_layout (guarded P) v = initialize_layout P v"
proof (intro conjI)
  show "vfs_rename (guarded P) v path to = vfs_rename P v path to"
    unfolding vfs_rename_def guarded_def
    by (intro attempt_cong if_cong refl) (simp add: persistent_mount_path)
  show "initialize_layout (guarded P) v = initialize_layout P v"
    by (simp add: initialize_layout_def guarded_def mount_path_def canonical_def path_components_def
        abs_path_def proper_def is_path_prefix_def strip_prefix_def)
qed (unfold vfs_exists_def vfs_read_def vfs_write_def vfs_list_def vfs_create_dir_all_def
      vfs_remove_def guarded_def,
    (intro attempt_cong if_cong refl, simp add: persistent_mount_path)+)

text \<open>The child of a directory (given with its slash) through which a file is reached.\<close>

definition child_name :: "string \<Rightarrow> embedded_file \<Rightarrow> string option" where
  "child_name pre f = (case strip_prefix pre (file_path f) of None \<Rightarrow> None
     | Some r \<Rightarrow> let n = takeWhile (\<lambda>c. c \<noteq> slash) r in if n = [] then None else Some n)"

lemma child_name_Some:
  "child_name pre f = Some n \<longleftrightarrow> n \<noteq> [] \<and> slash \<notin> set n \<and> at_or_below (pre @ n) (file_path f)"
proof
  assume "child_name pre f = Some n"
  then obtain r where r: "file_path f = pre @ r" and n: "n = takeWhile (\<lambda>c. c \<noteq> slash) r" "n \<noteq> []"
    by (auto simp: child_name_def Let_def strip_prefix_Some_iff split: option.splits if_splits)
  have "slash \<notin> set n" using n by (auto dest: set_takeWhileD)
  moreover have "r = n \<or> (\<exists>t. r = n @ slash # t)"
  proof (cases "dropWhile (\<lambda>c. c \<noteq> slash) r")
    case Nil
    then show ?thesis using n by (metis append_Nil2 takeWhile_dropWhile_id)
  next
    case (Cons a t)
    then have "a = slash" using hd_dropWhile [of "\<lambda>c. c \<noteq> slash" r] by simp
    then show ?thesis using n Cons by (metis takeWhile_dropWhile_id)
  qed
  ultimately show "n \<noteq> [] \<and> slash \<notin> set n \<and> at_or_below (pre @ n) (file_path f)"
    using r n by (auto simp: at_or_below_def starts_with_iff)
next
  assume *: "n \<noteq> [] \<and> slash \<notin> set n \<and> at_or_below (pre @ n) (file_path f)"
  then have "strip_prefix pre (file_path f) = Some n
      \<or> (\<exists>t. strip_prefix pre (file_path f) = Some (n @ slash # t))"
    by (auto simp: at_or_below_def starts_with_iff strip_prefix_Some_iff)
  then show "child_name pre f = Some n"
    using * by (auto simp: child_name_def)
qed

lemma add_system_entry_child:
  "add_system_entry pre f m = (case child_name pre f of None \<Rightarrow> m
     | Some n \<Rightarrow> or_insert n \<lparr>entry_name = n, entry_is_dir = file_path f \<noteq> pre @ n,
         entry_len = (if file_path f \<noteq> pre @ n then 0 else word_of_nat (length (file_data f)))\<rparr> m)"
proof (cases "strip_prefix pre (file_path f)")
  case None
  then show ?thesis by (simp add: add_system_entry_def child_name_def)
next
  case (Some r)
  then have r: "file_path f = pre @ r" by (simp add: strip_prefix_Some_iff)
  show ?thesis
  proof (cases "split_once slash r")
    case None
    then have "slash \<notin> set r" by (simp add: split_once_None_iff)
    then show ?thesis using Some None r by (simp add: add_system_entry_def child_name_def)
  next
    fix ab assume "split_once slash r = Some ab"
    then obtain a b where ab: "split_once slash r = Some (a, b)" by (cases ab) simp
    then have "r = a @ slash # b" "slash \<notin> set a" by (simp_all add: split_once_Some_iff)
    then have "takeWhile (\<lambda>c. c \<noteq> slash) r = a"
      by simp
    then show ?thesis using Some ab r \<open>r = a @ slash # b\<close>
      by (simp add: add_system_entry_def child_name_def)
  qed
qed

definition listing :: "(string, storage_entry) btree_map \<Rightarrow> bool" where
  "listing m \<longleftrightarrow> omap m \<and> (\<forall>k e. map_of m k = Some e \<longrightarrow> entry_name e = k)"

lemma listing_names: "listing m \<Longrightarrow> map entry_name (map snd m) = map fst m"
proof -
  assume m: "listing m"
  then have "distinct (map fst m)" by (auto simp: listing_def omap_def strict_sorted_iff)
  then have "\<And>k e. (k, e) \<in> set m \<Longrightarrow> map_of m k = Some e" by simp
  with m show ?thesis by (auto simp: listing_def)
qed

lemma fold_system_entries:
  "listing m \<Longrightarrow> listing (fold (add_system_entry pre) fs m) \<and>
    dom (map_of (fold (add_system_entry pre) fs m)) =
      dom (map_of m) \<union> {n. \<exists>f\<in>set fs. child_name pre f = Some n}"
proof (induction fs arbitrary: m)
  case (Cons f fs)
  let ?m = "add_system_entry pre f m"
  have "listing ?m" using Cons.prems
    by (auto simp: add_system_entry_child listing_def map_of_or_insert split: option.splits if_splits)
  moreover have "dom (map_of ?m) = dom (map_of m) \<union> {n. child_name pre f = Some n}"
    by (auto simp: add_system_entry_child map_of_or_insert split: option.splits if_splits)
  ultimately show ?case using Cons.IH [of ?m] by auto
qed simp

text \<open>Listing a directory of the system table gives each of its children exactly once, in
  increasing order of their names: a name is listed exactly when some embedded file is that
  child or lies below it.\<close>

theorem list_system_children:
  assumes "list_system v path = Ok es"
  shows "sorted_wrt (<) (map entry_name es) \<and>
    (\<forall>n. n \<in> entry_name ` set es \<longleftrightarrow> n \<noteq> [] \<and> slash \<notin> set n \<and>
      (\<exists>f\<in>set (system_files v). at_or_below (with_slash path @ n) (file_path f)))"
proof -
  let ?m = "fold (add_system_entry (with_slash path)) (system_files v) []"
  have m: "listing ?m" "dom (map_of ?m) = {n. \<exists>f\<in>set (system_files v). child_name (with_slash path) f = Some n}"
    using fold_system_entries [of "[]" "with_slash path" "system_files v"]
    by (simp_all add: listing_def)
  have es: "es = map snd ?m" using assms by (simp add: list_system_def split: if_splits)
  then have names: "map entry_name es = map fst ?m" using listing_names [OF m(1)] by simp
  then have "entry_name ` set es = dom (map_of ?m)"
    by (metis dom_map_of_conv_image_fst list.set_map)
  then show ?thesis using m names by (auto simp: listing_def omap_def child_name_Some)
qed

theorem list_system_children_witness:
  "list_system \<lparr>vfs_platform = (), system_files = [embedded_text ''/sys/b.txt'' ''x'',
       embedded_text ''/sys/apps/ls.rhai'' ''y'', embedded_text ''/sys/apps/cat.rhai'' ''z'']\<rparr> ''/sys''
     = Ok [\<lparr>entry_name = ''apps'', entry_is_dir = True, entry_len = 0\<rparr>,
           \<lparr>entry_name = ''b.txt'', entry_is_dir = False, entry_len = 1\<rparr>]
   \<and> sorted_wrt (<) [''apps'', ''b.txt'']"
proof -
  let ?v = "\<lparr>vfs_platform = (), system_files = [embedded_text ''/sys/b.txt'' ''x'',
       embedded_text ''/sys/apps/ls.rhai'' ''y'', embedded_text ''/sys/apps/cat.rhai'' ''z'']\<rparr>"
  have l: "list_system ?v ''/sys'' = Ok [\<lparr>entry_name = ''apps'', entry_is_dir = True, entry_len = 0\<rparr>,
           \<lparr>entry_name = ''b.txt'', entry_is_dir = False, entry_len = 1\<rparr>]"
    by code_simp
  show ?thesis using l list_system_children [OF l] by simp
qed

end
