(* ===== verification/Security.thy ===== *)
theory Security
  imports Vfs
begin

unbundle bit_operations_syntax

text \<open>
  \<^verbatim>\<open>crates/afos-core/src/security.rs\<close>: the master password. The verifier file
  \<^verbatim>\<open>/user/config/security\<close> holds a random salt and the Argon2id hash of the password, both in
  hexadecimal; failed attempts are counted and, from the third on, delay the next one. The
  \<^verbatim>\<open>argon2\<close> crate is a parameter: given the cost parameters it fails or yields the hash function.
  Both operations work on the manager's counters together with the virtual file system.
\<close>

section \<open>Hexadecimal\<close>

definition HEX :: string where "HEX = ''0123456789abcdef''"

definition encode_hex :: "bytes \<Rightarrow> string" where
  "encode_hex bs = concat (map (\<lambda>byte. [HEX ! unat (drop_bit 4 byte), HEX ! unat (byte AND 0x0f)]) bs)"

definition hex_nibble :: "u8 \<Rightarrow> u8 res" where
  "hex_nibble value =
     (if 48 \<le> value \<and> value \<le> 57 then Ok (value - 48)
      else if 97 \<le> value \<and> value \<le> 102 then Ok (value - 97 + 10)
      else if 65 \<le> value \<and> value \<le> 70 then Ok (value - 65 + 10)
      else Err (InvalidInput ''invalid hexadecimal value''))"

fun decode_pairs :: "string \<Rightarrow> bytes res" where
  "decode_pairs (high # low # rest) =
     and_then (hex_nibble (byte_of high)) (\<lambda>h.
     and_then (hex_nibble (byte_of low)) (\<lambda>l.
     and_then (decode_pairs rest) (\<lambda>bs. Ok ((push_bit 4 h OR l) # bs))))"
| "decode_pairs _ = Ok []"

definition decode_hex :: "nat \<Rightarrow> string \<Rightarrow> bytes res" where
  "decode_hex n value =
     (if length value \<noteq> n * 2 then Err (InvalidInput ''invalid hexadecimal length'')
      else decode_pairs value)"

section \<open>The security manager\<close>

abbreviation SECURITY_PATH :: string where "SECURITY_PATH \<equiv> ''/user/config/security''"
abbreviation SALT_LEN :: nat where "SALT_LEN \<equiv> 16"
abbreviation HASH_LEN :: nat where "HASH_LEN \<equiv> 32"

record security_manager =
  failed_attempts :: u32
  blocked_until :: u64

definition security_new :: security_manager where
  "security_new = \<lparr>failed_attempts = 0, blocked_until = 0\<rparr>"

type_synonym argon2 = "u32 \<Rightarrow> u32 \<Rightarrow> u32 \<Rightarrow> nat \<Rightarrow> string + (bytes \<Rightarrow> bytes \<Rightarrow> string + bytes)"

definition derive :: "argon2 \<Rightarrow> bytes \<Rightarrow> bytes \<Rightarrow> bytes res" where
  "derive A password salt =
     and_then (map_err (\<lambda>e. Runtime (''Argon2 parameters: '' @ e)) (A (19 * 1024) 2 1 HASH_LEN))
       (\<lambda>hash_password. map_err (\<lambda>e. Runtime (''Argon2: '' @ e)) (hash_password password salt))"

text \<open>A call on the virtual file system inside a call on the manager and the file system.\<close>

type_synonym 'p guard = "security_manager \<times> 'p vfs"

definition on_vfs :: "'p guard \<Rightarrow> ('r \<times> 'p vfs) option \<Rightarrow> ('r \<times> 'p guard) option" where
  "on_vfs g m = on_field m (\<lambda>v. (fst g, v))"

definition has_password :: "'p platform \<Rightarrow> 'p guard \<Rightarrow> ('p guard, bool) outcome" where
  "has_password P g = on_vfs g (vfs_exists P (snd g) SECURITY_PATH)"

definition encode_verifier :: "bytes \<Rightarrow> bytes \<Rightarrow> string" where
  "encode_verifier salt hash = ''AFOS-AUTH-1'' @ [CHR 0x0A] @ encode_hex salt @ [CHR 0x0A] @ encode_hex hash @ [CHR 0x0A]"

definition set_password :: "argon2 \<Rightarrow> 'p platform \<Rightarrow> 'p guard \<Rightarrow> string \<Rightarrow> ('p guard, unit) outcome" where
  "set_password A P g password =
     (if password = [] then
        bind (on_vfs g (vfs_exists P (snd g) SECURITY_PATH)) (\<lambda>present g.
        bind (if present then on_vfs g (vfs_remove P (snd g) SECURITY_PATH) else Some (Ok (), g)) (\<lambda>_ g.
        Some (Ok (), (security_new, snd g))))
      else
        bind (on_vfs g (on_platform (snd g) (fill_random P (vfs_platform (snd g)) SALT_LEN))) (\<lambda>salt g.
        attempt (derive A (as_bytes password) salt) g (\<lambda>hash.
        bind (on_vfs g (vfs_write P (snd g) SECURITY_PATH (as_bytes (encode_verifier salt hash)))) (\<lambda>_ g.
        Some (Ok (), (security_new, snd g))))))"

text \<open>What a wrong password does to the counters.\<close>

definition note_failure :: "u64 \<Rightarrow> security_manager \<Rightarrow> security_manager" where
  "note_failure now sm = (let failed = saturating_add (failed_attempts sm) 1 in
     if failed \<ge> 3
     then let exponent = min (failed - 3) 5; delay = push_bit (unat exponent) (1000 :: u64)
       in \<lparr>failed_attempts = failed, blocked_until = saturating_add now delay\<rparr>
     else sm\<lparr>failed_attempts := failed\<rparr>)"

text \<open>The parsed verifier: salt and expected hash.\<close>

definition parse_verifier :: "string \<Rightarrow> (bytes \<times> bytes) res" where
  "parse_verifier encoded = (let ls = lines encoded in
     if ls = [] \<or> hd ls \<noteq> ''AFOS-AUTH-1'' then Err (InvalidInput ''invalid security configuration'')
     else and_then (case drop 1 ls of [] \<Rightarrow> Err (InvalidInput ''missing password salt'')
            | l # _ \<Rightarrow> decode_hex SALT_LEN l) (\<lambda>salt.
          and_then (case drop 2 ls of [] \<Rightarrow> Err (InvalidInput ''missing password verifier'')
            | l # _ \<Rightarrow> decode_hex HASH_LEN l) (\<lambda>expected. Ok (salt, expected))))"

definition verify :: "argon2 \<Rightarrow> 'p platform \<Rightarrow> 'p guard \<Rightarrow> string \<Rightarrow> ('p guard, unit) outcome" where
  "verify A P g password = (case g of (sm, v) \<Rightarrow>
     case monotonic_millis P (vfs_platform v) of (now, p) \<Rightarrow>
     let g = (sm, v\<lparr>vfs_platform := p\<rparr>) in
     if now < blocked_until sm then Some (Err (RateLimited (blocked_until sm - now)), g)
     else bind (on_vfs g (vfs_read_text P (snd g) SECURITY_PATH)) (\<lambda>encoded g.
       attempt (parse_verifier encoded) g (\<lambda>(salt, expected).
       attempt (derive A (as_bytes password) salt) g (\<lambda>actual.
       if actual = expected then Some (Ok (), (security_new, snd g))
       else Some (Err AuthenticationFailed, (note_failure now (fst g), snd g))))))"

section \<open>Hexadecimal round trip\<close>

lemma hex_digit:
  "n < 16 \<Longrightarrow> hex_nibble (byte_of (HEX ! n)) = Ok (word_of_nat n)"
proof -
  assume "n < 16"
  then have "n \<in> set [0..<16]" by simp
  then show ?thesis
    by (simp add: upt_conv_Cons HEX_def byte_of_def code_def hex_nibble_def) (elim disjE; simp)
qed

lemma low_nibble: "(b :: u8) AND 0x0f = take_bit 4 b"
  by (simp add: take_bit_eq_mask mask_eq_exp_minus_1)

lemma nibbles: "push_bit 4 (drop_bit 4 b) OR (b AND 0x0f) = (b :: u8)"
  unfolding low_nibble by (rule bit_word_eqI) (auto simp: bit_simps)

lemma unat_high: "unat (drop_bit 4 (b :: u8)) < 16"
proof -
  have "unat (drop_bit 4 b) = unat b div 16"
    by (subst unat_drop_bit_eq) (simp add: drop_bit_eq_div)
  then show ?thesis using unsigned_less [of b, where ?'a = nat] by simp
qed

lemma unat_low: "unat ((b :: u8) AND 0x0f) < 16"
  unfolding low_nibble using take_bit_nat_less_exp [of 4 "unat b"] by (simp add: unsigned_take_bit_eq)

lemma decode_pairs_encode: "decode_pairs (encode_hex bs) = Ok bs"
  by (induction bs) (simp_all add: encode_hex_def hex_digit unat_high unat_low nibbles)

lemma length_encode_hex [simp]: "length (encode_hex bs) = length bs * 2"
  by (induction bs) (simp_all add: encode_hex_def)

lemma decode_encode_hex [simp]: "length bs = n \<Longrightarrow> decode_hex n (encode_hex bs) = Ok bs"
  by (simp add: decode_hex_def decode_pairs_encode)

lemma encode_hex_digits: "c \<in> set (encode_hex bs) \<Longrightarrow> c \<in> set HEX"
proof -
  have "HEX ! n \<in> set HEX" if "n < 16" for n
    using that by (intro nth_mem) (simp add: HEX_def)
  then show "c \<in> set (encode_hex bs) \<Longrightarrow> c \<in> set HEX"
    by (auto simp: encode_hex_def unat_high unat_low)
qed

section \<open>The verifier file\<close>

lemma verifier_lines:
  "lines (encode_verifier salt hash) = [''AFOS-AUTH-1'', encode_hex salt, encode_hex hash]"
proof -
  have ascii: "newline \<notin> set (encode_hex bs)" "carriage_return \<notin> set (encode_hex bs)" for bs
    using encode_hex_digits by (fastforce simp: HEX_def)+
  have "encode_verifier salt hash
      = concat (map (\<lambda>l. l @ [newline]) [''AFOS-AUTH-1'', encode_hex salt, encode_hex hash])"
    by (simp add: encode_verifier_def)
  moreover have "lines \<dots> = [''AFOS-AUTH-1'', encode_hex salt, encode_hex hash]"
    by (rule lines_terminated) (simp add: ascii)
  ultimately show ?thesis by simp
qed

lemma parse_encode_verifier:
  "length salt = SALT_LEN \<Longrightarrow> length hash = HASH_LEN \<Longrightarrow>
    parse_verifier (encode_verifier salt hash) = Ok (salt, hash)"
  by (simp add: parse_verifier_def verifier_lines)

lemma verifier_utf8: "valid_utf8 (encode_verifier salt hash)"
proof (rule valid_utf8_ascii)
  have "list_all (\<lambda>c. code c < 0x80) (encode_hex bs)" for bs
    using encode_hex_digits by (fastforce simp: HEX_def list_all_iff code_def)
  then show "list_all (\<lambda>c. code c < 0x80) (encode_verifier salt hash)"
    by (simp add: encode_verifier_def code_def)
qed

section \<open>Failed attempts\<close>

lemma push_1000: "k \<le> 5 \<Longrightarrow> unat (push_bit k 1000 :: u64) = 1000 * 2 ^ k"
proof -
  assume "k \<le> 5"
  then have "k \<in> {0, 1, 2, 3, 4, 5}" by auto
  then show ?thesis by (elim insertE) (simp_all add: push_bit_eq_mult)
qed

lemma note_failure_attempts:
  "unat (failed_attempts (note_failure now sm)) = min (unat (failed_attempts sm) + 1) (2 ^ 32 - 1)"
  using unat_saturating_add [of "failed_attempts sm" 1] by (simp add: note_failure_def Let_def)

lemma note_failure_blocks:
  assumes "unat (failed_attempts sm) + 1 = n" "n < 2 ^ 32" "3 \<le> n"
  shows "unat (blocked_until (note_failure now sm))
    = min (unat now + 1000 * 2 ^ min (n - 3) 5) (2 ^ 64 - 1)"
proof -
  let ?f = "saturating_add (failed_attempts sm) 1"
  have f: "unat ?f = n" using assms unat_saturating_add [of "failed_attempts sm" 1] by simp
  then have ge: "3 \<le> ?f" using assms by (simp add: word_le_nat_alt)
  then have "unat (?f - 3) = n - 3" using f by (simp add: unat_sub)
  then have "unat (min (?f - 3) 5) = min (n - 3) 5"
    by (simp add: min_def word_le_nat_alt)
  then have "unat (push_bit (unat (min (?f - 3) 5)) 1000 :: u64) = 1000 * 2 ^ min (n - 3) 5"
    by (simp add: push_1000)
  then show ?thesis using ge by (simp add: note_failure_def Let_def unat_saturating_add)
qed

text \<open>A sequence of attempts, with the time each one reads from the clock, and the times at which
  a password was really compared and found wrong.\<close>

fun guesses ::
  "argon2 \<Rightarrow> 'p platform \<Rightarrow> 'p guard \<Rightarrow> string list \<Rightarrow> ((u64 \<times> unit res) list \<times> 'p guard) option" where
  "guesses A P g [] = Some ([], g)"
| "guesses A P g (password # rest) = (case verify A P g password of None \<Rightarrow> None
     | Some (r, g') \<Rightarrow> map_option
         (\<lambda>(log, g''). ((fst (monotonic_millis P (vfs_platform (snd g))), r) # log, g''))
         (guesses A P g' rest))"

definition wrong_times :: "(u64 \<times> unit res) list \<Rightarrow> u64 list" where
  "wrong_times log = map fst (filter (\<lambda>entry. snd entry = Err AuthenticationFailed) log)"

lemma bind_on_vfs_SomeE:
  assumes "bind (on_vfs g m) k = Some (r, g')"
  obtains (err) e v where "m = Some (Err e, v)" "r = Err e" "g' = (fst g, v)"
    | (val) x v where "m = Some (Ok x, v)" "k x (fst g, v) = Some (r, g')"
  using assms by (auto simp: on_vfs_def)

text \<open>What the claim about attempts assumes of the backend: a storage error is not an
  authentication failure.\<close>

definition plain_reads :: "'p platform \<Rightarrow> bool" where
  "plain_reads P \<longleftrightarrow> (\<forall>p path p'. storage_read P p path \<noteq> Some (Err AuthenticationFailed, p'))"

lemma security_path_facts [simp]:
  "normalize_path ''/'' SECURITY_PATH = Ok SECURITY_PATH"
  "persistent_path SECURITY_PATH = Ok ''user/config/security''"
  "\<not> is_path_prefix ''/sys'' SECURITY_PATH"
  by (simp_all add: normalize_path_def persistent_path_def is_path_prefix_def strip_prefix_def)

lemma read_verifier_plain:
  "plain_reads P \<Longrightarrow> vfs_read_text P v SECURITY_PATH \<noteq> Some (Err AuthenticationFailed, v')"
  by (auto simp: plain_reads_def vfs_read_text_def vfs_read_def on_platform_def ok_or_def
      split: option.splits)

lemma decode_pairs_error: "decode_pairs s \<noteq> Err AuthenticationFailed"
  by (induction s rule: decode_pairs.induct) (auto simp: and_then_def hex_nibble_def split: sum.splits)

lemma parse_verifier_error: "parse_verifier s \<noteq> Err AuthenticationFailed"
  by (auto simp: parse_verifier_def Let_def and_then_def decode_hex_def decode_pairs_error
      split: sum.splits list.splits if_splits)

lemma derive_error: "derive A pw salt \<noteq> Err AuthenticationFailed"
  by (auto simp: derive_def and_then_def map_err_def split: sum.splits)

text \<open>The ways an attempt ends: it is not made, it fails for another reason, or it is made.\<close>

lemma verify_cases:
  assumes "verify A P g password = Some (r, g')" "plain_reads P"
    and now: "now = fst (monotonic_millis P (vfs_platform (snd g)))"
  obtains (failed) e where "r = Err e" "e \<noteq> AuthenticationFailed" "fst g' = fst g"
    | (right) "r = Ok ()" "fst g' = security_new"
    | (wrong) "blocked_until (fst g) \<le> now" "r = Err AuthenticationFailed"
        "fst g' = note_failure now (fst g)"
proof (cases "now < blocked_until (fst g)")
  case True
  with assms show ?thesis
    by (intro failed [of "RateLimited (blocked_until (fst g) - now)"])
      (auto simp: verify_def split: prod.splits)
next
  case False
  obtain p where p: "monotonic_millis P (vfs_platform (snd g)) = (now, p)"
    using now by (cases "monotonic_millis P (vfs_platform (snd g))") auto
  let ?v = "snd g\<lparr>vfs_platform := p\<rparr>"
  have "bind (on_vfs (fst g, ?v) (vfs_read_text P ?v SECURITY_PATH)) (\<lambda>encoded g.
       attempt (parse_verifier encoded) g (\<lambda>(salt, expected).
       attempt (derive A (as_bytes password) salt) g (\<lambda>actual.
       if actual = expected then Some (Ok (), (security_new, snd g))
       else Some (Err AuthenticationFailed, (note_failure now (fst g), snd g))))) = Some (r, g')"
    using assms(1) False p by (simp add: verify_def split: prod.splits)
  then show ?thesis
  proof (cases rule: bind_on_vfs_SomeE)
    case (err e v)
    then show ?thesis using failed read_verifier_plain [OF assms(2)] by auto
  next
    case (val encoded v)
    then show ?thesis using failed right wrong False parse_verifier_error derive_error
      by (auto split: if_splits) (metis | force)+
  qed
qed

definition lockout :: "nat \<Rightarrow> nat" where
  "lockout n = 1000 * 2 ^ min (n - 3) 5"

lemma guesses_Cons_SomeE:
  assumes "guesses A P g (password # rest) = Some (log, g')"
  obtains r h log' where "verify A P g password = Some (r, h)" "guesses A P h rest = Some (log', g')"
    "log = (fst (monotonic_millis P (vfs_platform (snd g))), r) # log'"
  using assms by (auto split: option.splits)

lemma guesses_gaps:
  assumes "guesses A P g passwords = Some (log, g')" "plain_reads P"
    and "\<And>entry. entry \<in> set log \<Longrightarrow> snd entry \<noteq> Ok ()"
    and "unat (failed_attempts (fst g)) + length (wrong_times log) < 2 ^ 32"
  shows "(wrong_times log \<noteq> [] \<longrightarrow> blocked_until (fst g) \<le> hd (wrong_times log)) \<and>
    (\<forall>i. i + 1 < length (wrong_times log) \<longrightarrow> 3 \<le> unat (failed_attempts (fst g)) + i + 1 \<longrightarrow>
      min (unat (wrong_times log ! i) + lockout (unat (failed_attempts (fst g)) + i + 1)) (2 ^ 64 - 1)
        \<le> unat (wrong_times log ! (i + 1)))"
  using assms(1,3,4)
proof (induction passwords arbitrary: g log)
  case Nil
  then show ?case by (simp add: wrong_times_def)
next
  case (Cons password rest)
  obtain r h log' where run: "verify A P g password = Some (r, h)" "guesses A P h rest = Some (log', g')"
    "log = (fst (monotonic_millis P (vfs_platform (snd g))), r) # log'"
    using Cons.prems(1) by (rule guesses_Cons_SomeE)
  define now where "now = fst (monotonic_millis P (vfs_platform (snd g)))"
  note IH = Cons.IH [OF run(2)]
  from run(1) assms(2) now_def show ?case
  proof (cases rule: verify_cases)
    case (failed e)
    then have "wrong_times log = wrong_times log'" using run(3) by (simp add: wrong_times_def)
    then show ?thesis using IH failed(3) Cons.prems(2,3) run(3) by simp
  next
    case right
    then show ?thesis using Cons.prems(2) [of "hd log"] run(3) by simp
  next
    case wrong
    let ?f = "unat (failed_attempts (fst g))" and ?ts = "wrong_times log'"
    have ts: "wrong_times log = now # ?ts" using run(3) wrong(2) by (simp add: wrong_times_def now_def)
    then have small: "?f + 1 + length ?ts < 2 ^ 32" using Cons.prems(3) by simp
    then have f: "unat (failed_attempts (fst h)) = ?f + 1" using wrong(3) by (simp add: note_failure_attempts)
    then have IH': "?ts \<noteq> [] \<Longrightarrow> blocked_until (fst h) \<le> hd ?ts"
      "\<And>i. i + 1 < length ?ts \<Longrightarrow> 3 \<le> ?f + 1 + i + 1 \<Longrightarrow>
        min (unat (?ts ! i) + lockout (?f + 1 + i + 1)) (2 ^ 64 - 1) \<le> unat (?ts ! (i + 1))"
      using IH Cons.prems(2) run(3) small by simp_all
    have first: "min (unat now + lockout (?f + 1)) (2 ^ 64 - 1) \<le> unat (?ts ! 0)"
      if "?ts \<noteq> []" "3 \<le> ?f + 1"
      using IH'(1) [OF that(1)] note_failure_blocks [of "fst g" "?f + 1" now] that wrong(3) small
      by (simp add: word_le_nat_alt lockout_def hd_conv_nth)
    have "min (unat ((now # ?ts) ! i) + lockout (?f + i + 1)) (2 ^ 64 - 1) \<le> unat ((now # ?ts) ! (i + 1))"
      if "i + 1 < length (now # ?ts)" "3 \<le> ?f + i + 1" for i
      using that first IH'(2) [of "i - 1"] by (cases i) (auto simp: add.commute)
    then show ?thesis using ts wrong(1) by simp
  qed
qed

section \<open>Setting and verifying\<close>

definition guard_good :: "('p \<Rightarrow> bool) \<Rightarrow> embedded_file list \<Rightarrow> 'p guard \<Rightarrow> bool" where
  "guard_good good table g \<longleftrightarrow> vfs_good good table (snd g)"

definition guard_view :: "('p \<Rightarrow> string \<Rightarrow> bytes option) \<Rightarrow> 'p guard \<Rightarrow> string \<Rightarrow> bytes option" where
  "guard_view files g = vfs_view files (snd g)"

text \<open>The fixed sizes that Rust's array types give: the salt has the length that was asked for,
  and the hash \<^verbatim>\<open>HASH_LEN\<close> bytes.\<close>

definition random_sized :: "'p platform \<Rightarrow> bool" where
  "random_sized P \<longleftrightarrow> (\<forall>p n bs p'. fill_random P p n = Some (Ok bs, p') \<longrightarrow> length bs = n)"

definition hash_sized :: "argon2 \<Rightarrow> bool" where
  "hash_sized A \<longleftrightarrow> (\<forall>password salt hash. derive A password salt = Ok hash \<longrightarrow> length hash = HASH_LEN)"

lemma confined_on_vfs:
  "guard_good good table g \<Longrightarrow> confined (vfs_good good table) (vfs_view files) S (snd g) m \<Longrightarrow>
    confined (guard_good good table) (guard_view files) S g (on_vfs g m)"
  unfolding on_vfs_def
  by (erule confined_on_field) (auto simp: guard_good_def guard_view_def)

lemma guard_pair [simp]:
  "guard_good good table (sm, v) = vfs_good good table v" "guard_view files (sm, v) = vfs_view files v"
  by (simp_all add: guard_good_def guard_view_def)

lemma confined_counters:
  "vfs_good good table v \<Longrightarrow>
    confined (guard_good good table) (guard_view files) S (sm, v) (Some (r, (sm', v)))"
  by (simp add: confined_def)

context storage_platform
begin

lemma guard_good_vfs: "guard_good good table g \<Longrightarrow> vfs_good good table (snd g)"
  by (simp add: guard_good_def)

lemma security_write_confined:
  "vfs_good good table v \<Longrightarrow>
    confined (vfs_good good table) (vfs_view files) {''user/config/security''} v (vfs_write P v SECURITY_PATH d)"
  unfolding vfs_write_def
  by (auto intro!: confined_on_platform storage_write_confined vfs_good_platform simp: storage_path_def)

lemma security_remove_confined:
  "vfs_good good table v \<Longrightarrow>
    confined (vfs_good good table) (vfs_view files) (region SECURITY_PATH) v (vfs_remove P v SECURITY_PATH)"
  by (erule vfs_remove_confined) simp

lemma has_password_keeps:
  "guard_good good table g \<Longrightarrow>
    confined (guard_good good table) (guard_view files) S g (has_password P g)"
  unfolding has_password_def by (auto intro!: confined_on_vfs vfs_exists_keeps guard_good_vfs)

lemma verify_keeps:
  assumes "guard_good good table g"
  shows "confined (guard_good good table) (guard_view files) S g (verify A P g password)"
proof -
  obtain now p where p: "monotonic_millis P (vfs_platform (snd g)) = (now, p)" by (meson surj_pair)
  let ?g = "(fst g, snd g\<lparr>vfs_platform := p\<rparr>)"
  have "good p" "files p = files (vfs_platform (snd g))"
    using keepsD [OF monotonic_millis_keeps [of "vfs_platform (snd g)"]] p assms
    by (auto simp: guard_good_def vfs_good_def)
  then have g: "guard_good good table ?g" "guard_view files ?g = guard_view files g"
    using assms by (auto simp: guard_good_def vfs_good_def guard_view_def vfs_view_def)
  have "confined (guard_good good table) (guard_view files) S ?g (verify A P g password)"
    using g(1) p unfolding verify_def Let_def
    by (auto split: prod.splits intro!: confined_return confined_bind confined_on_vfs vfs_read_text_keeps
        confined_attempt confined_counters guard_good_vfs)
  then show ?thesis using g(2) by (simp add: confined_def)
qed

lemma set_password_confined:
  assumes "guard_good good table g"
  shows "confined (guard_good good table) (guard_view files) (region SECURITY_PATH) g
    (set_password A P g password)"
proof -
  have "{''user/config/security''} \<subseteq> region SECURITY_PATH" by simp
  note stores = confined_mono [OF security_write_confined this]
  show ?thesis using assms unfolding set_password_def
    by (auto intro!: confined_return confined_bind confined_on_vfs confined_attempt confined_counters
      vfs_exists_keeps guard_good_vfs stores security_remove_confined on_platform_keeps fill_random_keeps vfs_good_platform)
qed

end

text \<open>The file that a successful \<^verbatim>\<open>set_password\<close> leaves, and the answer of \<^verbatim>\<open>verify\<close> to it.\<close>

definition holds_verifier ::
  "('p \<Rightarrow> string \<Rightarrow> bytes option) \<Rightarrow> 'p guard \<Rightarrow> bytes \<Rightarrow> bytes \<Rightarrow> bool" where
  "holds_verifier files g salt hash \<longleftrightarrow> length salt = SALT_LEN \<and> length hash = HASH_LEN
     \<and> guard_view files g ''user/config/security'' = Some (as_bytes (encode_verifier salt hash))"

context storage_platform
begin

lemma security_write_effect:
  assumes "vfs_good good table v" "vfs_write P v SECURITY_PATH d = Some (Ok u, v')"
  shows "vfs_good good table v' \<and> vfs_view files v' = (vfs_view files v)(''user/config/security'' \<mapsto> d)"
  using assms storage_write_ok [of "vfs_platform v" "''user/config/security''" d u]
  by (auto simp: vfs_write_def on_platform_def vfs_good_def vfs_view_def storage_path_def)

lemma security_read_complete:
  assumes "vfs_good good table v" "vfs_view files v ''user/config/security'' = Some (as_bytes s)" "valid_utf8 s"
  obtains v' where "vfs_read_text P v SECURITY_PATH = Some (Ok s, v')"
  using assms storage_read_complete [of "vfs_platform v" "''user/config/security''" "as_bytes s"]
  by (auto simp: vfs_read_text_def vfs_read_def on_platform_def vfs_good_def vfs_view_def storage_path_def)

lemma set_password_effect:
  assumes "guard_good good table g" "random_sized P" "hash_sized A" "password \<noteq> []"
    and "set_password A P g password = Some (Ok (), g')"
  obtains salt hash where "guard_good good table g'" "holds_verifier files g' salt hash" "fst g' = security_new"
    "derive A (as_bytes password) salt = Ok hash"
proof -
  obtain sm v where g: "g = (sm, v)" by force
  from assms(4,5) g obtain salt hash v1 v2
    where salt: "on_platform v (fill_random P (vfs_platform v) SALT_LEN) = Some (Ok salt, v1)"
      and hash: "derive A (as_bytes password) salt = Ok hash"
      and stored: "vfs_write P v1 SECURITY_PATH (as_bytes (encode_verifier salt hash)) = Some (Ok (), v2)"
      and g': "g' = (security_new, v2)"
    by (auto simp: set_password_def on_vfs_def)
  have "length salt = SALT_LEN" using salt assms(2) by (auto simp: on_platform_def random_sized_def)
  moreover have "length hash = HASH_LEN" using hash assms(3) by (simp add: hash_sized_def)
  moreover have "vfs_good good table v1"
    using confinedD(1) [OF on_platform_keeps salt] fill_random_keeps vfs_good_platform assms(1) g by simp
  from security_write_effect [OF this stored]
  have "vfs_good good table v2"
    "vfs_view files v2 ''user/config/security'' = Some (as_bytes (encode_verifier salt hash))" by simp_all
  ultimately show ?thesis using that [of salt hash] g' hash by (simp add: holds_verifier_def)
qed

lemma verify_answer:
  assumes "guard_good good table g" "holds_verifier files g salt hash" "blocked_until (fst g) = 0"
    and "derive A (as_bytes password) salt = Ok h"
  obtains g' now where "verify A P g password = Some (if h = hash then Ok () else Err AuthenticationFailed, g')"
    "fst g' = (if h = hash then security_new else note_failure now (fst g))"
proof -
  obtain sm v where g: "g = (sm, v)" by force
  obtain now p where p: "monotonic_millis P (vfs_platform v) = (now, p)" by (meson surj_pair)
  let ?v = "v\<lparr>vfs_platform := p\<rparr>"
  have "good p \<and> files p = files (vfs_platform v)"
    using keepsD [OF monotonic_millis_keeps [of "vfs_platform v"]] p assms(1) g
    by (auto simp: vfs_good_def)
  then have "vfs_good good table ?v" "vfs_view files ?v = vfs_view files v"
    using assms(1) g by (auto simp: vfs_good_def vfs_view_def)
  then obtain v' where v': "vfs_read_text P ?v SECURITY_PATH = Some (Ok (encode_verifier salt hash), v')"
    using security_read_complete [of table ?v "encode_verifier salt hash"] assms(2) g verifier_utf8
    by (auto simp: holds_verifier_def)
  have "verify A P g password = (if h = hash then Some (Ok (), (security_new, v'))
      else Some (Err AuthenticationFailed, (note_failure now sm, v')))"
    using assms(2-4) v' by (simp add: verify_def g p on_vfs_def holds_verifier_def parse_encode_verifier)
  then show ?thesis using that [of "(if h = hash then security_new else note_failure now sm, v')" now] g by simp
qed

end

end
