(* ===== verification/App.thy ===== *)
theory App
  imports Vfs
begin

text \<open>
  \<^verbatim>\<open>crates/afos-core/src/app.rs\<close>: application metadata, read from the comment lines at the
  top of a script, and the registry of runtimes, keyed by file extension.
\<close>

section \<open>Metadata\<close>

definition parse_capability :: "string \<Rightarrow> capability res" where
  "parse_capability item =
     (if item = ''clock'' then Ok Clock
      else if item = ''system.info'' then Ok SystemInfo
      else case strip_prefix ''fs.read:'' item of Some path \<Rightarrow> Ok (FsRead path) | None \<Rightarrow>
        case strip_prefix ''fs.write:'' item of Some path \<Rightarrow> Ok (FsWrite path) | None \<Rightarrow>
        case strip_prefix ''net:'' item of
          Some host \<Rightarrow> if host = [] then Err (InvalidInput ''network capability requires a host pattern'')
            else Ok (Network host)
        | None \<Rightarrow> Err (InvalidInput (''unknown capability: '' @ item)))"

fun parse_capabilities :: "capability list \<Rightarrow> string list \<Rightarrow> capability list res" where
  "parse_capabilities declared [] = Ok declared"
| "parse_capabilities declared (item # items) =
     and_then (parse_capability item) (\<lambda>c. parse_capabilities (declared @ [c]) items)"

definition valid_id :: "string \<Rightarrow> bool" where
  "valid_id candidate \<longleftrightarrow> candidate \<noteq> [] \<and>
     list_all (\<lambda>c. is_ascii_alphanumeric c \<or> c \<in> {CHR ''.'', CHR ''-'', CHR ''_''}) candidate"

record app_metadata =
  metadata_identity :: app_identity

text \<open>One directive \<^verbatim>\<open>key=value\<close>, on the identity read so far.\<close>

definition apply_directive :: "string \<Rightarrow> string \<Rightarrow> app_identity \<Rightarrow> app_identity res" where
  "apply_directive key value identity =
     (if trim key = ''api'' then
        and_then (ok_or (parse_unsigned 65535 (trim value)) (InvalidInput ''invalid API version'')) (\<lambda>version.
        if version \<noteq> 1 then Err (Unsupported (''application API version '' @ show_nat version))
        else Ok (identity\<lparr>api_version := version\<rparr>))
      else if trim key = ''id'' then
        if \<not> valid_id (trim value) then Err (InvalidInput ''invalid application ID'')
        else Ok (identity\<lparr>app_id := trim value\<rparr>)
      else if trim key = ''capabilities'' then
        and_then (parse_capabilities (capabilities identity)
            (filter (\<lambda>item. item \<noteq> []) (map trim (split_on CHR '','' value))))
          (\<lambda>cs. Ok (identity\<lparr>capabilities := cs\<rparr>))
      else Err (InvalidInput (''unknown AFOS directive: '' @ trim key)))"

fun parse_header :: "app_identity \<Rightarrow> string list \<Rightarrow> app_identity res" where
  "parse_header identity [] = Ok identity"
| "parse_header identity (line # rest) = (let trimmed = trim line in
     if trimmed = [] then parse_header identity rest
     else case strip_prefix ''// afos:'' trimmed of
         None \<Rightarrow> if starts_with ''//'' trimmed then parse_header identity rest else Ok identity
       | Some directive \<Rightarrow> (case split_once CHR ''='' directive of
           None \<Rightarrow> Err (InvalidInput ''AFOS directive must use key=value'')
         | Some (key, value) \<Rightarrow>
             and_then (apply_directive key value identity) (\<lambda>identity. parse_header identity rest)))"

definition file_stem :: "string \<Rightarrow> string" where
  "file_stem path = (let name = last (split_on slash path) in
     case rsplit_once CHR ''.'' name of None \<Rightarrow> name | Some (stem, _) \<Rightarrow> stem)"

definition parse_metadata :: "string \<Rightarrow> string \<Rightarrow> bool \<Rightarrow> app_metadata res" where
  "parse_metadata path source is_trusted =
     (if file_stem path = [] then Err (InvalidInput ''application has no file name'')
      else and_then (parse_header \<lparr>app_id = file_stem path, source_path = path, trusted = is_trusted,
          api_version = 1, capabilities = []\<rparr> (lines source))
        (\<lambda>identity. Ok \<lparr>metadata_identity = identity\<rparr>))"

section \<open>Runtimes\<close>

record 'a runtime_registry =
  runtimes :: "'a app_runtime list"

definition registry_new :: "'a runtime_registry" where
  "registry_new = \<lparr>runtimes = []\<rparr>"

definition register :: "'a app_runtime \<Rightarrow> 'a runtime_registry \<Rightarrow> unit res \<times> 'a runtime_registry" where
  "register runtime registry =
     (if list_ex (\<lambda>registered. runtime_extension registered = runtime_extension runtime) (runtimes registry)
      then (Err (AlreadyExists (runtime_extension runtime)), registry)
      else (Ok (), registry\<lparr>runtimes := runtimes registry @ [runtime]\<rparr>))"

definition registry_execute ::
  "'a runtime_registry \<Rightarrow> string \<Rightarrow> string \<Rightarrow> 'a system_api \<Rightarrow> 'a \<Rightarrow> ('a, int) outcome" where
  "registry_execute registry path source api a =
     attempt (ok_or (map_option snd (rsplit_once CHR ''.'' path)) (Unsupported ''application has no extension'')) a
       (\<lambda>extension.
     attempt (ok_or (find (\<lambda>runtime. runtime_extension runtime = extension) (runtimes registry))
         (Unsupported (''*.'' @ extension @ '' applications''))) a
       (\<lambda>runtime. runtime_execute runtime source api a))"

definition supports :: "'a runtime_registry \<Rightarrow> string \<Rightarrow> bool" where
  "supports registry path = (case rsplit_once CHR ''.'' path of None \<Rightarrow> False
     | Some (_, extension) \<Rightarrow>
         list_ex (\<lambda>runtime. runtime_extension runtime = extension) (runtimes registry))"

section \<open>What an identity promises\<close>

text \<open>The identity of a parsed application: a non-empty identifier without a slash, the path, the
  trust and the API version that the caller and the format fix.\<close>

definition identity_of :: "string \<Rightarrow> bool \<Rightarrow> app_identity \<Rightarrow> bool" where
  "identity_of path is_trusted identity \<longleftrightarrow> app_id identity \<noteq> [] \<and> slash \<notin> set (app_id identity)
     \<and> source_path identity = path \<and> trusted identity = is_trusted \<and> api_version identity = 1"

lemma valid_id_no_slash: "valid_id i \<Longrightarrow> i \<noteq> [] \<and> slash \<notin> set i"
  by (auto simp: valid_id_def list_all_iff is_ascii_alphanumeric_def less_eq_char_def)

lemma apply_directive_identity:
  "apply_directive key value identity = Ok identity' \<Longrightarrow> identity_of path t identity \<Longrightarrow>
    identity_of path t identity'"
  by (auto simp: apply_directive_def identity_of_def and_then_Inr_iff dest: valid_id_no_slash split: if_splits)

lemma parse_header_identity:
  "parse_header identity ls = Ok identity' \<Longrightarrow> identity_of path t identity \<Longrightarrow> identity_of path t identity'"
proof (induction ls arbitrary: identity)
  case Nil
  then show ?case by simp
next
  case (Cons line rest)
  then show ?case
    by (auto simp: Let_def and_then_Inr_iff split: if_splits option.splits)
      (blast intro: apply_directive_identity)+
qed

lemma file_stem_no_slash: "slash \<notin> set (file_stem path)"
proof -
  have "slash \<notin> set (last (split_on slash path))" by (rule split_on_no_sep [where s = path]) simp
  then show ?thesis by (auto simp: file_stem_def Let_def rsplit_once_Some_iff split: option.splits)
qed

lemma parse_metadata_identity:
  "parse_metadata path source t = Ok m \<Longrightarrow> identity_of path t (metadata_identity m)"
  using file_stem_no_slash
  by (auto simp: parse_metadata_def and_then_Inr_iff identity_of_def split: if_splits
      dest!: parse_header_identity [where path = path and t = t])

section \<open>Properties\<close>

text \<open>Printing a capability and parsing it gives it back, for every capability that can be
  declared; the one that cannot, a network capability without a host pattern, is refused.\<close>

theorem parse_display_capability:
  "parse_capability (display_capability c) =
     (if c = Network [] then Err (InvalidInput ''network capability requires a host pattern'') else Ok c)"
  by (cases c) (simp_all add: parse_capability_def strip_prefix_def)

definition distinct_extensions :: "'a runtime_registry \<Rightarrow> bool" where
  "distinct_extensions registry \<longleftrightarrow> distinct (map runtime_extension (runtimes registry))"

lemma find_extension:
  "distinct (map f xs) \<Longrightarrow> x \<in> set xs \<Longrightarrow> find (\<lambda>y. f y = f x) xs = Some x"
  by (induction xs) auto

text \<open>Registering keeps the registry free of two runtimes for one extension. After a
  registration every file with that extension is supported and handed to the new runtime; a file
  without a registered extension is refused without running anything.\<close>

theorem registry_dispatch:
  assumes "distinct_extensions registry" "register runtime registry = (Ok (), registry')"
    and "CHR ''.'' \<notin> set (runtime_extension runtime)"
  shows "distinct_extensions registry'
    \<and> (let path = stem @ CHR ''.'' # runtime_extension runtime in supports registry' path
        \<and> registry_execute registry' path source api a = runtime_execute runtime source api a)
    \<and> (supports registry' other
        \<or> (\<exists>message. registry_execute registry' other source api a = Some (Err (Unsupported message), a)))"
proof (intro conjI)
  have fresh: "runtime_extension runtime \<notin> runtime_extension ` set (runtimes registry)"
    and runtimes': "runtimes registry' = runtimes registry @ [runtime]"
    using assms(2) by (auto simp: register_def list_ex_iff split: if_splits)
  then show distinct: "distinct_extensions registry'" using assms(1) by (auto simp: distinct_extensions_def)
  have "rsplit_once CHR ''.'' (stem @ CHR ''.'' # runtime_extension runtime) = Some (stem, runtime_extension runtime)"
    using assms(3) by (simp add: rsplit_once_Some_iff)
  moreover have "find (\<lambda>r. runtime_extension r = runtime_extension runtime) (runtimes registry') = Some runtime"
    using distinct runtimes' by (intro find_extension) (simp_all add: distinct_extensions_def)
  ultimately show "let path = stem @ CHR ''.'' # runtime_extension runtime in supports registry' path
        \<and> registry_execute registry' path source api a = runtime_execute runtime source api a"
    using runtimes' by (simp add: supports_def registry_execute_def)
  show "supports registry' other
      \<or> (\<exists>message. registry_execute registry' other source api a = Some (Err (Unsupported message), a))"
    by (auto simp: supports_def registry_execute_def list_ex_iff ok_or_def find_None_iff
        find_Some_iff intro: nth_mem split: option.splits)
qed

theorem registry_dispatch_witness:
  "register \<lparr>runtime_id = ''r'', runtime_extension = ''rhai'', runtime_execute = (\<lambda>_ _ a. Some (Ok 3, a))\<rparr>
      (registry_new :: nat runtime_registry)
     = (Ok (), \<lparr>runtimes = [\<lparr>runtime_id = ''r'', runtime_extension = ''rhai'', runtime_execute = (\<lambda>_ _ a. Some (Ok 3, a))\<rparr>]\<rparr>)
   \<and> (\<forall>api. registry_execute \<lparr>runtimes = [\<lparr>runtime_id = ''r'', runtime_extension = ''rhai'',
        runtime_execute = (\<lambda>_ _ (a :: nat). Some (Ok 3, a))\<rparr>]\<rparr> ''/apps/x.rhai'' ''src'' api 0 = Some (Ok 3, 0))"
proof -
  let ?r = "\<lparr>runtime_id = ''r'', runtime_extension = ''rhai'', runtime_execute = (\<lambda>_ _ (a :: nat). Some (Ok 3, a))\<rparr>"
  have r: "register ?r registry_new = (Ok (), \<lparr>runtimes = [?r]\<rparr>)"
    by (simp add: register_def registry_new_def)
  have "distinct_extensions (registry_new :: nat runtime_registry)"
    by (simp add: distinct_extensions_def registry_new_def)
  from registry_dispatch [OF this r, where stem = "''/apps/x''" and source = "''src''" and a = 0]
  have "registry_execute \<lparr>runtimes = [?r]\<rparr> ''/apps/x.rhai'' ''src'' api 0 = Some (Ok 3, 0)" for api
    by (simp add: Let_def)
  then show ?thesis using r by simp
qed

end
