(* ===== verification/System.thy ===== *)
theory System
  imports Security App
begin

text \<open>
  \<^verbatim>\<open>crates/afos-core/src/system.rs\<close>: the system (virtual file system and security manager),
  the authorisation of an application's requests, and the session through which a running
  application reaches the system. \<open>session_api\<close> is the session's \<^verbatim>\<open>SystemApi\<close>
  implementation.
\<close>

section \<open>The system\<close>

abbreviation INITIALIZED_PATH :: string where "INITIALIZED_PATH \<equiv> ''/user/config/initialized''"

record 'p system =
  system_vfs :: "'p vfs"
  system_security :: security_manager

definition system_with_vfs :: "'p vfs \<Rightarrow> 'p system" where
  "system_with_vfs v = \<lparr>system_vfs = v, system_security = security_new\<rparr>"

definition system_new :: "'p \<Rightarrow> 'p system" where
  "system_new p = system_with_vfs (vfs_new p)"

text \<open>Calls on the file system, on its platform, and on the security manager together with the
  file system.\<close>

definition sys_vfs_call :: "'p system \<Rightarrow> ('r \<times> 'p vfs) option \<Rightarrow> ('r \<times> 'p system) option" where
  "sys_vfs_call s m = on_field m (\<lambda>v. s\<lparr>system_vfs := v\<rparr>)"

definition sys_platform :: "'p system \<Rightarrow> 'p" where
  "sys_platform s = vfs_platform (system_vfs s)"

definition sys_platform_call :: "'p system \<Rightarrow> ('r \<times> 'p) option \<Rightarrow> ('r \<times> 'p system) option" where
  "sys_platform_call s m = sys_vfs_call s (on_platform (system_vfs s) m)"

definition sys_guard :: "'p system \<Rightarrow> 'p guard" where
  "sys_guard s = (system_security s, system_vfs s)"

definition sys_guard_call :: "('r \<times> 'p guard) option \<Rightarrow> ('r \<times> 'p system) option" where
  "sys_guard_call m = on_field m (\<lambda>g. \<lparr>system_vfs = snd g, system_security = fst g\<rparr>)"

definition says_yes :: "string \<Rightarrow> bool" where
  "says_yes answer \<longleftrightarrow> eq_ignore_ascii_case answer ''y'' \<or> eq_ignore_ascii_case answer ''yes''"

definition prompt_new_password :: "argon2 \<Rightarrow> 'p platform \<Rightarrow> 'p system \<Rightarrow> ('p system, unit) outcome" where
  "prompt_new_password A P s =
     bind (sys_platform_call s (console_read_line P (sys_platform s)
         ''New master password (empty disables it): '' True)) (\<lambda>password s.
     bind (if password = [] then Some (Ok (), s)
           else bind (sys_platform_call s (console_read_line P (sys_platform s)
               ''Confirm master password: '' True)) (\<lambda>confirmation s.
             if password \<noteq> confirmation
             then Some (Err (InvalidInput ''password confirmation does not match''), s)
             else Some (Ok (), s))) (\<lambda>_ s.
     sys_guard_call (set_password A P (sys_guard s) password)))"

definition system_initialize :: "argon2 \<Rightarrow> 'p platform \<Rightarrow> 'p system \<Rightarrow> bool \<Rightarrow> ('p system, unit) outcome" where
  "system_initialize A P s interactive =
     bind (sys_vfs_call s (initialize_layout P (system_vfs s))) (\<lambda>_ s.
     bind (sys_vfs_call s (vfs_exists P (system_vfs s) INITIALIZED_PATH)) (\<lambda>present s.
     if present then Some (Ok (), s)
     else bind (sys_platform_call s (console_write P (sys_platform s) (''AFOS first-run setup'' @ [newline]))) (\<lambda>_ s.
       bind (if interactive
         then bind (sys_platform_call s (console_read_line P (sys_platform s)
             ''Configure a master password? [y/N] '' False)) (\<lambda>answer s.
           if says_yes answer then prompt_new_password A P s else Some (Ok (), s))
         else Some (Ok (), s)) (\<lambda>_ s.
       sys_vfs_call s (vfs_write P (system_vfs s) INITIALIZED_PATH (as_bytes (''AFOS-SETUP-1'' @ [newline])))))))"

definition change_password :: "argon2 \<Rightarrow> 'p platform \<Rightarrow> 'p system \<Rightarrow> ('p system, unit) outcome" where
  "change_password A P s =
     bind (sys_guard_call (has_password P (sys_guard s))) (\<lambda>present s.
     bind (if present
       then bind (sys_platform_call s (console_read_line P (sys_platform s) ''Current master password: '' True))
         (\<lambda>current s. sys_guard_call (verify A P (sys_guard s) current))
       else Some (Ok (), s)) (\<lambda>_ s.
     prompt_new_password A P s))"

section \<open>Authorisation\<close>

definition path_prefix :: "string \<Rightarrow> string \<Rightarrow> bool" where
  "path_prefix pre path \<longleftrightarrow> pre = ''/'' \<or> path = pre
     \<or> (case strip_prefix pre path of None \<Rightarrow> False | Some rest \<Rightarrow> starts_with ''/'' rest)"

fun covers :: "capability \<Rightarrow> capability \<Rightarrow> bool" where
  "covers (FsRead pre) (FsRead path) =
     (case normalize_path ''/'' pre of Inl _ \<Rightarrow> False | Inr normalized \<Rightarrow> path_prefix normalized path)"
| "covers (FsWrite pre) (FsWrite path) =
     (case normalize_path ''/'' pre of Inl _ \<Rightarrow> False | Inr normalized \<Rightarrow> path_prefix normalized path)"
| "covers Clock Clock = True"
| "covers SystemInfo SystemInfo = True"
| "covers (Network pat) (Network host) \<longleftrightarrow> pat = ''*'' \<or> eq_ignore_ascii_case pat host"
| "covers _ _ = False"

definition declares :: "app_identity \<Rightarrow> capability \<Rightarrow> bool" where
  "declares app requested = list_ex (\<lambda>declared. covers declared requested) (capabilities app)"

definition is_network :: "capability \<Rightarrow> bool" where
  "is_network c = (case c of Network _ \<Rightarrow> True | _ \<Rightarrow> False)"

definition declares_any_network :: "app_identity \<Rightarrow> bool" where
  "declares_any_network app = list_ex is_network (capabilities app)"

definition permission_request :: "app_identity \<Rightarrow> capability \<Rightarrow> string \<Rightarrow> string" where
  "permission_request app capability resource =
     [newline] @ ''Permission request'' @ [newline] @ ''  app: '' @ app_id app @ [newline]
     @ ''  operation: '' @ display_capability capability @ [newline]
     @ ''  resource: '' @ resource @ [newline]"

definition authorize ::
  "argon2 \<Rightarrow> 'p platform \<Rightarrow> 'p system \<Rightarrow> app_identity \<Rightarrow> capability \<Rightarrow> string \<Rightarrow> ('p system, unit) outcome" where
  "authorize A P s app capability resource =
     (if resource = SECURITY_PATH
         \<or> (case strip_prefix SECURITY_PATH resource of None \<Rightarrow> False | Some rest \<Rightarrow> starts_with ''/'' rest)
      then Some (Err (PermissionDenied ''security configuration is not exposed to applications''), s)
      else if \<not> declares app capability
      then Some (Err (CapabilityNotDeclared (display_capability capability)), s)
      else if trusted app then Some (Ok (), s)
      else
        bind (sys_platform_call s (console_write P (sys_platform s) (permission_request app capability resource))) (\<lambda>_ s.
        bind (sys_platform_call s (console_read_line P (sys_platform s) ''Allow this operation once? [y/N] '' False)) (\<lambda>answer s.
        if \<not> says_yes answer then Some (Err (PermissionDenied ''request denied''), s)
        else bind (sys_guard_call (has_password P (sys_guard s))) (\<lambda>present s.
          if present
          then bind (sys_platform_call s (console_read_line P (sys_platform s) ''Master password: '' True))
            (\<lambda>password s. sys_guard_call (verify A P (sys_guard s) password))
          else Some (Ok (), s)))))"

section \<open>Application sessions\<close>

record 'p session =
  session_system :: "'p system"
  session_app :: app_identity
  session_args :: "string list"
  session_cwd :: string
  appdata_root :: string
  sockets :: "u64 list"

definition session_new :: "'p system \<Rightarrow> app_identity \<Rightarrow> string list \<Rightarrow> string \<Rightarrow> 'p session" where
  "session_new s app args cwd = \<lparr>session_system = s, session_app = app, session_args = args,
     session_cwd = cwd, appdata_root = ''/user/appdata/'' @ app_id app, sockets = []\<rparr>"

definition session_call :: "'p session \<Rightarrow> ('r \<times> 'p system) option \<Rightarrow> ('r \<times> 'p session) option" where
  "session_call se m = on_field m (\<lambda>s. se\<lparr>session_system := s\<rparr>)"

definition session_platform_call :: "'p session \<Rightarrow> ('r \<times> 'p) option \<Rightarrow> ('r \<times> 'p session) option" where
  "session_platform_call se m = session_call se (sys_platform_call (session_system se) m)"

definition session_vfs_call :: "'p session \<Rightarrow> ('r \<times> 'p vfs) option \<Rightarrow> ('r \<times> 'p session) option" where
  "session_vfs_call se m = session_call se (sys_vfs_call (session_system se) m)"

abbreviation session_platform :: "'p session \<Rightarrow> 'p" where
  "session_platform se \<equiv> sys_platform (session_system se)"

abbreviation session_vfs :: "'p session \<Rightarrow> 'p vfs" where
  "session_vfs se \<equiv> system_vfs (session_system se)"

definition session_authorize ::
  "argon2 \<Rightarrow> 'p platform \<Rightarrow> 'p session \<Rightarrow> capability \<Rightarrow> string \<Rightarrow> ('p session, unit) outcome" where
  "session_authorize A P se capability resource =
     session_call se (authorize A P (session_system se) (session_app se) capability resource)"

definition resolve :: "'p session \<Rightarrow> string \<Rightarrow> string res" where
  "resolve se path = normalize_path (session_cwd se) path"

definition owned_socket :: "'p session \<Rightarrow> u64 \<Rightarrow> unit res" where
  "owned_socket se handle = (if handle \<in> set (sockets se) then Ok ()
     else Err (NotFound (''network connection '' @ show_nat (unat handle))))"

definition resolve_appdata :: "'p session \<Rightarrow> string \<Rightarrow> string res" where
  "resolve_appdata se path = and_then (normalize_path (appdata_root se) path) (\<lambda>resolved.
     if \<not> path_prefix (appdata_root se) resolved then Err (PermissionDenied ''path escapes application data'')
     else Ok resolved)"

definition session_console_write :: "'p platform \<Rightarrow> 'p session \<Rightarrow> string \<Rightarrow> ('p session, unit) outcome" where
  "session_console_write P se text = session_platform_call se (console_write P (session_platform se) text)"

definition session_console_read_line :: "'p platform \<Rightarrow> 'p session \<Rightarrow> string \<Rightarrow> ('p session, string) outcome" where
  "session_console_read_line P se prompt =
     session_platform_call se (console_read_line P (session_platform se) prompt False)"

definition session_read_text :: "argon2 \<Rightarrow> 'p platform \<Rightarrow> 'p session \<Rightarrow> string \<Rightarrow> ('p session, string) outcome" where
  "session_read_text A P se path = attempt (resolve se path) se (\<lambda>path.
     bind (session_authorize A P se (FsRead path) path) (\<lambda>_ se.
     session_vfs_call se (vfs_read_text P (session_vfs se) path)))"

definition session_write_text ::
  "argon2 \<Rightarrow> 'p platform \<Rightarrow> 'p session \<Rightarrow> string \<Rightarrow> string \<Rightarrow> ('p session, unit) outcome" where
  "session_write_text A P se path text = attempt (resolve se path) se (\<lambda>path.
     bind (session_authorize A P se (FsWrite path) path) (\<lambda>_ se.
     session_vfs_call se (vfs_write P (session_vfs se) path (as_bytes text))))"

definition session_list :: "argon2 \<Rightarrow> 'p platform \<Rightarrow> 'p session \<Rightarrow> string \<Rightarrow> ('p session, storage_entry list) outcome" where
  "session_list A P se path = attempt (resolve se path) se (\<lambda>path.
     bind (session_authorize A P se (FsRead path) path) (\<lambda>_ se.
     session_vfs_call se (vfs_list P (session_vfs se) path)))"

definition session_create_dir_all :: "argon2 \<Rightarrow> 'p platform \<Rightarrow> 'p session \<Rightarrow> string \<Rightarrow> ('p session, unit) outcome" where
  "session_create_dir_all A P se path = attempt (resolve se path) se (\<lambda>path.
     bind (session_authorize A P se (FsWrite path) path) (\<lambda>_ se.
     session_vfs_call se (vfs_create_dir_all P (session_vfs se) path)))"

definition session_remove :: "argon2 \<Rightarrow> 'p platform \<Rightarrow> 'p session \<Rightarrow> string \<Rightarrow> ('p session, unit) outcome" where
  "session_remove A P se path = attempt (resolve se path) se (\<lambda>path.
     bind (session_authorize A P se (FsWrite path) path) (\<lambda>_ se.
     session_vfs_call se (vfs_remove P (session_vfs se) path)))"

definition session_rename ::
  "argon2 \<Rightarrow> 'p platform \<Rightarrow> 'p session \<Rightarrow> string \<Rightarrow> string \<Rightarrow> ('p session, unit) outcome" where
  "session_rename A P se from to = attempt (resolve se from) se (\<lambda>from.
     attempt (resolve se to) se (\<lambda>to.
     bind (session_authorize A P se (FsWrite from) from) (\<lambda>_ se.
     bind (session_authorize A P se (FsWrite to) to) (\<lambda>_ se.
     session_vfs_call se (vfs_rename P (session_vfs se) from to)))))"

definition session_appdata_read :: "'p platform \<Rightarrow> 'p session \<Rightarrow> string \<Rightarrow> ('p session, string) outcome" where
  "session_appdata_read P se path = attempt (resolve_appdata se path) se (\<lambda>path.
     session_vfs_call se (vfs_read_text P (session_vfs se) path))"

definition session_appdata_write ::
  "'p platform \<Rightarrow> 'p session \<Rightarrow> string \<Rightarrow> string \<Rightarrow> ('p session, unit) outcome" where
  "session_appdata_write P se path text = attempt (resolve_appdata se path) se (\<lambda>path.
     bind (session_vfs_call se (vfs_create_dir_all P (session_vfs se) (appdata_root se))) (\<lambda>_ se.
     session_vfs_call se (vfs_write P (session_vfs se) path (as_bytes text))))"

definition session_monotonic_millis :: "argon2 \<Rightarrow> 'p platform \<Rightarrow> 'p session \<Rightarrow> ('p session, u64) outcome" where
  "session_monotonic_millis A P se = bind (session_authorize A P se Clock ''monotonic clock'') (\<lambda>_ se.
     session_platform_call se (case monotonic_millis P (session_platform se) of (t, p) \<Rightarrow> Some (Ok t, p)))"

definition session_system_info :: "argon2 \<Rightarrow> 'p platform \<Rightarrow> 'p session \<Rightarrow> ('p session, system_info) outcome" where
  "session_system_info A P se = bind (session_authorize A P se SystemInfo ''system information'') (\<lambda>_ se.
     Some (Ok (platform_info P (session_platform se)), se))"

definition session_net_status :: "'p platform \<Rightarrow> 'p session \<Rightarrow> ('p session, net_status) outcome" where
  "session_net_status P se =
     (if \<not> declares_any_network (session_app se) then Some (Err (CapabilityNotDeclared ''net:<host>''), se)
      else session_platform_call se (net_status P (session_platform se)))"

definition session_net_connect ::
  "argon2 \<Rightarrow> 'p platform \<Rightarrow> 'p session \<Rightarrow> string \<Rightarrow> u16 \<Rightarrow> ('p session, u64) outcome" where
  "session_net_connect A P se host port =
     (if host = [] then Some (Err (InvalidInput ''empty network host''), se)
      else bind (session_authorize A P se (Network host) (host @ '':'' @ show_nat (unat port))) (\<lambda>_ se.
        bind (session_platform_call se (net_connect P (session_platform se) host port)) (\<lambda>handle se.
        Some (Ok handle, se\<lparr>sockets := sockets se @ [handle]\<rparr>))))"

definition session_net_send :: "'p platform \<Rightarrow> 'p session \<Rightarrow> u64 \<Rightarrow> bytes \<Rightarrow> ('p session, nat) outcome" where
  "session_net_send P se handle data = attempt (owned_socket se handle) se (\<lambda>_.
     session_platform_call se (net_send P (session_platform se) handle data))"

definition session_net_recv :: "'p platform \<Rightarrow> 'p session \<Rightarrow> u64 \<Rightarrow> nat \<Rightarrow> ('p session, bytes) outcome" where
  "session_net_recv P se handle n = attempt (owned_socket se handle) se (\<lambda>_.
     bind (session_platform_call se (net_recv P (session_platform se) handle n)) (\<lambda>(count, buffer) se.
     Some (Ok (take count buffer), se)))"

definition session_net_close :: "'p platform \<Rightarrow> 'p session \<Rightarrow> u64 \<Rightarrow> ('p session, unit) outcome" where
  "session_net_close P se handle = attempt (owned_socket se handle) se (\<lambda>_.
     let se = se\<lparr>sockets := filter (\<lambda>open_handle. open_handle \<noteq> handle) (sockets se)\<rparr> in
     session_platform_call se (net_close P (session_platform se) handle))"

definition session_cancelled :: "'p platform \<Rightarrow> 'p session \<Rightarrow> (bool \<times> 'p session) option" where
  "session_cancelled P se = session_platform_call se (poll_cancel P (session_platform se))"

definition session_api :: "argon2 \<Rightarrow> 'p platform \<Rightarrow> 'p session system_api" where
  "session_api A P = \<lparr>api_app = session_app, api_args = session_args, api_cwd = session_cwd,
     api_console_write = session_console_write P, api_console_read_line = session_console_read_line P,
     api_read_text = session_read_text A P, api_write_text = session_write_text A P,
     api_list = session_list A P, api_create_dir_all = session_create_dir_all A P,
     api_remove = session_remove A P, api_rename = session_rename A P,
     api_appdata_read = session_appdata_read P, api_appdata_write = session_appdata_write P,
     api_monotonic_millis = session_monotonic_millis A P, api_system_info = session_system_info A P,
     api_net_status = session_net_status P, api_net_connect = session_net_connect A P,
     api_net_send = session_net_send P, api_net_recv = session_net_recv P,
     api_net_close = session_net_close P, api_cancelled = session_cancelled P\<rparr>"

section \<open>What a session may change\<close>

definition sys_good :: "('p \<Rightarrow> bool) \<Rightarrow> embedded_file list \<Rightarrow> 'p system \<Rightarrow> bool" where
  "sys_good good table s \<longleftrightarrow> vfs_good good table (system_vfs s)"

definition sys_view :: "('p \<Rightarrow> string \<Rightarrow> bytes option) \<Rightarrow> 'p system \<Rightarrow> string \<Rightarrow> bytes option" where
  "sys_view files s = vfs_view files (system_vfs s)"

text \<open>The storage paths that the declared \<^verbatim>\<open>fs.write\<close> capabilities cover, and with them the
  application's own data directory.\<close>

definition writable :: "app_identity \<Rightarrow> string set" where
  "writable app = {q. \<exists>pre p. FsWrite pre \<in> set (capabilities app)
     \<and> normalize_path ''/'' pre = Ok p \<and> path_prefix p (slash # q)}"

definition own_data :: "app_identity \<Rightarrow> string set" where
  "own_data app = region (''/user/appdata/'' @ app_id app)"

text \<open>A session of an application: its system is sound, its current directory is canonical, and
  the identity and the data directory are those it started with.\<close>

definition session_good :: "('p \<Rightarrow> bool) \<Rightarrow> embedded_file list \<Rightarrow> app_identity \<Rightarrow> 'p session \<Rightarrow> bool" where
  "session_good good table app se \<longleftrightarrow> sys_good good table (session_system se) \<and> canonical (session_cwd se)
     \<and> session_app se = app \<and> appdata_root se = ''/user/appdata/'' @ app_id app"

definition session_view :: "('p \<Rightarrow> string \<Rightarrow> bytes option) \<Rightarrow> 'p session \<Rightarrow> string \<Rightarrow> bytes option" where
  "session_view files se = sys_view files (session_system se)"

lemma path_prefix_iff: "path_prefix pre path \<longleftrightarrow> pre = ''/'' \<or> at_or_below pre path"
  using is_path_prefix_iff [of pre path] by (auto simp: path_prefix_def is_path_prefix_def)

lemma path_prefix_region: "path_prefix pre path \<Longrightarrow> q \<in> region path \<Longrightarrow> path_prefix pre (slash # q)"
  by (auto simp: path_prefix_iff region_def intro: at_or_below_trans)

lemma declares_write_region:
  assumes "declares app (FsWrite path)"
  shows "region path \<subseteq> writable app"
proof
  fix q assume "q \<in> region path"
  from assms obtain c where "c \<in> set (capabilities app)" "covers c (FsWrite path)"
    by (auto simp: declares_def list_ex_iff)
  then obtain pre p where "FsWrite pre \<in> set (capabilities app)" "normalize_path ''/'' pre = Ok p"
    "path_prefix p path"
    by (cases "(c, FsWrite path)" rule: covers.cases) (auto split: sum.splits)
  then show "q \<in> writable app" using path_prefix_region \<open>q \<in> region path\<close> by (auto simp: writable_def)
qed

lemma resolve_canonical:
  "session_good good table app se \<Longrightarrow> resolve se path = Ok p \<Longrightarrow> canonical p"
  by (rule normalize_path_canonical [of "session_cwd se" path])
    (simp_all add: resolve_def session_good_def canonical_def [of "session_cwd se"])

lemma resolve_normal:
  "session_good good table app se \<Longrightarrow> resolve se path = Ok p \<Longrightarrow> normalize_path ''/'' p = Ok p"
  by (rule normalize_canonical) (rule resolve_canonical)

lemma appdata_canonical:
  "proper i \<Longrightarrow> canonical (''/user/appdata/'' @ i)"
  using canonical_abs [of "[''user'', ''appdata'', i]"] by (simp add: abs_path_def proper_def)

lemma resolve_appdata_region:
  assumes "session_good good table app se" "proper (app_id app)" "resolve_appdata se path = Ok p"
  shows "normalize_path ''/'' p = Ok p" "region p \<subseteq> own_data app"
proof -
  have root: "appdata_root se = ''/user/appdata/'' @ app_id app" using assms(1) by (simp add: session_good_def)
  from assms(3) have p: "normalize_path (appdata_root se) path = Ok p" "path_prefix (appdata_root se) p"
    by (auto simp: resolve_appdata_def and_then_Inr_iff split: if_splits)
  have "canonical (appdata_root se)" using appdata_canonical [OF assms(2)] root by simp
  then have "canonical p"
    using p(1) normalize_path_canonical [of "appdata_root se" path p] by (simp add: canonical_def [of "appdata_root se"])
  then show "normalize_path ''/'' p = Ok p" by (rule normalize_canonical)
  show "region p \<subseteq> own_data app"
    using p(2) root path_prefix_region [OF p(2)] by (auto simp: own_data_def path_prefix_iff region_def)
qed

lemma confined_sys_vfs:
  "sys_good good table s \<Longrightarrow> confined (vfs_good good table) (vfs_view files) S (system_vfs s) m \<Longrightarrow>
    confined (sys_good good table) (sys_view files) S s (sys_vfs_call s m)"
  unfolding sys_vfs_call_def by (erule confined_on_field) (auto simp: sys_good_def sys_view_def)

lemma confined_sys_guard:
  "sys_good good table s \<Longrightarrow> confined (guard_good good table) (guard_view files) S (sys_guard s) m \<Longrightarrow>
    confined (sys_good good table) (sys_view files) S s (sys_guard_call m)"
  unfolding sys_guard_call_def
  by (erule confined_on_field) (auto simp: sys_good_def sys_view_def sys_guard_def guard_good_def guard_view_def)

lemma confined_session_call:
  "session_good good table app se \<Longrightarrow> confined (sys_good good table) (sys_view files) S (session_system se) m \<Longrightarrow>
    confined (session_good good table app) (session_view files) S se (session_call se m)"
  unfolding session_call_def by (erule confined_on_field) (auto simp: session_good_def session_view_def)

context storage_platform
begin

lemma sys_good_parts:
  "sys_good good table s \<Longrightarrow> vfs_good good table (system_vfs s)"
  "sys_good good table s \<Longrightarrow> guard_good good table (sys_guard s)"
  "session_good good table app se \<Longrightarrow> sys_good good table (session_system se)"
  by (simp_all add: sys_good_def guard_good_def sys_guard_def session_good_def)

lemma sys_platform_keeps:
  "sys_good good table s \<Longrightarrow> (good (sys_platform s) \<Longrightarrow> keeps good files (sys_platform s) m) \<Longrightarrow>
    confined (sys_good good table) (sys_view files) S s (sys_platform_call s m)"
  unfolding sys_platform_call_def sys_platform_def
  by (auto intro!: confined_sys_vfs on_platform_keeps sys_good_parts vfs_good_platform)

lemmas sys_calls = confined_attempt confined_bind confined_return confined_sys_vfs confined_sys_guard
  sys_platform_keeps sys_good_parts

lemma authorize_keeps:
  "sys_good good table s \<Longrightarrow> confined (sys_good good table) (sys_view files) S s (authorize A P s app c resource)"
  unfolding authorize_def
  by (auto intro!: sys_calls platform_keeps has_password_keeps verify_keeps split: option.splits)

lemma session_authorize_keeps:
  "session_good good table app se \<Longrightarrow>
    confined (session_good good table app) (session_view files) S se (session_authorize A P se c resource)"
  unfolding session_authorize_def by (auto intro!: confined_session_call authorize_keeps sys_good_parts)

lemma session_platform_keeps:
  "session_good good table app se \<Longrightarrow>
    (good (session_platform se) \<Longrightarrow> keeps good files (session_platform se) m) \<Longrightarrow>
    confined (session_good good table app) (session_view files) S se (session_platform_call se m)"
  unfolding session_platform_call_def by (auto intro!: confined_session_call sys_platform_keeps sys_good_parts)

lemma session_vfs_confined:
  "session_good good table app se \<Longrightarrow>
    (vfs_good good table (session_vfs se) \<Longrightarrow>
      confined (vfs_good good table) (vfs_view files) S (session_vfs se) m) \<Longrightarrow>
    confined (session_good good table app) (session_view files) S se (session_vfs_call se m)"
  unfolding session_vfs_call_def by (auto intro!: confined_session_call confined_sys_vfs sys_good_parts)

end

text \<open>What a granted request tells, without the dialogue.\<close>

lemma authorize_granted:
  "authorize A P s app c resource = Some (Ok (), s') \<Longrightarrow> declares app c \<and> \<not> at_or_below SECURITY_PATH resource"
  using is_path_prefix_iff [of SECURITY_PATH resource]
  by (auto simp: authorize_def is_path_prefix_def split: if_splits)

lemma session_authorize_granted:
  assumes "session_authorize A P se c resource = Some (Ok (), se')"
  shows "declares (session_app se) c" "\<not> at_or_below SECURITY_PATH resource"
  using assms by (auto simp: session_authorize_def session_call_def dest: authorize_granted)

lemma session_write_granted:
  "session_good good table app se \<Longrightarrow> session_authorize A P se (FsWrite p) p = Some (Ok u, t) \<Longrightarrow>
    region p \<subseteq> writable app"
  using session_authorize_granted(1) [of A P se "FsWrite p" p t] declares_write_region
  by (simp add: session_good_def)

context storage_platform
begin

lemma clock_keeps:
  "good p \<Longrightarrow> monotonic_millis P p = (t, p') \<Longrightarrow> keeps good files p (Some (Ok t, p'))"
  using monotonic_millis_keeps [of p] by (simp add: confined_def)

lemma session_write_text_confined:
  assumes "session_good good table app se"
  shows "confined (session_good good table app) (session_view files) (writable app) se
    (session_write_text A P se path text)"
  unfolding session_write_text_def
proof (rule confined_attempt, rule assms, rule confined_bind, rule session_authorize_keeps, rule assms)
  fix p u t
  assume p: "resolve se path = Ok p" and auth: "session_authorize A P se (FsWrite p) p = Some (Ok u, t)"
    and t: "session_good good table app t"
  from t session_write_granted [OF assms auth] resolve_normal [OF assms p]
  show "confined (session_good good table app) (session_view files) (writable app) t
     (session_vfs_call t (vfs_write P (session_vfs t) p (as_bytes text)))"
    by (auto intro!: session_vfs_confined vfs_write_confined)
qed

lemma session_remove_confined:
  assumes "session_good good table app se"
  shows "confined (session_good good table app) (session_view files) (writable app) se (session_remove A P se path)"
  unfolding session_remove_def
proof (rule confined_attempt, rule assms, rule confined_bind, rule session_authorize_keeps, rule assms)
  fix p u t
  assume p: "resolve se path = Ok p" and auth: "session_authorize A P se (FsWrite p) p = Some (Ok u, t)"
    and t: "session_good good table app t"
  from t session_write_granted [OF assms auth] resolve_normal [OF assms p]
  show "confined (session_good good table app) (session_view files) (writable app) t
     (session_vfs_call t (vfs_remove P (session_vfs t) p))"
    by (auto intro!: session_vfs_confined vfs_remove_confined)
qed

lemma session_rename_confined:
  assumes "session_good good table app se"
  shows "confined (session_good good table app) (session_view files) (writable app) se (session_rename A P se from to)"
  unfolding session_rename_def
proof (rule confined_attempt, rule assms, rule confined_attempt, rule assms,
    rule confined_bind, rule session_authorize_keeps, rule assms, rule confined_bind)
  fix p q u t
  assume p: "resolve se from = Ok p" and q: "resolve se to = Ok q"
    and auth: "session_authorize A P se (FsWrite p) p = Some (Ok u, t)"
    and t: "session_good good table app t"
  then show "confined (session_good good table app) (session_view files) (writable app) t
     (session_authorize A P t (FsWrite q) q)" by (intro session_authorize_keeps)
  fix u' t'
  assume auth': "session_authorize A P t (FsWrite q) q = Some (Ok u', t')"
    and t': "session_good good table app t'"
  from t' session_write_granted [OF assms auth] session_write_granted [OF t auth']
    resolve_normal [OF assms p] resolve_normal [OF assms q]
  show "confined (session_good good table app) (session_view files) (writable app) t'
     (session_vfs_call t' (vfs_rename P (session_vfs t') p q))"
    by (auto intro!: session_vfs_confined vfs_rename_confined)
qed

lemma session_appdata_write_confined:
  assumes "session_good good table app se" "proper (app_id app)"
  shows "confined (session_good good table app) (session_view files) (own_data app) se
    (session_appdata_write P se path text)"
  unfolding session_appdata_write_def
proof (rule confined_attempt, rule assms, rule confined_bind)
  show "confined (session_good good table app) (session_view files) (own_data app) se
     (session_vfs_call se (vfs_create_dir_all P (session_vfs se) (appdata_root se)))"
    using assms(1) by (auto intro!: session_vfs_confined vfs_create_dir_all_keeps)
  fix p u t assume p: "resolve_appdata se path = Ok p" and t: "session_good good table app t"
  from t resolve_appdata_region [OF assms p]
  show "confined (session_good good table app) (session_view files) (own_data app) t
     (session_vfs_call t (vfs_write P (session_vfs t) p (as_bytes text)))"
    by (auto intro!: session_vfs_confined vfs_write_confined)
qed

text \<open>The other methods of the interface change no file.\<close>

lemma session_reads_keep:
  assumes "session_good good table app se"
  shows "confined (session_good good table app) (session_view files) S se (session_console_write P se text)"
    "confined (session_good good table app) (session_view files) S se (session_console_read_line P se text)"
    "confined (session_good good table app) (session_view files) S se (session_read_text A P se path)"
    "confined (session_good good table app) (session_view files) S se (session_list A P se path)"
    "confined (session_good good table app) (session_view files) S se (session_create_dir_all A P se path)"
    "confined (session_good good table app) (session_view files) S se (session_appdata_read P se path)"
    "confined (session_good good table app) (session_view files) S se (session_monotonic_millis A P se)"
    "confined (session_good good table app) (session_view files) S se (session_system_info A P se)"
    "confined (session_good good table app) (session_view files) S se (session_net_status P se)"
    "confined (session_good good table app) (session_view files) S se (session_net_send P se h bs)"
    "confined (session_good good table app) (session_view files) S se (session_net_recv P se h n)"
    "confined (session_good good table app) (session_view files) S se (session_cancelled P se)"
  using assms
  unfolding session_console_write_def session_console_read_line_def session_read_text_def session_list_def
    session_create_dir_all_def session_appdata_read_def session_monotonic_millis_def session_system_info_def
    session_net_status_def session_net_send_def session_net_recv_def session_cancelled_def
  by (auto intro!: confined_attempt confined_bind confined_return session_authorize_keeps
      session_platform_keeps session_vfs_confined platform_keeps vfs_read_text_keeps vfs_list_keeps
      vfs_create_dir_all_keeps clock_keeps split: prod.splits)

end

text \<open>The law of a sandboxed application, for any sequence of calls of its interface.\<close>

definition sandbox ::
  "('p \<Rightarrow> bool) \<Rightarrow> ('p \<Rightarrow> string \<Rightarrow> bytes option) \<Rightarrow> embedded_file list \<Rightarrow> app_identity \<Rightarrow>
    'p session \<Rightarrow> 'p session \<Rightarrow> bool" where
  "sandbox good files table app se se' \<longleftrightarrow> (session_good good table app se \<longrightarrow>
     session_good good table app se' \<and>
     (\<forall>q. q \<notin> writable app \<union> own_data app \<longrightarrow> session_view files se' q = session_view files se q))"

lemma reflp_sandbox: "reflp (sandbox good files table app)"
  by (auto simp: reflp_def sandbox_def)

lemma transp_sandbox: "transp (sandbox good files table app)"
  by (auto simp: transp_def sandbox_def)

lemma sandboxI:
  "(session_good good table app se \<Longrightarrow>
      confined (session_good good table app) (session_view files) (writable app \<union> own_data app) se m) \<Longrightarrow>
    obeys (sandbox good files table app) se m"
  unfolding obeys_def sandbox_def by (auto dest: confinedD)

lemma session_good_sockets [simp]:
  "session_good good table app (se\<lparr>sockets := hs\<rparr>) = session_good good table app se"
  "session_view files (se\<lparr>sockets := hs\<rparr>) = session_view files se"
  "session_system (se\<lparr>sockets := hs\<rparr>) = session_system se"
  by (simp_all add: session_good_def session_view_def)

context storage_platform
begin

lemma session_net_connect_keeps:
  "session_good good table app se \<Longrightarrow>
    confined (session_good good table app) (session_view files) S se (session_net_connect A P se host port)"
proof -
  have "confined (session_good good table app) (session_view files) S se (Some (r, se\<lparr>sockets := hs\<rparr>))"
    if "session_good good table app se" for r hs and se :: "'p session"
    using that by (simp add: confined_def)
  then show "session_good good table app se \<Longrightarrow>
    confined (session_good good table app) (session_view files) S se (session_net_connect A P se host port)"
    unfolding session_net_connect_def
    by (auto intro!: confined_bind confined_return session_authorize_keeps session_platform_keeps platform_keeps)
qed

lemma session_net_close_keeps:
  assumes "session_good good table app se"
  shows "confined (session_good good table app) (session_view files) S se (session_net_close P se h)"
proof -
  let ?se = "se\<lparr>sockets := filter (\<lambda>open_handle. open_handle \<noteq> h) (sockets se)\<rparr>"
  have "confined (session_good good table app) (session_view files) S ?se
      (session_platform_call ?se (net_close P (session_platform ?se) h))"
    using assms by (auto intro!: session_platform_keeps platform_keeps)
  then show ?thesis
    using assms unfolding session_net_close_def Let_def
    by (auto intro!: confined_attempt simp: confined_def)
qed

lemma session_api_sandboxed:
  assumes "proper (app_id app)"
  shows "api_obeys (sandbox good files table app) (session_api A P)"
proof -
  note inside = confined_mono [OF session_write_text_confined] confined_mono [OF session_remove_confined]
    confined_mono [OF session_rename_confined] confined_mono [OF session_appdata_write_confined]
  show ?thesis unfolding api_obeys_def session_api_def
    by (auto intro!: sandboxI session_reads_keep session_net_connect_keeps session_net_close_keeps inside assms)
qed

end

section \<open>Properties of the session interface\<close>

lemma session_same [simp]: "se\<lparr>session_system := session_system se\<rparr> = se"
  by (cases se) simp

abbreviation security_denied :: error where
  "security_denied \<equiv> PermissionDenied ''security configuration is not exposed to applications''"

lemma session_authorize_security:
  "at_or_below SECURITY_PATH p \<Longrightarrow> session_authorize A P se c p = Some (Err security_denied, se)"
  using is_path_prefix_iff [of SECURITY_PATH p]
  by (auto simp: session_authorize_def authorize_def is_path_prefix_def session_call_def)

lemma session_authorize_undeclared:
  assumes "\<not> declares (session_app se) c" "\<not> at_or_below SECURITY_PATH p"
  shows "session_authorize A P se c p = Some (Err (CapabilityNotDeclared (display_capability c)), se)"
  using assms is_path_prefix_iff [of SECURITY_PATH p]
  by (simp add: session_authorize_def authorize_def is_path_prefix_def session_call_def)

lemmas session_file_defs = session_read_text_def session_write_text_def session_list_def
  session_create_dir_all_def session_remove_def session_rename_def



text \<open>A request that no declared capability covers is refused at once: the error names the
  capability, the user is not asked, and neither the session nor the system changes. This is so for
  every file call with one path, the clock and the system information.\<close>

theorem undeclared_is_refused:
  assumes "resolve se path = Ok p" "\<not> at_or_below SECURITY_PATH p"
  shows "(\<not> declares (session_app se) (FsRead p) \<longrightarrow>
       session_read_text A P se path = Some (Err (CapabilityNotDeclared (''fs.read:'' @ p)), se)
       \<and> session_list A P se path = Some (Err (CapabilityNotDeclared (''fs.read:'' @ p)), se))
    \<and> (\<not> declares (session_app se) (FsWrite p) \<longrightarrow>
       session_write_text A P se path text = Some (Err (CapabilityNotDeclared (''fs.write:'' @ p)), se)
       \<and> session_create_dir_all A P se path = Some (Err (CapabilityNotDeclared (''fs.write:'' @ p)), se)
       \<and> session_remove A P se path = Some (Err (CapabilityNotDeclared (''fs.write:'' @ p)), se))
    \<and> (Clock \<notin> set (capabilities (session_app se)) \<longrightarrow>
       session_monotonic_millis A P se = Some (Err (CapabilityNotDeclared ''clock''), se))
    \<and> (SystemInfo \<notin> set (capabilities (session_app se)) \<longrightarrow>
       session_system_info A P se = Some (Err (CapabilityNotDeclared ''system.info''), se))"
proof -
  have "covers c Clock \<longleftrightarrow> c = Clock" "covers c SystemInfo \<longleftrightarrow> c = SystemInfo" for c
    by (cases c; simp)+
  then have only: "declares (session_app se) Clock \<longleftrightarrow> Clock \<in> set (capabilities (session_app se))"
    "declares (session_app se) SystemInfo \<longleftrightarrow> SystemInfo \<in> set (capabilities (session_app se))"
    by (auto simp: declares_def list_ex_iff)
  have "\<not> at_or_below SECURITY_PATH ''monotonic clock''" "\<not> at_or_below SECURITY_PATH ''system information''"
    by (simp_all add: at_or_below_def)
  with assms only show ?thesis
    by (auto simp: session_file_defs session_monotonic_millis_def session_system_info_def
        session_authorize_undeclared)
qed

theorem undeclared_is_refused_witness:
  "\<exists>se :: unit session. trusted (session_app se) \<and> capabilities (session_app se) = [FsWrite ''/user/saves'']
    \<and> (\<forall>A P. session_write_text A P se ''x'' ''data'' = Some (Err (CapabilityNotDeclared ''fs.write:/user/x''), se))"
proof -
  define se :: "unit session" where "se = session_new (system_new ())
    \<lparr>app_id = ''notes'', source_path = ''/sys/apps/notes.rhai'', trusted = True, api_version = 1,
     capabilities = [FsWrite ''/user/saves'']\<rparr> [] ''/user''"
  have r: "resolve se ''x'' = Ok ''/user/x''"
    by (simp add: resolve_def se_def session_new_def normalize_path_def)
  have b: "\<not> at_or_below SECURITY_PATH ''/user/x''" by (simp add: at_or_below_def)
  have "\<not> declares (session_app se) (FsWrite ''/user/x'')"
    by (simp add: se_def session_new_def declares_def normalize_path_def path_prefix_def strip_prefix_def)
  then have "session_write_text A P se ''x'' ''data'' = Some (Err (CapabilityNotDeclared ''fs.write:/user/x''), se)" for A P
    using undeclared_is_refused [OF r b] by simp
  then show ?thesis by (intro exI [of _ se]) (simp add: se_def session_new_def)
qed

text \<open>Every call but a connection leaves the handles of a session as they are or drops one.\<close>

lemma session_call_fields:
  assumes "session_call se m = Some (r, se')"
  shows "sockets se' = sockets se" "session_app se' = session_app se" "session_cwd se' = session_cwd se"
  using assms by (auto simp: session_call_def)

lemma session_fields:
  "session_vfs_call se m = Some (r, se') \<Longrightarrow> sockets se' = sockets se"
  "session_platform_call se m' = Some (r', se') \<Longrightarrow> sockets se' = sockets se"
  "session_authorize A P se c resource = Some (r'', se') \<Longrightarrow> sockets se' = sockets se"
  unfolding session_vfs_call_def session_platform_call_def session_authorize_def
  by (drule session_call_fields(1), assumption)+

abbreviation fewer_sockets :: "'p session \<Rightarrow> 'p session \<Rightarrow> bool" where
  "fewer_sockets se se' \<equiv> set (sockets se') \<subseteq> set (sockets se)"

lemma only_connect_adds_sockets:
  "api_obeys fewer_sockets ((session_api A P)\<lparr>api_net_connect := \<lambda>_ _ _. None\<rparr>)"
proof -
  have close: "obeys fewer_sockets se (session_net_close P se h)" for se h
    by (auto simp: obeys_def session_net_close_def Let_def dest!: session_fields)
  show ?thesis
    unfolding api_obeys_def session_api_def session_file_defs session_console_write_def
      session_console_read_line_def session_appdata_read_def session_appdata_write_def
      session_monotonic_millis_def session_system_info_def session_net_status_def session_net_send_def
      session_net_recv_def session_cancelled_def
    by (auto simp: obeys_def dest!: session_fields close [unfolded obeys_def, rule_format] split: if_splits)
qed

text \<open>C18: an application reaches only connections it opened. On a handle that is not among the
  session's, sending, receiving and closing are refused without touching the network; a handle gets
  among them only as the result of a connection to a host that the application declared; no other
  method of the interface adds one.\<close>

theorem socket_isolation:
  assumes "h \<notin> set (sockets se)"
  shows "session_net_send P se h bs = Some (Err (NotFound (''network connection '' @ show_nat (unat h))), se)
    \<and> session_net_recv P se h n = Some (Err (NotFound (''network connection '' @ show_nat (unat h))), se)
    \<and> session_net_close P se h = Some (Err (NotFound (''network connection '' @ show_nat (unat h))), se)
    \<and> (session_net_connect A P se host port = Some (Ok h', se') \<longrightarrow>
        sockets se' = sockets se @ [h'] \<and> declares (session_app se) (Network host))
    \<and> api_obeys fewer_sockets ((session_api A P)\<lparr>api_net_connect := \<lambda>_ _ _. None\<rparr>)"
proof (intro conjI impI only_connect_adds_sockets)
  assume "session_net_connect A P se host port = Some (Ok h', se')"
  then obtain se1 se2 where a: "session_authorize A P se (Network host) (host @ '':'' @ show_nat (unat port)) = Some (Ok (), se1)"
    and c: "session_platform_call se1 (net_connect P (session_platform se1) host port) = Some (Ok h', se2)"
    and se': "se' = se2\<lparr>sockets := sockets se2 @ [h']\<rparr>"
    by (auto simp: session_net_connect_def split: if_splits)
  show "sockets se' = sockets se @ [h']" using session_fields(3) [OF a] session_fields(2) [OF c] se' by simp
  show "declares (session_app se) (Network host)" using a by (rule session_authorize_granted)
qed (use assms in \<open>simp_all add: session_net_send_def session_net_recv_def session_net_close_def owned_socket_def\<close>)

theorem socket_isolation_witness:
  "\<exists>se :: unit session. sockets se = [] \<and>
    (\<forall>P bs. session_net_send P se 7 bs = Some (Err (NotFound ''network connection 7''), se))"
proof -
  define se :: "unit session" where "se = session_new (system_new ())
    \<lparr>app_id = ''x'', source_path = ''/apps/x.rhai'', trusted = False, api_version = 1, capabilities = []\<rparr> [] ''/user''"
  have none: "sockets se = []" by (simp add: se_def session_new_def)
  then have "7 \<notin> set (sockets se)" by simp
  moreover have "show_nat (unat (7 :: u64)) = ''7''" by code_simp
  ultimately have "session_net_send P se 7 bs = Some (Err (NotFound ''network connection 7''), se)" for P bs
    using socket_isolation [of 7 se P bs] by simp
  with none show ?thesis by blast
qed

text \<open>C35: an application chooses its identifier, and \<^verbatim>\<open>..\<close> is accepted as one; its data calls
  then leave the data directory. The path of its data directory is not normalised, so a relative
  path passes the containment check and is normalised afterwards: such an application reads and
  overwrites the password verifier without a declared capability, a confirmation or a password.\<close>

theorem appdata_escape:
  "(\<exists>m. parse_metadata ''/apps/evil.rhai'' (''// afos:id=..'') False = Ok m \<and>
      app_id (metadata_identity m) = ''..'' \<and> capabilities (metadata_identity m) = [] \<and>
      \<not> trusted (metadata_identity m) \<and>
      (\<forall>P (s :: 'p system) args cwd text. let se = session_new s (metadata_identity m) args cwd in
        session_appdata_read P se ''config/security''
          = session_vfs_call se (vfs_read_text P (session_vfs se) SECURITY_PATH)
        \<and> session_appdata_write P se ''config/security'' text
          = bind (session_vfs_call se (vfs_create_dir_all P (session_vfs se) ''/user'')) (\<lambda>_ se.
              session_vfs_call se (vfs_write P (session_vfs se) SECURITY_PATH (as_bytes text)))))"
proof -
  let ?i = "\<lparr>app_id = ''..'', source_path = ''/apps/evil.rhai'', trusted = False, api_version = 1, capabilities = []\<rparr>"
  let ?p = "''/user/appdata/../config/security''"
  have meta: "parse_metadata ''/apps/evil.rhai'' (''// afos:id=..'') False = Ok \<lparr>metadata_identity = ?i\<rparr>"
    by code_simp
  have resolved: "resolve_appdata (session_new s ?i args cwd) ''config/security'' = Ok ?p" for s :: "'p system" and args cwd
    by (simp add: resolve_appdata_def session_new_def normalize_path_def path_prefix_def strip_prefix_def)
  have "normalize_path ''/'' ?p = Ok SECURITY_PATH" "normalize_path ''/'' ''/user/appdata/..'' = Ok ''/user''"
    "normalize_path ''/'' ''/user'' = Ok ''/user''"
    by (simp_all add: normalize_path_def)
  then have "vfs_read_text P v ?p = vfs_read_text P v SECURITY_PATH"
    "vfs_write P v ?p d = vfs_write P v SECURITY_PATH d"
    "vfs_create_dir_all P v ''/user/appdata/..'' = vfs_create_dir_all P v ''/user''" for P and v :: "'p vfs" and d
    by (simp_all add: vfs_read_text_def vfs_read_def vfs_write_def vfs_create_dir_all_def)
  with resolved have "session_appdata_read P (session_new s ?i args cwd) ''config/security''
      = session_vfs_call (session_new s ?i args cwd) (vfs_read_text P (session_vfs (session_new s ?i args cwd)) SECURITY_PATH)"
    "session_appdata_write P (session_new s ?i args cwd) ''config/security'' content
      = bind (session_vfs_call (session_new s ?i args cwd)
            (vfs_create_dir_all P (session_vfs (session_new s ?i args cwd)) ''/user'')) (\<lambda>_ se.
          session_vfs_call se (vfs_write P (session_vfs se) SECURITY_PATH (as_bytes content)))"
    for P and s :: "'p system" and args cwd content
    by (simp_all add: session_appdata_read_def session_appdata_write_def session_new_def)
  then show ?thesis using meta by (intro exI [of _ "\<lparr>metadata_identity = ?i\<rparr>"]) (simp add: Let_def)
qed

section \<open>Consent\<close>

text \<open>What the user must have entered: agreement to the request, and then a password whose hash
  is the stored one.\<close>

definition consented :: "argon2 \<Rightarrow> 'p platform \<Rightarrow> bytes \<Rightarrow> bytes \<Rightarrow> bool" where
  "consented A P salt hash \<longleftrightarrow> (\<exists>p1 answer p2 p3 password p4.
     console_read_line P p1 ''Allow this operation once? [y/N] '' False = Some (Ok answer, p2) \<and> says_yes answer
     \<and> console_read_line P p3 ''Master password: '' True = Some (Ok password, p4)
     \<and> derive A (as_bytes password) salt = Ok hash)"

lemma holds_verifier_view:
  "holds_verifier files g salt hash \<Longrightarrow> guard_view files g' = guard_view files g \<Longrightarrow>
    holds_verifier files g' salt hash"
  by (simp add: holds_verifier_def)

lemma sys_guard_view: "guard_view files (sys_guard s) = sys_view files s"
  by (simp add: guard_view_def sys_guard_def sys_view_def)

lemma sys_platform_callE:
  assumes "sys_platform_call s m = Some (r, s')"
  obtains p where "m = Some (r, p)"
  using assms by (auto simp: sys_platform_call_def sys_vfs_call_def on_platform_def)

context storage_platform
begin

lemma security_read_sound:
  assumes "vfs_good good table v" "vfs_read_text P v SECURITY_PATH = Some (Ok s, v')"
  shows "vfs_view files v ''user/config/security'' = Some (as_bytes s)"
  using assms storage_read_sound [of "vfs_platform v" "''user/config/security''"]
  by (auto simp: vfs_read_text_def vfs_read_def on_platform_def vfs_good_def vfs_view_def storage_path_def
      dest: from_utf8_SomeD)

lemma verify_sound:
  assumes "guard_good good table g" "holds_verifier files g salt hash"
    and "verify A P g password = Some (Ok (), g')"
  shows "derive A (as_bytes password) salt = Ok hash"
proof -
  obtain sm v where g: "g = (sm, v)" by force
  obtain now p where p: "monotonic_millis P (vfs_platform v) = (now, p)" by (meson surj_pair)
  let ?v = "v\<lparr>vfs_platform := p\<rparr>"
  have "good p \<and> files p = files (vfs_platform v)"
    using keepsD [OF monotonic_millis_keeps [of "vfs_platform v"]] p assms(1) g
    by (auto simp: vfs_good_def)
  then have v: "vfs_good good table ?v" "vfs_view files ?v = vfs_view files v"
    using assms(1) g by (auto simp: vfs_good_def vfs_view_def)
  from assms(3) obtain s v' where "vfs_read_text P ?v SECURITY_PATH = Some (Ok s, v')"
    and s: "\<exists>a b. parse_verifier s = Ok (a, b) \<and> derive A (as_bytes password) a = Ok b"
    by (auto simp: g p verify_def on_vfs_def Let_def split: if_splits)
  then have "as_bytes s = as_bytes (encode_verifier salt hash)"
    using security_read_sound [OF v(1)] v(2) assms(2) g by (simp add: holds_verifier_def)
  then have "s = encode_verifier salt hash" using map_char_of_as_bytes by metis
  then show ?thesis using s assms(2) by (auto simp: holds_verifier_def parse_encode_verifier)
qed

lemma has_password_verifier:
  assumes "guard_good good table g" "holds_verifier files g salt hash" "has_password P g = Some (Ok b, g')"
  shows b
proof -
  have "good (vfs_platform (snd g))" "files (vfs_platform (snd g)) ''user/config/security'' \<noteq> None"
    using assms(1,2) by (auto simp: guard_good_def vfs_good_def holds_verifier_def guard_view_def vfs_view_def)
  then obtain p' where "storage_exists P (vfs_platform (snd g)) ''user/config/security'' = Some (Ok True, p')"
    using storage_exists_complete [of "vfs_platform (snd g)" "''user/config/security''"] by (auto simp: storage_path_def)
  then show ?thesis
    using assms(3) by (auto simp: has_password_def on_vfs_def vfs_exists_def on_platform_def)
qed

lemma authorize_consent:
  assumes "sys_good good table s" "\<not> trusted app" "holds_verifier files (sys_guard s) salt hash"
    and "authorize A P s app c resource = Some (Ok (), s')"
  shows "consented A P salt hash"
proof -
  from assms(2,4) obtain s1 s2 s3 answer present where
    s1: "sys_platform_call s (console_write P (sys_platform s) (permission_request app c resource)) = Some (Ok (), s1)"
    and s2: "sys_platform_call s1 (console_read_line P (sys_platform s1) ''Allow this operation once? [y/N] '' False) = Some (Ok answer, s2)"
    and yes: "says_yes answer"
    and s3: "sys_guard_call (has_password P (sys_guard s2)) = Some (Ok present, s3)"
    and fin: "(if present
          then bind (sys_platform_call s3 (console_read_line P (sys_platform s3) ''Master password: '' True))
            (\<lambda>password s. sys_guard_call (verify A P (sys_guard s) password))
          else Some (Ok (), s3)) = Some (Ok (), s')"
    unfolding authorize_def by (auto split: if_splits option.splits)
  have g1: "sys_good good table s1" "sys_view files s1 = sys_view files s"
    using keepsD [OF sys_platform_keeps s1] assms(1) console_write_keeps by blast+
  have g2: "sys_good good table s2" "sys_view files s2 = sys_view files s1"
    using keepsD [OF sys_platform_keeps s2] g1(1) console_read_line_keeps by blast+
  have g3: "sys_good good table s3" "sys_view files s3 = sys_view files s2"
    using keepsD [OF confined_sys_guard s3] g2(1) has_password_keeps sys_good_parts(2) by blast+
  have "has_password P (sys_guard s2) = Some (Ok present, sys_guard s3)"
    using s3 by (auto simp: sys_guard_call_def sys_guard_def)
  then have "present"
    using has_password_verifier [of table "sys_guard s2" salt hash present] g2 g1(2) assms(3)
    by (simp add: sys_good_parts holds_verifier_def sys_guard_view)
  with fin obtain password s4 where
    s4: "sys_platform_call s3 (console_read_line P (sys_platform s3) ''Master password: '' True) = Some (Ok password, s4)"
    and ok: "sys_guard_call (verify A P (sys_guard s4) password) = Some (Ok (), s')" by auto
  have g4: "sys_good good table s4" "sys_view files s4 = sys_view files s3"
    using keepsD [OF sys_platform_keeps s4] g3(1) console_read_line_keeps by blast+
  have "holds_verifier files (sys_guard s4) salt hash"
    using assms(3) g1(2) g2(2) g3(2) g4(2) by (simp add: holds_verifier_def sys_guard_view)
  then have "derive A (as_bytes password) salt = Ok hash"
    using ok verify_sound [of table "sys_guard s4" salt hash A password] g4(1)
    by (auto simp: sys_guard_call_def sys_good_parts)
  with s2 yes s4 show ?thesis
    unfolding consented_def by (blast elim: sys_platform_callE)
qed

end

section \<open>Setting up and changing the password\<close>

lemma declaresI: "c \<in> set (capabilities app) \<Longrightarrow> covers c requested \<Longrightarrow> declares app requested"
  by (auto simp: declares_def list_ex_iff)

context storage_platform
begin

lemma prompt_new_password_confined:
  "sys_good good table s \<Longrightarrow>
    confined (sys_good good table) (sys_view files) (region SECURITY_PATH) s (prompt_new_password A P s)"
  unfolding prompt_new_password_def
  by (auto intro!: sys_calls platform_keeps set_password_confined)

lemma change_password_confined:
  "sys_good good table s \<Longrightarrow>
    confined (sys_good good table) (sys_view files) (region SECURITY_PATH) s (change_password A P s)"
  unfolding change_password_def
  by (auto intro!: sys_calls platform_keeps has_password_keeps verify_keeps prompt_new_password_confined)

text \<open>Moving the directory above the verifier.\<close>

lemma authorize_trusted:
  "trusted app \<Longrightarrow> declares app c \<Longrightarrow> \<not> at_or_below SECURITY_PATH resource \<Longrightarrow>
    authorize A P s app c resource = Some (Ok (), s)"
  using is_path_prefix_iff [of SECURITY_PATH resource] by (simp add: authorize_def is_path_prefix_def)

lemma session_authorize_trusted:
  "trusted (session_app se) \<Longrightarrow> declares (session_app se) c \<Longrightarrow> \<not> at_or_below SECURITY_PATH resource \<Longrightarrow>
    session_authorize A P se c resource = Some (Ok (), se)"
  by (simp add: session_authorize_def session_call_def authorize_trusted)

lemma rename_config_moves:
  assumes "vfs_good good table v" "vfs_rename P v ''/user/config'' ''/user/c'' = Some (Ok (), v')"
  shows "vfs_good good table v' \<and>
    vfs_view files v' ''user/c/security'' = vfs_view files v ''user/config/security''"
proof -
  have n: "normalize_path ''/'' ''/user/config'' = Ok ''/user/config''"
    "normalize_path ''/'' ''/user/c'' = Ok ''/user/c''"
    "persistent_path ''/user/config'' = Ok ''user/config''" "persistent_path ''/user/c'' = Ok ''user/c''"
    "\<not> is_path_prefix ''/sys'' ''/user/config''" "\<not> is_path_prefix ''/sys'' ''/user/c''"
    by (simp_all add: normalize_path_def persistent_path_def is_path_prefix_def strip_prefix_def)
  have s: "storage_path ''user/config''" "storage_path ''user/c''" by (simp_all add: storage_path_def)
  from assms(2) obtain p' where r: "storage_rename P (vfs_platform v) ''user/config'' ''user/c'' = Some (Ok (), p')"
    "v' = v\<lparr>vfs_platform := p'\<rparr>"
    by (auto simp: vfs_rename_def n on_platform_def)
  have "at_or_below ''user/c'' ''user/c/security''" by (simp add: at_or_below_def)
  moreover have "good (vfs_platform v)" using assms(1) by (simp add: vfs_good_def)
  ultimately show ?thesis
    using storage_rename_ok [OF _ s r(1)] r(2) assms(1) by (simp add: vfs_good_def vfs_view_def)
qed

lemma moved_verifier_read:
  assumes "vfs_good good table v" "vfs_view files v ''user/c/security'' = Some (as_bytes s)" "valid_utf8 s"
  shows "\<exists>v'. vfs_read_text P v ''/user/c/security'' = Some (Ok s, v')"
proof -
  have "normalize_path ''/'' ''/user/c/security'' = Ok ''/user/c/security''"
    "persistent_path ''/user/c/security'' = Ok ''user/c/security''"
    "\<not> is_path_prefix ''/sys'' ''/user/c/security''"
    by (simp_all add: normalize_path_def persistent_path_def is_path_prefix_def strip_prefix_def)
  then show ?thesis
    using assms storage_read_complete [of "vfs_platform v" "''user/c/security''" "as_bytes s"]
    by (auto simp: vfs_read_text_def vfs_read_def on_platform_def vfs_good_def vfs_view_def storage_path_def)
qed

lemma config_rename_exposes:
  assumes "session_good good table app se" "trusted app" "holds_verifier files (sys_guard (session_system se)) salt hash"
    and "FsRead ''/user'' \<in> set (capabilities app)" "FsWrite ''/user'' \<in> set (capabilities app)"
    and "session_rename A P se ''/user/config'' ''/user/c'' = Some (Ok (), se')"
  shows "\<exists>se''. session_read_text A P se' ''/user/c/security'' = Some (Ok (encode_verifier salt hash), se'')"
proof -
  have n: "normalize_path d ''/user/config'' = Ok ''/user/config''" "normalize_path d ''/user/c'' = Ok ''/user/c''"
    "normalize_path d ''/user/c/security'' = Ok ''/user/c/security''" "normalize_path d ''/user'' = Ok ''/user''" for d
    by (simp_all add: normalize_path_def)
  have pre: "path_prefix ''/user'' ''/user/config''" "path_prefix ''/user'' ''/user/c''"
    "path_prefix ''/user'' ''/user/c/security''"
    by (simp_all add: path_prefix_def strip_prefix_def)
  have declared: "declares app (FsWrite ''/user/config'')" "declares app (FsWrite ''/user/c'')"
    "declares app (FsRead ''/user/c/security'')"
    using declaresI [OF assms(5)] declaresI [OF assms(4)] n(4) pre by simp_all
  have free: "\<not> at_or_below SECURITY_PATH ''/user/config''" "\<not> at_or_below SECURITY_PATH ''/user/c''"
    "\<not> at_or_below SECURITY_PATH ''/user/c/security''" by (simp_all add: at_or_below_def)
  have app: "session_app se = app" using assms(1) by (simp add: session_good_def)
  have "session_vfs_call se (vfs_rename P (session_vfs se) ''/user/config'' ''/user/c'') = Some (Ok (), se')"
    using assms(6) by (simp add: session_rename_def resolve_def n session_authorize_trusted app assms(2) declared free)
  then obtain v' where v': "vfs_rename P (session_vfs se) ''/user/config'' ''/user/c'' = Some (Ok (), v')"
    "session_vfs se' = v'" "session_app se' = app" "session_system se' = session_system se\<lparr>system_vfs := v'\<rparr>"
    by (auto simp: session_vfs_call_def session_call_def sys_vfs_call_def app)
  have "vfs_good good table (session_vfs se)" using assms(1) by (simp add: session_good_def sys_good_def)
  from rename_config_moves [OF this v'(1)] assms(3)
  obtain v'' where "vfs_read_text P v' ''/user/c/security'' = Some (Ok (encode_verifier salt hash), v'')"
    using moved_verifier_read [of table v' "encode_verifier salt hash"] verifier_utf8
    by (auto simp: holds_verifier_def guard_view_def sys_guard_def)
  then show ?thesis
    using v'(2,3) by (simp add: session_read_text_def resolve_def n session_authorize_trusted assms(2) declared free
        session_vfs_call_def session_call_def sys_vfs_call_def)
qed

end

end
