(* ===== verification/Shell.thy ===== *)
theory Shell
  imports System
begin

text \<open>
  \<^verbatim>\<open>crates/afos-core/src/shell.rs\<close>: the command line, the built-in commands, finding and
  executing applications, and the interactive loop. The loop is a \<open>partial_function\<close>: it reads
  commands until one of them exits or fails, which may be never.
\<close>

section \<open>The command line\<close>

record splitter =
  split_output :: "string list"
  split_current :: string
  split_quote :: "string option"
  split_escaped :: bool

definition split_step :: "string \<Rightarrow> splitter \<Rightarrow> splitter" where
  "split_step character st =
     (if split_escaped st then st\<lparr>split_current := split_current st @ character, split_escaped := False\<rparr>
      else if character = [CHR 0x5C] then st\<lparr>split_escaped := True\<rparr>
      else case split_quote st of
          Some active_quote \<Rightarrow>
            if character = active_quote then st\<lparr>split_quote := None\<rparr>
            else st\<lparr>split_current := split_current st @ character\<rparr>
        | None \<Rightarrow>
            if character = [CHR 0x27] \<or> character = [CHR 0x22] then st\<lparr>split_quote := Some character\<rparr>
            else if is_whitespace character then
              if split_current st \<noteq> []
              then st\<lparr>split_output := split_output st @ [split_current st], split_current := []\<rparr>
              else st
            else st\<lparr>split_current := split_current st @ character\<rparr>)"

definition split_finish :: "splitter \<Rightarrow> string list res" where
  "split_finish st = (let current = (if split_escaped st then split_current st @ [CHR 0x5C] else split_current st) in
     if split_quote st \<noteq> None then Err (InvalidInput ''unterminated quote'')
     else Ok (if current \<noteq> [] then split_output st @ [current] else split_output st))"

definition split_command_line :: "string \<Rightarrow> string list res" where
  "split_command_line input = split_finish (fold split_step (chars input)
     \<lparr>split_output = [], split_current = [], split_quote = None, split_escaped = False\<rparr>)"

section \<open>The shell\<close>

datatype command_outcome = Continue int | Exit int

record shell_config =
  interactive_setup :: bool
  banner :: bool

definition default_config :: shell_config where
  "default_config = \<lparr>interactive_setup = True, banner = True\<rparr>"

record 'p afos =
  afos_system :: "'p system"
  afos_runtimes :: "'p session runtime_registry"
  afos_cwd :: string

definition afos_new :: "'p \<Rightarrow> 'p afos" where
  "afos_new p = \<lparr>afos_system = system_new p, afos_runtimes = registry_new, afos_cwd = ''/user''\<rparr>"

definition afos_with_system_files :: "'p \<Rightarrow> embedded_file list \<Rightarrow> 'p afos" where
  "afos_with_system_files p fs = \<lparr>afos_system = system_with_vfs (vfs_with_system_files p fs),
     afos_runtimes = registry_new, afos_cwd = ''/user''\<rparr>"

definition register_runtime :: "'p session app_runtime \<Rightarrow> 'p afos \<Rightarrow> unit res \<times> 'p afos" where
  "register_runtime runtime f = (case register runtime (afos_runtimes f) of
     (r, registry) \<Rightarrow> (r, f\<lparr>afos_runtimes := registry\<rparr>))"

definition afos_call :: "'p afos \<Rightarrow> ('r \<times> 'p system) option \<Rightarrow> ('r \<times> 'p afos) option" where
  "afos_call f m = on_field m (\<lambda>s. f\<lparr>afos_system := s\<rparr>)"

definition afos_platform_call :: "'p afos \<Rightarrow> ('r \<times> 'p) option \<Rightarrow> ('r \<times> 'p afos) option" where
  "afos_platform_call f m = afos_call f (sys_platform_call (afos_system f) m)"

definition afos_vfs_call :: "'p afos \<Rightarrow> ('r \<times> 'p vfs) option \<Rightarrow> ('r \<times> 'p afos) option" where
  "afos_vfs_call f m = afos_call f (sys_vfs_call (afos_system f) m)"

abbreviation afos_vfs :: "'p afos \<Rightarrow> 'p vfs" where "afos_vfs f \<equiv> system_vfs (afos_system f)"
abbreviation afos_platform :: "'p afos \<Rightarrow> 'p" where "afos_platform f \<equiv> sys_platform (afos_system f)"

definition afos_initialize :: "argon2 \<Rightarrow> 'p platform \<Rightarrow> 'p afos \<Rightarrow> bool \<Rightarrow> ('p afos, unit) outcome" where
  "afos_initialize A P f interactive = afos_call f (system_initialize A P (afos_system f) interactive)"

text \<open>\<^verbatim>\<open>exists(path)? && supports(path)\<close>.\<close>

definition runnable :: "'p platform \<Rightarrow> 'p afos \<Rightarrow> string \<Rightarrow> ('p afos, bool) outcome" where
  "runnable P f path = bind (afos_vfs_call f (vfs_exists P (afos_vfs f) path)) (\<lambda>present f.
     Some (Ok (present \<and> supports (afos_runtimes f) path), f))"

definition resolve_path_command :: "'p platform \<Rightarrow> 'p afos \<Rightarrow> string \<Rightarrow> ('p afos, string) outcome" where
  "resolve_path_command P f command = attempt (normalize_path (afos_cwd f) command) f (\<lambda>path.
     bind (runnable P f path) (\<lambda>found f.
     if found then Some (Ok path, f)
     else if CHR ''.'' \<notin> set (last (split_on slash path))
     then bind (afos_vfs_call f (vfs_exists P (afos_vfs f) (path @ ''.rhai''))) (\<lambda>present f.
       if present then Some (Ok (path @ ''.rhai''), f) else Some (Err (NotFound path), f))
     else Some (Err (NotFound path), f)))"

fun search_roots :: "'p platform \<Rightarrow> 'p afos \<Rightarrow> string \<Rightarrow> string list \<Rightarrow> ('p afos, string) outcome" where
  "search_roots P f command [] = Some (Err (NotFound command), f)"
| "search_roots P f command (root # roots) = (let path =
       (if CHR ''.'' \<in> set command then root @ ''/'' @ command else root @ ''/'' @ command @ ''.rhai'') in
     bind (runnable P f path) (\<lambda>found f.
     if found then Some (Ok path, f) else search_roots P f command roots))"

definition resolve_command :: "'p platform \<Rightarrow> 'p afos \<Rightarrow> string \<Rightarrow> ('p afos, string) outcome" where
  "resolve_command P f command =
     (if slash \<in> set command then resolve_path_command P f command
      else search_roots P f command [''/sys/apps'', ''/apps''])"

definition is_system_app :: "string \<Rightarrow> bool" where
  "is_system_app path = (case strip_prefix ''/sys/apps/'' path of None \<Rightarrow> False
     | Some rest \<Rightarrow> slash \<notin> set rest)"

text \<open>The session borrows the system and gives it back.\<close>

definition with_session :: "'p afos \<Rightarrow> ('r \<times> 'p session) option \<Rightarrow> ('r \<times> 'p afos) option" where
  "with_session f m = on_field m (\<lambda>se. f\<lparr>afos_system := session_system se\<rparr>)"

definition run_session ::
  "argon2 \<Rightarrow> 'p platform \<Rightarrow> 'p session runtime_registry \<Rightarrow> string \<Rightarrow> string \<Rightarrow> 'p session \<Rightarrow> ('p session, int) outcome" where
  "run_session A P registry path source se =
     bind (registry_execute registry path source (session_api A P) se) (\<lambda>code se.
     bind (if code \<noteq> 0
       then session_console_write P se
         (app_id (session_app se) @ '' exited with status '' @ show_int code @ [newline])
       else Some (Ok (), se)) (\<lambda>_ se.
     Some (Ok code, se)))"

definition execute_app :: "argon2 \<Rightarrow> 'p platform \<Rightarrow> 'p afos \<Rightarrow> string \<Rightarrow> string list \<Rightarrow> ('p afos, int) outcome" where
  "execute_app A P f command args =
     bind (resolve_command P f command) (\<lambda>path f.
     bind (afos_vfs_call f (vfs_read_text P (afos_vfs f) path)) (\<lambda>source f.
     if int (length source) > 1024 * 1024 then Some (Err (ResourceLimit ''application source exceeds 1 MiB''), f)
     else attempt (parse_metadata path source (is_system_app path)) f (\<lambda>metadata.
       with_session f (run_session A P (afos_runtimes f) path source
         (session_new (afos_system f) (metadata_identity metadata)
           (app_id (metadata_identity metadata) # args) (afos_cwd f))))))"

definition exit_code :: "string list \<Rightarrow> int res" where
  "exit_code args = (case args of [] \<Rightarrow> Ok 0
     | arg # _ \<Rightarrow> ok_or (parse_i32 arg) (InvalidInput ''exit status must be an integer''))"

definition change_directory :: "'p platform \<Rightarrow> 'p afos \<Rightarrow> string list \<Rightarrow> ('p afos, command_outcome) outcome" where
  "change_directory P f args =
     attempt (normalize_path (afos_cwd f) (case args of [] \<Rightarrow> ''/user'' | target # _ \<Rightarrow> target)) f (\<lambda>target.
     bind (afos_vfs_call f (vfs_list P (afos_vfs f) target)) (\<lambda>_ f.
     Some (Ok (Continue 0), f\<lparr>afos_cwd := target\<rparr>)))"

text \<open>The other commands.\<close>

definition dispatch_command ::
  "argon2 \<Rightarrow> 'p platform \<Rightarrow> 'p afos \<Rightarrow> string \<Rightarrow> string list \<Rightarrow> ('p afos, command_outcome) outcome" where
  "dispatch_command A P f command args =
     (if command = ''exit'' then
        attempt (exit_code args) f (\<lambda>code. Some (Ok (Exit code), f))
      else if command = ''clear'' then
        bind (afos_platform_call f (console_clear P (afos_platform f))) (\<lambda>_ f. Some (Ok (Continue 0), f))
      else if command = ''passwd'' \<or> command = ''setup'' then
        bind (afos_call f (change_password A P (afos_system f))) (\<lambda>_ f.
        bind (afos_platform_call f (console_write P (afos_platform f) (''Master password updated.'' @ [newline]))) (\<lambda>_ f.
        Some (Ok (Continue 0), f)))
      else if command = ''run'' then
        (case args of [] \<Rightarrow> Some (Err (InvalidInput ''usage: run <app> [args...]''), f)
         | path # app_args \<Rightarrow> bind (execute_app A P f path app_args) (\<lambda>code f. Some (Ok (Continue code), f)))
      else bind (execute_app A P f command args) (\<lambda>code f. Some (Ok (Continue code), f)))"

definition run_command :: "argon2 \<Rightarrow> 'p platform \<Rightarrow> 'p afos \<Rightarrow> string \<Rightarrow> ('p afos, command_outcome) outcome" where
  "run_command A P f line = attempt (split_command_line line) f (\<lambda>words.
     case words of [] \<Rightarrow> Some (Ok (Continue 0), f)
     | command # args \<Rightarrow>
         if command = ''cd'' then change_directory P f args else dispatch_command A P f command args)"

text \<open>One turn of the interactive loop: \<open>Inr None\<close> goes on, \<open>Inr (Some code)\<close> leaves it.\<close>

definition shell_turn :: "argon2 \<Rightarrow> 'p platform \<Rightarrow> 'p afos \<Rightarrow> ('p afos, int option) outcome" where
  "shell_turn A P f =
     bind (afos_platform_call f (console_read_line P (afos_platform f) (''AFOS:'' @ afos_cwd f @ ''$ '') False)) (\<lambda>line f.
     bind (run_command A P f line) (\<lambda>result f.
     Some (Ok (case result of Continue _ \<Rightarrow> None | Exit status \<Rightarrow> Some status), f)))"

partial_function (option) shell_loop :: "argon2 \<Rightarrow> 'p platform \<Rightarrow> 'p afos \<Rightarrow> ('p afos, int) outcome" where
  "shell_loop A P f = (case shell_turn A P f of
       None \<Rightarrow> None
     | Some (r, f') \<Rightarrow> (case r of
         Inl e \<Rightarrow> Some (Inl e, f')
       | Inr None \<Rightarrow> shell_loop A P f'
       | Inr (Some status) \<Rightarrow> Some (Inr status, f')))"

definition banner_text :: string where
  "banner_text = ''AFOS 0.2.0 '' @ [CHR 0xE2, CHR 0x80, CHR 0x94] @ '' portable application environment''
     @ [newline] @ ''Type `help` for commands.'' @ [newline, newline]"

definition run_interactive :: "argon2 \<Rightarrow> 'p platform \<Rightarrow> 'p afos \<Rightarrow> shell_config \<Rightarrow> ('p afos, int) outcome" where
  "run_interactive A P f config =
     bind (afos_initialize A P f (interactive_setup config)) (\<lambda>_ f.
     bind (if banner config then afos_platform_call f (console_write P (afos_platform f) banner_text)
           else Some (Ok (), f)) (\<lambda>_ f.
     shell_loop A P f))"

section \<open>Splitting a command line\<close>

lemma well_formed_width: "well_formed_char (a # t) \<Longrightarrow> utf8_width a - 1 = length t"
  by (cases "a # t" rule: well_formed_char.cases) (auto simp: utf8_width_def)

lemma chars_concat: "list_all well_formed_char cs \<Longrightarrow> chars (concat cs) = cs"
proof (induction cs)
  case (Cons c cs)
  then have wf: "well_formed_char c" by simp
  then obtain a t where c: "c = a # t" by (cases c) auto
  then have "chars (c @ concat cs) = c # chars (concat cs)"
    using well_formed_width [of a t] wf by simp
  with Cons show ?case by simp
qed simp

abbreviation backslash :: char where "backslash \<equiv> CHR 0x5C"

text \<open>A way to write any words on one line: a backslash before every character, a space between
  words.\<close>

definition escape_word :: "string \<Rightarrow> string" where
  "escape_word w = concat (map (Cons backslash) (chars w))"

definition escape_words :: "string list \<Rightarrow> string" where
  "escape_words ws = concat (map (\<lambda>w. escape_word w @ '' '') ws)"

lemma split_escaped_char:
  "\<not> split_escaped st \<Longrightarrow> fold split_step [[backslash], c] st = st\<lparr>split_current := split_current st @ c\<rparr>"
  by (cases st) (simp add: split_step_def)

lemma split_escaped_chars:
  "\<not> split_escaped st \<Longrightarrow> fold split_step (concat (map (\<lambda>c. [[backslash], c]) cs)) st
     = st\<lparr>split_current := split_current st @ concat cs\<rparr>"
proof (induction cs arbitrary: st)
  case (Cons c cs)
  show ?case
    using Cons.IH [of "st\<lparr>split_current := split_current st @ c\<rparr>"] Cons.prems split_escaped_char [OF Cons.prems, of c]
    by simp
qed simp

definition escape_chars :: "string list \<Rightarrow> string list" where
  "escape_chars ws = concat (map (\<lambda>w. concat (map (\<lambda>c. [[backslash], c]) (chars w)) @ ['' '']) ws)"

lemma chars_escape_words:
  "list_all valid_utf8 ws \<Longrightarrow> chars (escape_words ws) = escape_chars ws"
proof -
  assume ws: "list_all valid_utf8 ws"
  have "concat (map (Cons backslash) cs) = concat (concat (map (\<lambda>c. [[backslash], c]) cs))" for cs
    by (induction cs) simp_all
  then have "escape_words ws = concat (escape_chars ws)"
    by (induction ws) (simp_all add: escape_words_def escape_chars_def escape_word_def)
  moreover have "list_all well_formed_char (escape_chars ws)"
    using ws by (auto simp: escape_chars_def list_all_iff valid_utf8_def code_def)
  ultimately show ?thesis by (simp add: chars_concat)
qed

lemma split_escape_chars:
  "\<not> split_escaped st \<Longrightarrow> split_quote st = None \<Longrightarrow> split_current st = [] \<Longrightarrow> list_all (\<lambda>w. w \<noteq> []) ws \<Longrightarrow>
    fold split_step (escape_chars ws) st = st\<lparr>split_output := split_output st @ ws\<rparr>"
proof (induction ws arbitrary: st)
  case (Cons w ws)
  let ?st = "st\<lparr>split_current := w\<rparr>"
  have "fold split_step (concat (map (\<lambda>c. [[backslash], c]) (chars w))) st = ?st"
    using split_escaped_chars [OF Cons.prems(1), of "chars w"] Cons.prems(3) by simp
  moreover have "split_step '' '' ?st = st\<lparr>split_output := split_output st @ [w]\<rparr>"
    using Cons.prems by (cases st) (simp add: split_step_def is_whitespace_def)
  ultimately have "fold split_step (escape_chars (w # ws)) st
      = fold split_step (escape_chars ws) (st\<lparr>split_output := split_output st @ [w]\<rparr>)"
    by (simp add: escape_chars_def)
  then show ?case using Cons.IH [of "st\<lparr>split_output := split_output st @ [w]\<rparr>"] Cons.prems by simp
qed (simp add: escape_chars_def)

lemma split_no_empty_word:
  assumes "split_command_line line = Ok ws"
  shows "[] \<notin> set ws"
proof -
  have "[] \<notin> set (split_output st) \<Longrightarrow> [] \<notin> set (split_output (fold split_step cs st))" for cs st
    by (induction cs arbitrary: st) (auto simp: split_step_def split: option.splits)
  then show ?thesis using assms
    by (auto simp: split_command_line_def split_finish_def Let_def split: if_splits)
qed

text \<open>C26: the command line can carry any arguments: for every list of non-empty words of valid
  text there is a line that splits into exactly these words. No line splits into an empty word, not
  even one with an empty quotation.\<close>

theorem split_escape_round_trip:
  "(list_all (\<lambda>w. valid_utf8 w \<and> w \<noteq> []) ws \<longrightarrow> split_command_line (escape_words ws) = Ok ws)
   \<and> (split_command_line line = Ok words \<longrightarrow> [] \<notin> set words)"
proof (intro conjI impI)
  assume ws: "list_all (\<lambda>w. valid_utf8 w \<and> w \<noteq> []) ws"
  then have "chars (escape_words ws) = escape_chars ws"
    by (intro chars_escape_words) (simp add: list_all_iff)
  then show "split_command_line (escape_words ws) = Ok ws"
    using ws by (simp add: split_command_line_def split_escape_chars list_all_iff split_finish_def)
qed (rule split_no_empty_word)

theorem split_escape_round_trip_witness:
  "split_command_line (escape_words [''echo'', ''a b'', [CHR 0x22]]) = Ok [''echo'', ''a b'', [CHR 0x22]]
   \<and> split_command_line (''echo '' @ [CHR 0x22, CHR 0x22] @ '' x'') = Ok [''echo'', ''x'']
   \<and> [] \<notin> set [''echo'', ''x'']"
proof -
  have v: "list_all (\<lambda>w. valid_utf8 w \<and> w \<noteq> []) [''echo'', ''a b'', [CHR 0x22]]" by code_simp
  have e: "split_command_line (''echo '' @ [CHR 0x22, CHR 0x22] @ '' x'') = Ok [''echo'', ''x'']" by code_simp
  show ?thesis
    by (intro conjI e split_escape_round_trip [THEN conjunct1, rule_format, OF v]
        split_escape_round_trip [THEN conjunct2, rule_format, OF e])
qed

section \<open>The interactive loop\<close>

text \<open>A number of turns that all go on.\<close>

fun turns :: "argon2 \<Rightarrow> 'p platform \<Rightarrow> nat \<Rightarrow> 'p afos \<Rightarrow> 'p afos option" where
  "turns A P 0 f = Some f"
| "turns A P (Suc n) f = (case shell_turn A P f of Some (Inr None, f') \<Rightarrow> turns A P n f' | _ \<Rightarrow> None)"

text \<open>The answer of the turn that leaves the loop.\<close>

definition leaves :: "error + int option \<Rightarrow> int res \<Rightarrow> bool" where
  "leaves t r \<longleftrightarrow> (\<exists>e. t = Inl e \<and> r = Inl e) \<or> (\<exists>c. t = Inr (Some c) \<and> r = Inr c)"

lemma shell_loop_leaves:
  "shell_turn A P f = Some (t, g) \<Longrightarrow> leaves t r \<Longrightarrow> shell_loop A P f = Some (r, g)"
  by (subst shell_loop.simps) (auto simp: leaves_def)

lemma shell_loop_turns:
  "turns A P n f = Some h \<Longrightarrow> shell_turn A P h = Some (t, g) \<Longrightarrow> leaves t r \<Longrightarrow> shell_loop A P f = Some (r, g)"
proof (induction n arbitrary: f)
  case 0
  then show ?case by (simp add: shell_loop_leaves)
next
  case (Suc n)
  then obtain f' where "shell_turn A P f = Some (Inr None, f')" "turns A P n f' = Some h"
    by (auto split: option.splits sum.splits prod.splits)
  then show ?case using Suc.IH [of f'] Suc.prems(2,3) by (subst shell_loop.simps) simp
qed

lemma shell_loop_returns:
  assumes "shell_loop A P f = Some (r, g)"
  shows "\<exists>n h t. turns A P n f = Some h \<and> shell_turn A P h = Some (t, g) \<and> leaves t r"
proof -
  let ?goal = "\<lambda>A P f y. \<exists>n h t. turns A P n f = Some h \<and> shell_turn A P h = Some (t, snd y) \<and> leaves t (fst y)"
  let ?all = "\<lambda>x y. ?goal (fst (fst x)) (snd (fst x)) (snd x) y"
  have "?all ((A, P), f) (r, g)"
  proof (rule shell_loop.raw_induct [OF _ assms, of ?all])
    fix loop A P f y
    assume IH: "\<And>A P f y. loop A P f = Some y \<Longrightarrow> ?all ((A, P), f) y"
      and body: "(case shell_turn A P f of None \<Rightarrow> None
       | Some (r, f') \<Rightarrow> (case r of Inl e \<Rightarrow> Some (Inl e, f') | Inr None \<Rightarrow> loop A P f'
           | Inr (Some status) \<Rightarrow> Some (Inr status, f'))) = Some y"
    then obtain t f' where t: "shell_turn A P f = Some (t, f')" by (auto split: option.splits)
    show "?all ((A, P), f) y"
    proof (cases "t = Inr None")
      case True
      with body t have "loop A P f' = Some y" by simp
      from IH [OF this] obtain n h u
        where "turns A P n f' = Some h" "shell_turn A P h = Some (u, snd y)" "leaves u (fst y)" by auto
      then show ?thesis using t True by (intro exI [of _ "Suc n"] exI [of _ h] exI [of _ u]) simp
    next
      case False
      with body t have "leaves t (fst y)" "snd y = f'"
        by (auto simp: leaves_def split: sum.splits option.splits)
      then show ?thesis using t by (intro exI [of _ 0] exI [of _ f] exI [of _ t]) simp
    qed
  qed
  then show ?thesis by simp
qed


text \<open>A keyboard with prepared lines and nothing else.\<close>

definition keyboard_platform :: "string list platform" where
  "keyboard_platform = without_network \<lparr>console_write = (\<lambda>p _. Some (Ok (), p)),
     console_read_line = (\<lambda>p _ _. case p of [] \<Rightarrow> Some (Err (Io ''end of input''), p) | l # ls \<Rightarrow> Some (Ok l, ls)),
     console_clear = (\<lambda>p. Some (Ok (), p)), storage_read = (\<lambda>p path. Some (Err (NotFound path), p)),
     storage_write = (\<lambda>p path _. Some (Err (ReadOnly path), p)), storage_list = (\<lambda>p _. Some (Ok [], p)),
     storage_create_dir_all = (\<lambda>p _. Some (Ok (), p)), storage_remove = (\<lambda>p path. Some (Err (NotFound path), p)),
     storage_rename = (\<lambda>p from _. Some (Err (NotFound from), p)), storage_exists = (\<lambda>p _. Some (Ok False, p)),
     monotonic_millis = (\<lambda>p. (0, p)), fill_random = (\<lambda>p n. Some (Ok (replicate n 0), p)),
     platform_info = (\<lambda>_. \<lparr>info_name = [], info_version = [], info_platform = [], info_architecture = []\<rparr>),
     poll_cancel = (\<lambda>p. Some (False, p)), net_status = (\<lambda>p. Some (Err net_unavailable, p)),
     net_connect = (\<lambda>p _ _. Some (Err net_unavailable, p)), net_send = (\<lambda>p _ _. Some (Err net_unavailable, p)),
     net_recv = (\<lambda>p _ _. Some (Err net_unavailable, p)), net_close = (\<lambda>p _. Some (Err net_unavailable, p))\<rparr>"

lemma keyboard_turn:
  "shell_turn A keyboard_platform (afos_new [''cd /user'', ''exit 3'']) = Some (Inr None, afos_new [''exit 3''])"
  "shell_turn A keyboard_platform (afos_new [''exit 3'']) = Some (Inr (Some 3), afos_new [])"
  "shell_turn A keyboard_platform (afos_new [''nosuch'', ''exit 3'']) = Some (Inl (NotFound ''nosuch''), afos_new [''exit 3''])"
proof -
  have words: "split_command_line ''cd /user'' = Ok [''cd'', ''/user'']" "split_command_line ''exit 3'' = Ok [''exit'', ''3'']"
    "split_command_line ''nosuch'' = Ok [''nosuch'']"
    by code_simp+
  have code3: "exit_code [''3''] = Ok 3"
    by (simp add: exit_code_def parse_i32_def parse_unsigned_def digit_of_def code_def)
  note defs = shell_turn_def run_command_def change_directory_def dispatch_command_def words afos_platform_call_def afos_vfs_call_def afos_call_def
    sys_platform_call_def sys_vfs_call_def sys_platform_def on_platform_def keyboard_platform_def
    without_network_def afos_new_def system_new_def system_with_vfs_def vfs_new_def
  have paths: "normalize_path ''/user'' ''/user'' = Ok ''/user''" "normalize_path ''/'' ''/user'' = Ok ''/user''"
    "persistent_path ''/user'' = Ok ''user''" "\<not> is_path_prefix ''/sys'' ''/user''"
    "normalize_path ''/'' ''/sys/apps/nosuch.rhai'' = Ok ''/sys/apps/nosuch.rhai''"
    "normalize_path ''/'' ''/apps/nosuch.rhai'' = Ok ''/apps/nosuch.rhai''"
    "is_path_prefix ''/sys'' ''/sys/apps/nosuch.rhai''" "\<not> is_path_prefix ''/sys'' ''/apps/nosuch.rhai''"
    "persistent_path ''/apps/nosuch.rhai'' = Ok ''apps/nosuch.rhai''"
    by (simp_all add: normalize_path_def persistent_path_def is_path_prefix_def strip_prefix_def)
  show "shell_turn A keyboard_platform (afos_new [''cd /user'', ''exit 3'']) = Some (Inr None, afos_new [''exit 3''])"
    by (simp add: defs vfs_list_def paths)
  show "shell_turn A keyboard_platform (afos_new [''exit 3'']) = Some (Inr (Some 3), afos_new [])"
    by (simp add: defs code3)
  show "shell_turn A keyboard_platform (afos_new [''nosuch'', ''exit 3''])
      = Some (Inl (NotFound ''nosuch''), afos_new [''exit 3''])"
    by (simp add: defs execute_app_def resolve_command_def runnable_def vfs_exists_def system_file_def
        system_dir_exists_def paths)
qed


section \<open>Finding applications\<close>

lemma system_app_normal:
  assumes "is_system_app path" "normalize_path ''/'' path = Ok p"
  shows "is_path_prefix ''/sys'' p"
proof -
  obtain rest where rest: "path = ''/sys/apps/'' @ rest" "slash \<notin> set rest"
    using assms(1) by (auto simp: is_system_app_def strip_prefix_Some_iff split: option.splits)
  have "split_on slash path = [[], ''sys'', ''apps'', rest]" using rest by (simp add: split_on_id)
  then have "p = ''/sys'' \<or> p = ''/sys/apps'' \<or> p = ''/sys/apps/'' @ rest"
    using assms(2) rest(1) by (auto simp: normalize_path_def split: if_splits)
  then show ?thesis by (auto simp: is_path_prefix_def strip_prefix_def)
qed


lemma system_file_exists:
  "normalize_path ''/'' path = Ok path \<Longrightarrow> is_path_prefix ''/sys'' path \<Longrightarrow> system_file v path \<noteq> None \<Longrightarrow>
    vfs_exists P v path = Some (Ok True, v)"
  by (auto simp: vfs_exists_def)

text \<open>System commands cannot be shadowed: a command name without a slash that names an embedded
  system application resolves to it, whatever is installed under \<^verbatim>\<open>/apps\<close>, and without
  asking the platform's storage.\<close>

theorem system_commands_win:
  assumes "proper command" "CHR ''.'' \<notin> set command"
    and "system_file (afos_vfs f) (''/sys/apps/'' @ command @ ''.rhai'') \<noteq> None"
    and "supports (afos_runtimes f) (''/sys/apps/'' @ command @ ''.rhai'')"
  shows "resolve_command P f command = Some (Ok (''/sys/apps/'' @ command @ ''.rhai''), f)"
proof -
  let ?path = "''/sys/apps/'' @ command @ ''.rhai''"
  have "proper (command @ ''.rhai'')" using assms(1) by (auto simp: proper_def)
  then have "normalize_path ''/'' ?path = Ok ?path"
    using normalize_abs [of "[''sys'', ''apps'', command @ ''.rhai'']" "''/''"] by (simp add: abs_path_def proper_def)
  moreover have "is_path_prefix ''/sys'' ?path" by (simp add: is_path_prefix_def strip_prefix_def)
  ultimately have "vfs_exists P (afos_vfs f) ?path = Some (Ok True, afos_vfs f)"
    using assms(3) by (rule system_file_exists)
  then have "runnable P f ?path = Some (Ok True, f)"
    using assms(4) by (simp add: runnable_def afos_vfs_call_def afos_call_def sys_vfs_call_def)
  then show ?thesis
    using assms(1,2) by (simp add: resolve_command_def proper_def Let_def)
qed

definition sample_table :: "embedded_file list" where
  "sample_table = [embedded_text ''/sys/apps/ls.rhai'' ''0'']"

definition sample_afos :: "unit afos" where
  "sample_afos = (afos_with_system_files () sample_table)\<lparr>afos_runtimes := \<lparr>runtimes =
     [\<lparr>runtime_id = ''rhai'', runtime_extension = ''rhai'', runtime_execute = (\<lambda>_ _ a. Some (Ok 0, a))\<rparr>]\<rparr>\<rparr>"

lemma sample_read:
  "vfs_read_text P (afos_vfs sample_afos) ''/sys/apps/ls.rhai'' = Some (Ok ''0'', afos_vfs sample_afos)"
proof -
  have "from_utf8 (as_bytes ''0'') = Some ''0''" by (rule from_utf8_as_bytes) code_simp
  then show ?thesis
    by (simp add: vfs_read_text_def vfs_read_def sample_afos_def afos_with_system_files_def system_with_vfs_def
        vfs_with_system_files_def sample_table_def embedded_text_def system_file_def normalize_path_def
        is_path_prefix_def strip_prefix_def)
qed


theorem system_commands_win_witness:
  "\<forall>P. resolve_command P sample_afos ''ls'' = Some (Ok ''/sys/apps/ls.rhai'', sample_afos)"
proof
  fix P
  have "proper ''ls''" "CHR ''.'' \<notin> set ''ls''" by (simp_all add: proper_def)
  moreover have "system_file (afos_vfs sample_afos) (''/sys/apps/'' @ ''ls'' @ ''.rhai'') \<noteq> None"
    by (simp add: system_file_def sample_afos_def afos_with_system_files_def system_with_vfs_def
        vfs_with_system_files_def sample_table_def embedded_text_def)
  moreover have "supports (afos_runtimes sample_afos) (''/sys/apps/'' @ ''ls'' @ ''.rhai'')"
    by (simp add: supports_def sample_afos_def rsplit_once_def split_once_def)
  ultimately show "resolve_command P sample_afos ''ls'' = Some (Ok ''/sys/apps/ls.rhai'', sample_afos)"
    using system_commands_win [of "''ls''" sample_afos P] by simp
qed

section \<open>What a command keeps\<close>

text \<open>The part of the shell that no application and no command but \<^verbatim>\<open>cd\<close> changes.\<close>

lemma afos_call_fields:
  "afos_call f m = Some (r, f') \<Longrightarrow> afos_cwd f' = afos_cwd f \<and> afos_runtimes f' = afos_runtimes f"
  "afos_vfs_call f m' = Some (r', f') \<Longrightarrow> afos_cwd f' = afos_cwd f \<and> afos_runtimes f' = afos_runtimes f"
  "afos_platform_call f m'' = Some (r'', f') \<Longrightarrow> afos_cwd f' = afos_cwd f \<and> afos_runtimes f' = afos_runtimes f"
  "with_session f m''' = Some (r''', f') \<Longrightarrow> afos_cwd f' = afos_cwd f \<and> afos_runtimes f' = afos_runtimes f"
  by (auto simp: afos_call_def afos_vfs_call_def afos_platform_call_def with_session_def)

definition same_shell :: "'p afos \<Rightarrow> ('r \<times> 'p afos) option \<Rightarrow> bool" where
  "same_shell f m \<longleftrightarrow> obeys (\<lambda>f f'. afos_cwd f' = afos_cwd f \<and> afos_runtimes f' = afos_runtimes f) f m"

lemma same_shell_bind:
  assumes "same_shell f m" "\<And>x g. same_shell g (k x g)"
  shows "same_shell f (bind m k)"
  unfolding same_shell_def obeys_def
proof (intro allI impI)
  fix r h assume "bind m k = Some (r, h)"
  then show "afos_cwd h = afos_cwd f \<and> afos_runtimes h = afos_runtimes f"
  proof (cases rule: bind_SomeE)
    case (err e)
    then show ?thesis using assms(1) by (simp add: same_shell_def obeys_def)
  next
    case (val x g)
    then show ?thesis using assms(1) assms(2) [of g x] by (simp add: same_shell_def obeys_def)
  qed
qed

lemma same_shell_calls [intro!]:
  "same_shell f (Some (r, f))" "same_shell f (afos_call f m)" "same_shell f (afos_vfs_call f m')"
  "same_shell f (afos_platform_call f m'')" "same_shell f (with_session f m''')"
  by (auto simp: same_shell_def obeys_def dest!: afos_call_fields)

lemma same_shell_attempt: "(\<And>x. same_shell f (k x)) \<Longrightarrow> same_shell f (attempt r f k)"
  by (cases r) auto

lemma same_shell_runnable: "same_shell f (runnable P f path)"
  unfolding runnable_def by (intro same_shell_bind same_shell_calls)

lemma same_shell_search: "same_shell f (search_roots P f command roots)"
  by (induction roots arbitrary: f) (auto simp: Let_def intro!: same_shell_bind same_shell_runnable)

lemma same_shell_resolve: "same_shell f (resolve_command P f command)"
  unfolding resolve_command_def resolve_path_command_def
  by (auto intro!: same_shell_bind same_shell_attempt same_shell_search same_shell_runnable
      simp del: search_roots.simps)

lemma same_shell_execute: "same_shell f (execute_app A P f command args)"
  unfolding execute_app_def
  by (auto intro!: same_shell_bind same_shell_attempt same_shell_resolve)

lemma same_shell_run_command:
  assumes "run_command A P f line = Some (r, f')"
  shows "afos_runtimes f' = afos_runtimes f \<and> (afos_cwd f' = afos_cwd f
    \<or> (\<exists>target. normalize_path (afos_cwd f) target = Ok (afos_cwd f')))"
proof -
  have other: "same_shell f (dispatch_command A P f command args)" for command args
    unfolding dispatch_command_def
    by (auto intro!: same_shell_bind same_shell_attempt same_shell_execute split: list.split)
  from assms show ?thesis unfolding run_command_def
  proof (cases rule: attempt_SomeE)
    case (val words)
    show ?thesis
    proof (cases words)
      case Nil
      then show ?thesis using val by simp
    next
      case (Cons command args)
      then show ?thesis using val(2) other [of command args]
        by (auto simp: same_shell_def obeys_def change_directory_def dest!: afos_call_fields split: if_splits)
    qed
  qed simp
qed

text \<open>C25: the shell's current directory is canonical at all times: it starts as \<^verbatim>\<open>/user\<close>, and
  every command, whether it succeeds or fails, leaves a canonical current directory and the
  registered runtimes as they were; so does any number of turns of the loop.\<close>

theorem shell_cwd_canonical:
  assumes "canonical (afos_cwd f)" "turns A P n f = Some g"
  shows "canonical (afos_cwd g) \<and> afos_runtimes g = afos_runtimes f
    \<and> (run_command A P g line = Some (r, g') \<longrightarrow> canonical (afos_cwd g') \<and> afos_runtimes g' = afos_runtimes f)"
proof -
  have step: "canonical (afos_cwd g') \<and> afos_runtimes g' = afos_runtimes g"
    if "canonical (afos_cwd g)" "run_command A P g line = Some (r, g')" for g g' r line
  proof -
    have "list_all proper (path_components (afos_cwd g))" using that(1) by (simp add: canonical_def)
    note target = normalize_path_canonical [OF this]
    show ?thesis using same_shell_run_command [OF that(2)] that(1) target by auto
  qed
  have "canonical (afos_cwd g) \<and> afos_runtimes g = afos_runtimes f" using assms
  proof (induction n arbitrary: f)
    case (Suc n)
    then obtain f' where t: "shell_turn A P f = Some (Inr None, f')" "turns A P n f' = Some g"
      by (auto split: option.splits sum.splits prod.splits)
    then obtain h l o' where h: "afos_platform_call f (console_read_line P (afos_platform f) (''AFOS:'' @ afos_cwd f @ ''$ '') False) = Some (Ok l, h)"
      "run_command A P h l = Some (Ok o', f')"
      by (auto simp: shell_turn_def)
    then have "canonical (afos_cwd h)" "afos_runtimes h = afos_runtimes f"
      using afos_call_fields(3) [OF h(1)] Suc.prems(1) by simp_all
    then show ?case using step [OF _ h(2)] Suc.IH [of f'] t(2) by simp
  qed simp
  then show ?thesis using step [of g line r g'] by simp
qed

theorem shell_cwd_canonical_witness:
  "\<forall>A. canonical (afos_cwd (afos_new [''cd /user'', ''exit 3''])) \<and>
    (\<exists>g. turns A keyboard_platform 1 (afos_new [''cd /user'', ''exit 3'']) = Some g \<and> canonical (afos_cwd g))"
proof
  fix A
  have c: "canonical (afos_cwd (afos_new [''cd /user'', ''exit 3'']))"
    using canonical_abs [of "[''user'']"] by (simp add: afos_new_def abs_path_def proper_def)
  have t: "turns A keyboard_platform 1 (afos_new [''cd /user'', ''exit 3'']) = Some (afos_new [''exit 3''])"
    by (simp add: keyboard_turn)
  show "canonical (afos_cwd (afos_new [''cd /user'', ''exit 3''])) \<and>
    (\<exists>g. turns A keyboard_platform 1 (afos_new [''cd /user'', ''exit 3'']) = Some g \<and> canonical (afos_cwd g))"
    using c t shell_cwd_canonical [OF c t, THEN conjunct1] by blast
qed

section \<open>What an application may change\<close>

lemma apply_directive_id:
  "apply_directive key value identity = Ok i \<Longrightarrow> app_id i = app_id identity \<or> valid_id (app_id i)"
  by (auto simp: apply_directive_def and_then_Inr_iff split: if_splits)

lemma parse_header_id:
  "parse_header identity ls = Ok identity' \<Longrightarrow> app_id identity' = app_id identity \<or> valid_id (app_id identity')"
proof (induction ls arbitrary: identity)
  case (Cons line rest)
  have "app_id identity' = app_id identity \<or> valid_id (app_id identity')"
    if "apply_directive key v identity = Ok i" "parse_header i rest = Ok identity'" for key v i
    using apply_directive_id [OF that(1)] Cons.IH [OF that(2)] by auto
  with Cons show ?case
    by (auto simp: Let_def and_then_Inr_iff split: if_splits option.splits)
qed simp

lemma metadata_id_proper:
  assumes "parse_metadata path source t = Ok m" "CHR 0x00 \<notin> set path" "backslash \<notin> set path"
    and "app_id (metadata_identity m) \<noteq> ''.''" "app_id (metadata_identity m) \<noteq> ''..''"
  shows "proper (app_id (metadata_identity m))"
proof -
  let ?i = "app_id (metadata_identity m)"
  have stem: "set (file_stem path) \<subseteq> set path"
    using set_split_on [of "last (split_on slash path)" slash path]
    by (auto simp: file_stem_def Let_def rsplit_once_Some_iff split: option.splits)
  have "?i = file_stem path \<or> valid_id ?i"
    using assms(1) by (auto simp: parse_metadata_def and_then_Inr_iff split: if_splits dest!: parse_header_id)
  then have "CHR 0x00 \<notin> set ?i \<and> backslash \<notin> set ?i"
    using stem assms(2,3)
    by (auto simp: valid_id_def list_all_iff is_ascii_alphanumeric_def less_eq_char_def)
  then show ?thesis
    using parse_metadata_identity [OF assms(1)] assms(4,5) by (simp add: proper_def identity_of_def)
qed

lemma read_path_clean:
  "vfs_read_text P v path = Some (Ok source, v') \<Longrightarrow> CHR 0x00 \<notin> set path \<and> backslash \<notin> set path"
  by (auto simp: vfs_read_text_def vfs_read_def normalize_path_def split: if_splits)

definition sandboxed_registry :: "'p session runtime_registry \<Rightarrow> bool" where
  "sandboxed_registry registry \<longleftrightarrow> (\<forall>runtime \<in> set (runtimes registry). sandboxed_runtime runtime)"

context storage_platform
begin

lemma registry_execute_confined:
  assumes "session_good good table app se" "proper (app_id app)" "sandboxed_registry registry"
  shows "confined (session_good good table app) (session_view files) (writable app \<union> own_data app) se
    (registry_execute registry path source (session_api A P) se)"
  unfolding registry_execute_def
proof (rule confined_attempt, rule assms, rule confined_attempt, rule assms)
  fix ext runtime
  assume "ok_or (find (\<lambda>runtime. runtime_extension runtime = ext) (runtimes registry))
      (Unsupported (''*.'' @ ext @ '' applications'')) = Ok runtime"
  then have "runtime \<in> set (runtimes registry)" by (auto simp: find_Some_iff)
  then have "sandboxed_runtime runtime" using assms(3) by (simp add: sandboxed_registry_def)
  then have "obeys (sandbox good files table app) se (runtime_execute runtime source (session_api A P) se)"
    using reflp_sandbox transp_sandbox session_api_sandboxed [OF assms(2)] by (rule sandboxed_runtime.execute_obeys)
  then show "confined (session_good good table app) (session_view files) (writable app \<union> own_data app) se
     (runtime_execute runtime source (session_api A P) se)"
    using assms(1) by (auto simp: obeys_def sandbox_def confined_def)
qed

lemma run_session_confined:
  assumes "session_good good table app se" "proper (app_id app)" "sandboxed_registry registry"
  shows "confined (session_good good table app) (session_view files) (writable app \<union> own_data app) se
    (run_session A P registry path source se)"
  unfolding run_session_def
  by (auto intro!: confined_bind registry_execute_confined assms session_reads_keep confined_return)

lemma session_new_good:
  "sys_good good table s \<Longrightarrow> canonical cwd \<Longrightarrow> session_good good table app (session_new s app args cwd)"
  by (simp add: session_good_def session_new_def)

definition afos_good :: "embedded_file list \<Rightarrow> 'p afos \<Rightarrow> bool" where
  "afos_good table f \<longleftrightarrow> sys_good good table (afos_system f)"

definition afos_view :: "'p afos \<Rightarrow> string \<Rightarrow> bytes option" where
  "afos_view f = sys_view files (afos_system f)"

lemma confined_afos_call:
  "afos_good table f \<Longrightarrow> confined (sys_good good table) (sys_view files) S (afos_system f) m \<Longrightarrow>
    confined (afos_good table) afos_view S f (afos_call f m)"
  unfolding afos_call_def by (erule confined_on_field) (auto simp: afos_good_def afos_view_def)

lemma afos_vfs_keeps:
  "afos_good table f \<Longrightarrow> (vfs_good good table (afos_vfs f) \<Longrightarrow>
      confined (vfs_good good table) (vfs_view files) S (afos_vfs f) m) \<Longrightarrow>
    confined (afos_good table) afos_view S f (afos_vfs_call f m)"
  unfolding afos_vfs_call_def
  by (auto intro!: confined_afos_call confined_sys_vfs simp: afos_good_def sys_good_def)

lemma runnable_keeps:
  "afos_good table f \<Longrightarrow> confined (afos_good table) afos_view S f (runnable P f path)"
  unfolding runnable_def by (auto intro!: confined_bind afos_vfs_keeps vfs_exists_keeps confined_return)

lemma search_roots_keeps:
  "afos_good table f \<Longrightarrow> confined (afos_good table) afos_view S f (search_roots P f command roots)"
  by (induction roots arbitrary: f)
    (auto simp: Let_def intro!: confined_bind runnable_keeps confined_return)

lemma resolve_path_command_keeps:
  assumes "afos_good table f"
  shows "confined (afos_good table) afos_view S f (resolve_path_command P f command)"
  unfolding resolve_path_command_def
proof (rule confined_attempt, rule assms, rule confined_bind, rule runnable_keeps, rule assms)
  fix path found g assume g: "afos_good table g"
  have "confined (afos_good table) afos_view S g (afos_vfs_call g (vfs_exists P (afos_vfs g) (path @ ''.rhai'')))"
    using g by (intro afos_vfs_keeps vfs_exists_keeps)
  then have "confined (afos_good table) afos_view S g
      (bind (afos_vfs_call g (vfs_exists P (afos_vfs g) (path @ ''.rhai''))) (\<lambda>present f.
        if present then Some (Ok (path @ ''.rhai''), f) else Some (Err (NotFound path), f)))"
    by (rule confined_bind) (simp add: confined_return)
  then show "confined (afos_good table) afos_view S g (if found then Some (Ok path, g)
     else if CHR ''.'' \<notin> set (last (split_on slash path))
     then bind (afos_vfs_call g (vfs_exists P (afos_vfs g) (path @ ''.rhai''))) (\<lambda>present f.
       if present then Some (Ok (path @ ''.rhai''), f) else Some (Err (NotFound path), f))
     else Some (Err (NotFound path), g))"
    using g by (simp add: confined_return)
qed

lemma resolve_command_keeps:
  "afos_good table f \<Longrightarrow> confined (afos_good table) afos_view S f (resolve_command P f command)"
  unfolding resolve_command_def
  by (cases "slash \<in> set command") (simp_all only: if_True if_False simp_thms resolve_path_command_keeps search_roots_keeps)

end

text \<open>The files that differ between two shells.\<close>

definition changed :: "('p \<Rightarrow> string \<Rightarrow> bytes option) \<Rightarrow> 'p afos \<Rightarrow> 'p afos \<Rightarrow> string set" where
  "changed files f f' = {q. sys_view files (afos_system f') q \<noteq> sys_view files (afos_system f) q}"

text \<open>The application that a command names: the path it resolves to, its source and metadata.\<close>

definition names_app :: "'p platform \<Rightarrow> 'p afos \<Rightarrow> string \<Rightarrow> app_identity \<Rightarrow> bool" where
  "names_app P f command app \<longleftrightarrow> (\<exists>path g source h m. resolve_command P f command = Some (Ok path, g)
     \<and> afos_vfs_call g (vfs_read_text P (afos_vfs g) path) = Some (Ok source, h)
     \<and> parse_metadata path source (is_system_app path) = Ok m \<and> app = metadata_identity m)"

context storage_platform
begin

lemma execute_app_cases:
  assumes "execute_app A P f command args = Some (r, f')" "afos_good table f"
  obtains (kept) "afos_good table f'" "afos_view f' = afos_view f"
    | (ran) path g source h m where "resolve_command P f command = Some (Ok path, g)"
      "afos_vfs_call g (vfs_read_text P (afos_vfs g) path) = Some (Ok source, h)"
      "parse_metadata path source (is_system_app path) = Ok m"
      "afos_good table h" "afos_view h = afos_view f" "afos_cwd h = afos_cwd f" "afos_runtimes h = afos_runtimes f"
      "with_session h (run_session A P (afos_runtimes h) path source (session_new (afos_system h) (metadata_identity m)
         (app_id (metadata_identity m) # args) (afos_cwd h))) = Some (r, f')"
proof -
  note resolved = resolve_command_keeps [OF assms(2), of "{}" command]
  have readed: "keeps (afos_good table) afos_view g (afos_vfs_call g (vfs_read_text P (afos_vfs g) path))"
    if "afos_good table g" for g path
    using that by (intro afos_vfs_keeps vfs_read_text_keeps)
  from assms(1) show ?thesis unfolding execute_app_def
  proof (cases rule: bind_SomeE)
    case (err e)
    then show ?thesis using kept keepsD [OF resolved err(1)] by simp
  next
    case (val path g)
    have g: "afos_good table g" "afos_view g = afos_view f" using keepsD [OF resolved val(1)] by simp_all
    have gs: "afos_cwd g = afos_cwd f" "afos_runtimes g = afos_runtimes f"
      using same_shell_resolve [of f P command] val(1) by (simp_all add: same_shell_def obeys_def)
    from val(2) show ?thesis
    proof (cases rule: bind_SomeE)
      case (err e)
      then show ?thesis using kept keepsD [OF readed [OF g(1)] err(1)] g(2) by simp
    next
      case read: (val source h)
      have h: "afos_good table h" "afos_view h = afos_view f"
        using keepsD [OF readed [OF g(1)] read(1)] g(2) by simp_all
      have hs: "afos_cwd h = afos_cwd f" "afos_runtimes h = afos_runtimes f"
        using afos_call_fields(2) [OF read(1)] gs by simp_all
      show ?thesis using read(2) kept h ran [OF val(1) read(1) _ h hs] by (auto split: if_splits)
    qed
  qed
qed

lemma execute_app_confined:
  assumes "execute_app A P f command args = Some (r, f')" "afos_good table f" "canonical (afos_cwd f)"
    and "sandboxed_registry (afos_runtimes f)"
  shows "changed files f f' = {} \<or> (\<exists>app. names_app P f command app \<and>
    (app_id app \<in> {''.'', ''..''} \<or> changed files f f' \<subseteq> writable app \<union> own_data app))"
  using assms(1,2)
proof (cases rule: execute_app_cases)
  case kept
  then show ?thesis by (simp add: changed_def afos_view_def)
next
  case (ran path g source h m)
  let ?app = "metadata_identity m"
  let ?se = "session_new (afos_system h) ?app (app_id ?app # args) (afos_cwd h)"
  have "changed files f f' \<subseteq> writable ?app \<union> own_data ?app" if "app_id ?app \<notin> {''.'', ''..''}"
  proof -
    have "CHR 0x00 \<notin> set path \<and> backslash \<notin> set path"
      using ran(2) by (auto simp: afos_vfs_call_def afos_call_def sys_vfs_call_def dest: read_path_clean)
    then have "proper (app_id ?app)" using metadata_id_proper [OF ran(3)] that by simp
    moreover have "session_good good table ?app ?se"
      using ran(4,6) assms(3) by (simp add: session_new_good afos_good_def)
    ultimately have "confined (session_good good table ?app) (session_view files) (writable ?app \<union> own_data ?app) ?se
        (run_session A P (afos_runtimes h) path source ?se)"
      using assms(4) ran(7) by (intro run_session_confined) simp_all
    moreover obtain se where "run_session A P (afos_runtimes h) path source ?se = Some (r, se)"
      "f' = h\<lparr>afos_system := session_system se\<rparr>" using ran(8) by (auto simp: with_session_def)
    ultimately have "sys_view files (afos_system f') q = sys_view files (afos_system h) q"
      if "q \<notin> writable ?app \<union> own_data ?app" for q
      using confinedD(2) that by (fastforce simp: session_view_def session_new_def)
    then show ?thesis using ran(5) by (auto simp: changed_def afos_view_def)
  qed
  moreover have "names_app P f command ?app" unfolding names_app_def using ran(1-3) by blast
  ultimately show ?thesis by blast
qed

end

end
