(* ===== verification/Rhai.thy ===== *)
theory Rhai
  imports App
begin

text \<open>
  \<^verbatim>\<open>crates/afos-runtime-rhai\<close>: the functions that the Rhai engine offers to scripts, the slot
  that holds the application's interface while a script runs, and the \<^verbatim>\<open>AppRuntime\<close>
  implementation. The engine itself is a parameter: a function from source text to a \<open>script\<close>, the
  tree of the host calls that evaluating the text makes, with a branch for every answer. The trees
  are well-founded because the engine is limited to \<^verbatim>\<open>MAX_OPERATIONS\<close> operations.
\<close>

section \<open>Values\<close>

text \<open>The dynamic values that cross the boundary; \<^verbatim>\<open>INT\<close> is \<^verbatim>\<open>i64\<close>. A map is ordered by its keys.\<close>

datatype dynamic =
    DUnit
  | DBool bool
  | DInt int
  | DString string
  | DArray "dynamic list"
  | DMap "(string, dynamic) btree_map"

definition i64_max :: int where "i64_max = 2 ^ 63 - 1"

definition optional_string :: "string option \<Rightarrow> dynamic" where
  "optional_string value = (case value of None \<Rightarrow> DUnit | Some s \<Rightarrow> DString s)"

definition int_from_nat :: "string \<Rightarrow> nat \<Rightarrow> int res" where
  "int_from_nat message n = (if int n \<le> i64_max then Ok (int n) else Err (ResourceLimit message))"

definition net_handle_to_int :: "u64 \<Rightarrow> int res" where
  "net_handle_to_int handle = int_from_nat ''connection handle exceeds Rhai integer'' (unat handle)"

definition net_handle_from_int :: "int \<Rightarrow> u64 res" where
  "net_handle_from_int handle = (if 0 \<le> handle then Ok (word_of_int handle)
     else Err (InvalidInput ''invalid connection handle''))"

text \<open>\<^verbatim>\<open>String::from_utf8_lossy\<close>: each maximal piece that cannot start or continue a
  character becomes \<^verbatim>\<open>U+FFFD\<close>. \<open>utf8_step\<close> gives the length of the first piece and whether it is a
  character.\<close>

definition cont_at :: "string \<Rightarrow> nat \<Rightarrow> bool" where
  "cont_at s i \<longleftrightarrow> i < length s \<and> is_cont (s ! i)"

definition second_ok :: "char \<Rightarrow> string \<Rightarrow> bool" where
  "second_ok a s \<longleftrightarrow> cont_at s 0 \<and>
     (code a = 0xE0 \<longrightarrow> 0xA0 \<le> code (s ! 0)) \<and> (code a = 0xED \<longrightarrow> code (s ! 0) \<le> 0x9F) \<and>
     (code a = 0xF0 \<longrightarrow> 0x90 \<le> code (s ! 0)) \<and> (code a = 0xF4 \<longrightarrow> code (s ! 0) \<le> 0x8F)"

definition utf8_step :: "char \<Rightarrow> string \<Rightarrow> nat \<times> bool" where
  "utf8_step a s =
     (if code a < 0x80 then (1, True)
      else if 0xC2 \<le> code a \<and> code a \<le> 0xDF then (if cont_at s 0 then (2, True) else (1, False))
      else if 0xE0 \<le> code a \<and> code a \<le> 0xEF then
        (if \<not> second_ok a s then (1, False) else if cont_at s 1 then (3, True) else (2, False))
      else if 0xF0 \<le> code a \<and> code a \<le> 0xF4 then
        (if \<not> second_ok a s then (1, False) else if \<not> cont_at s 1 then (2, False)
         else if cont_at s 2 then (4, True) else (3, False))
      else (1, False))"

function lossy :: "string \<Rightarrow> string" where
  "lossy [] = []"
| "lossy (a # s) = (case utf8_step a s of (n, valid) \<Rightarrow>
     (if valid then a # take (n - 1) s else [CHR 0xEF, CHR 0xBF, CHR 0xBD]) @ lossy (drop (n - 1) s))"
  by pat_completeness auto
termination
  by (relation "measure length") auto

definition from_utf8_lossy :: "bytes \<Rightarrow> string" where
  "from_utf8_lossy bs = lossy (map char_of_byte bs)"

section \<open>The interface slot\<close>

type_synonym 'a slot = "'a option"

definition with_api :: "'a slot \<Rightarrow> ('a \<Rightarrow> ('a, 't) outcome) \<Rightarrow> ('a slot, 't) outcome" where
  "with_api slot operation = (case slot of
       None \<Rightarrow> Some (Err (Runtime ''missing AFOS API context''), None)
     | Some a \<Rightarrow> on_field (operation a) Some)"

definition install :: "'a \<Rightarrow> 'a slot \<Rightarrow> 'a slot res" where
  "install a slot = (if slot \<noteq> None then Err (Runtime ''nested Rhai execution is not supported'')
     else Ok (Some a))"

section \<open>Host functions\<close>

datatype host_call =
    On_print string
  | On_debug "string option" string string
  | On_progress
  | Print_raw string
  | Read_line string
  | Args
  | Cwd
  | Fs_read string
  | Fs_write string string
  | Fs_list string
  | Fs_mkdir string
  | Fs_remove string
  | Fs_rename string string
  | Appdata_read string
  | Appdata_write string string
  | Monotonic_millis
  | System_info
  | Net_status
  | Net_connect string int
  | Net_send int string
  | Net_recv int int
  | Net_close int

type_synonym answer = "string + dynamic"

text \<open>\<^verbatim>\<open>map_err(rhai_error)\<close>: the script sees an error as its message.\<close>

definition rhai_result :: "('t \<Rightarrow> dynamic) \<Rightarrow> ('a slot, 't) outcome \<Rightarrow> (answer \<times> 'a slot) option" where
  "rhai_result f m = map_option (\<lambda>(r, slot).
     (case r of Inl e \<Rightarrow> Inl (display_error e) | Inr x \<Rightarrow> Inr (f x), slot)) m"

definition rhai_err :: "error \<Rightarrow> 'a slot \<Rightarrow> (answer \<times> 'a slot) option" where
  "rhai_err e slot = Some (Inl (display_error e), slot)"

text \<open>A callback whose error is dropped.\<close>

definition ignored :: "('a slot, 't) outcome \<Rightarrow> (answer \<times> 'a slot) option" where
  "ignored m = map_option (\<lambda>(_, slot). (Inr DUnit, slot)) m"

definition pure_check :: "('t \<Rightarrow> 'u res) \<Rightarrow> ('s, 't) outcome \<Rightarrow> ('s, 'u) outcome" where
  "pure_check f m = map_option (\<lambda>(r, s). (and_then r f, s)) m"

definition entry_label :: "storage_entry \<Rightarrow> dynamic" where
  "entry_label entry = DString (if entry_is_dir entry then entry_name entry @ ''/'' else entry_name entry)"

definition info_map :: "system_info \<Rightarrow> dynamic" where
  "info_map info = DMap (map_insert ''architecture'' (DString (info_architecture info))
     (map_insert ''platform'' (DString (info_platform info))
     (map_insert ''version'' (DString (info_version info))
     (map_insert ''name'' (DString (info_name info)) []))))"

definition status_map :: "net_status \<Rightarrow> dynamic" where
  "status_map status = DMap (map_insert ''gateway'' (optional_string (gateway status))
     (map_insert ''address'' (optional_string (address status))
     (map_insert ''mac'' (DString (mac status))
     (map_insert ''link_up'' (DBool (link_up status)) []))))"

definition unit_value :: "unit \<Rightarrow> dynamic" where
  "unit_value u = DUnit"

fun host_function :: "'a system_api \<Rightarrow> host_call \<Rightarrow> 'a slot \<Rightarrow> (answer \<times> 'a slot) option" where
  "host_function api (On_print text) slot = ignored (with_api slot (\<lambda>a.
     bind (api_console_write api a text) (\<lambda>_ a. api_console_write api a [newline])))"
| "host_function api (On_debug source position text) slot = ignored (with_api slot (\<lambda>a.
     api_console_write api a (''[debug '' @ (case source of None \<Rightarrow> ''<script>'' | Some name \<Rightarrow> name) @ '':'' @ position @ ''] '' @ text @ [newline])))"
| "host_function api On_progress slot = map_option (\<lambda>(r, slot).
     (Inr (if r = Inr True then DString ''execution cancelled'' else DUnit), slot))
     (with_api slot (\<lambda>a. map_option (\<lambda>(cancelled, a). (Ok cancelled, a)) (api_cancelled api a)))"
| "host_function api (Print_raw text) slot = rhai_result unit_value (with_api slot (\<lambda>a. api_console_write api a text))"
| "host_function api (Read_line prompt) slot = rhai_result DString (with_api slot (\<lambda>a. api_console_read_line api a prompt))"
| "host_function api Args slot = rhai_result (\<lambda>args. DArray (map DString args)) (with_api slot (\<lambda>a. Some (Ok (api_args api a), a)))"
| "host_function api Cwd slot = rhai_result DString (with_api slot (\<lambda>a. Some (Ok (api_cwd api a), a)))"
| "host_function api (Fs_read path) slot = rhai_result DString (with_api slot (\<lambda>a. api_read_text api a path))"
| "host_function api (Fs_write path text) slot = rhai_result unit_value (with_api slot (\<lambda>a. api_write_text api a path text))"
| "host_function api (Fs_list path) slot = rhai_result (\<lambda>entries. DArray (map entry_label entries)) (with_api slot (\<lambda>a. api_list api a path))"
| "host_function api (Fs_mkdir path) slot = rhai_result unit_value (with_api slot (\<lambda>a. api_create_dir_all api a path))"
| "host_function api (Fs_remove path) slot = rhai_result unit_value (with_api slot (\<lambda>a. api_remove api a path))"
| "host_function api (Fs_rename from to) slot = rhai_result unit_value (with_api slot (\<lambda>a. api_rename api a from to))"
| "host_function api (Appdata_read path) slot = rhai_result DString (with_api slot (\<lambda>a. api_appdata_read api a path))"
| "host_function api (Appdata_write path text) slot = rhai_result unit_value (with_api slot (\<lambda>a. api_appdata_write api a path text))"
| "host_function api Monotonic_millis slot = rhai_result DInt
     (pure_check (\<lambda>t. int_from_nat ''clock value exceeds Rhai integer'' (unat t))
       (with_api slot (\<lambda>a. api_monotonic_millis api a)))"
| "host_function api System_info slot = rhai_result info_map (with_api slot (\<lambda>a. api_system_info api a))"
| "host_function api Net_status slot = rhai_result status_map (with_api slot (\<lambda>a. api_net_status api a))"
| "host_function api (Net_connect host_name port) slot =
     (if \<not> (0 \<le> port \<and> port < 2 ^ 16) then rhai_err (InvalidInput ''port is out of range'') slot
      else rhai_result DInt (pure_check net_handle_to_int
        (with_api slot (\<lambda>a. api_net_connect api a host_name (word_of_int port)))))"
| "host_function api (Net_send handle text) slot = (case net_handle_from_int handle of
       Inl e \<Rightarrow> rhai_err e slot
     | Inr h \<Rightarrow> rhai_result DInt (pure_check (int_from_nat ''byte count exceeds Rhai integer'')
         (with_api slot (\<lambda>a. api_net_send api a h (as_bytes text)))))"
| "host_function api (Net_recv handle n) slot = (case net_handle_from_int handle of
       Inl e \<Rightarrow> rhai_err e slot
     | Inr h \<Rightarrow> if n < 0 then rhai_err (InvalidInput ''invalid receive length'') slot
         else rhai_result (\<lambda>bs. DString (from_utf8_lossy bs)) (with_api slot (\<lambda>a. api_net_recv api a h (nat n))))"
| "host_function api (Net_close handle) slot = (case net_handle_from_int handle of
       Inl e \<Rightarrow> rhai_err e slot
     | Inr h \<Rightarrow> rhai_result unit_value (with_api slot (\<lambda>a. api_net_close api a h)))"

section \<open>Execution\<close>

datatype script =
    Finish answer
  | Invoke host_call "answer \<Rightarrow> script"

primrec run :: "'a system_api \<Rightarrow> script \<Rightarrow> 'a slot \<Rightarrow> (answer \<times> 'a slot) option" where
  "run api (Finish result) slot = Some (result, slot)"
| "run api (Invoke call k) slot = (case host_function api call slot of
       None \<Rightarrow> None
     | Some (reply, slot') \<Rightarrow> run api (k reply) slot')"

definition exit_status :: "answer \<Rightarrow> int res" where
  "exit_status result = (case result of
       Inl message \<Rightarrow> Err (Runtime message)
     | Inr DUnit \<Rightarrow> Ok 0
     | Inr (DInt i) \<Rightarrow> if - (2 ^ 31) \<le> i \<and> i < 2 ^ 31 then Ok i
         else Err (Runtime ''application must return an integer exit status'')
     | Inr _ \<Rightarrow> Err (Runtime ''application must return an integer exit status''))"

text \<open>The whole of \<^verbatim>\<open>execute\<close>, on the slot and the application's interface; dropping the guard
  empties the slot on every way out.\<close>

definition rhai_execute ::
  "(string \<Rightarrow> script) \<Rightarrow> string \<Rightarrow> 'a system_api \<Rightarrow> 'a slot \<Rightarrow> 'a \<Rightarrow> (int res \<times> 'a slot \<times> 'a) option" where
  "rhai_execute engine source api slot a = (case install a slot of
       Inl e \<Rightarrow> Some (Err e, slot, a)
     | Inr slot' \<Rightarrow> (case run api (engine source) slot' of
         None \<Rightarrow> None
       | Some (result, slot'') \<Rightarrow> Some (exit_status result, None,
           case slot'' of None \<Rightarrow> a | Some b \<Rightarrow> b)))"

definition rhai_runtime :: "(string \<Rightarrow> script) \<Rightarrow> 'a app_runtime" where
  "rhai_runtime engine = \<lparr>runtime_id = ''rhai'', runtime_extension = ''rhai'',
     runtime_execute = (\<lambda>source api a. map_option (\<lambda>(r, _, b). (r, b)) (rhai_execute engine source api None a))\<rparr>"

section \<open>A script acts only through the interface\<close>

text \<open>A call on a filled slot leaves it filled, with a state that the law relates to the old one.\<close>

definition slot_obeys :: "('a \<Rightarrow> 'a \<Rightarrow> bool) \<Rightarrow> 'a \<Rightarrow> ('r \<times> 'a slot) option \<Rightarrow> bool" where
  "slot_obeys R a m \<longleftrightarrow> (\<forall>r slot. m = Some (r, slot) \<longrightarrow> (\<exists>b. slot = Some b \<and> R a b))"

lemma slot_with_api: "obeys R a (operation a) \<Longrightarrow> slot_obeys R a (with_api (Some a) operation)"
  by (auto simp: slot_obeys_def with_api_def obeys_def)

lemma slot_results:
  "slot_obeys R a m \<Longrightarrow> slot_obeys R a (rhai_result f m)"
  "slot_obeys R a m \<Longrightarrow> slot_obeys R a (ignored m)"
  "slot_obeys R a m' \<Longrightarrow> slot_obeys R a (pure_check g m')"
  "reflp R \<Longrightarrow> slot_obeys R a (rhai_err e (Some a))"
  by (auto simp: slot_obeys_def rhai_result_def ignored_def pure_check_def rhai_err_def reflp_def)

lemma obeys_return: "reflp R \<Longrightarrow> obeys R a (Some (r, a))"
  by (simp add: obeys_def reflp_def)

lemma obeys_bind:
  "transp R \<Longrightarrow> obeys R a m \<Longrightarrow> (\<And>x b. obeys R b (k x b)) \<Longrightarrow> obeys R a (bind m k)"
  unfolding obeys_def by (blast elim: bind_SomeE dest: transpD)

lemma host_obeys:
  assumes "reflp R" "transp R" "api_obeys R api"
  shows "slot_obeys R a (host_function api call (Some a))"
proof (cases call)
  case On_progress
  have "slot_obeys R a (with_api (Some a)
      (\<lambda>a. map_option (\<lambda>(cancelled, a). (Ok cancelled, a)) (api_cancelled api a)))"
    using assms(3) by (intro slot_with_api) (auto simp: api_obeys_def obeys_def)
  then show ?thesis using On_progress by (auto simp: slot_obeys_def)
qed (use assms(3) in \<open>auto intro!: slot_results slot_with_api obeys_return obeys_bind assms(1,2)
       split: sum.split simp: api_obeys_def\<close>)

lemma run_obeys:
  assumes "reflp R" "transp R" "api_obeys R api"
  shows "slot_obeys R a (run api script (Some a))"
proof (induction script arbitrary: a)
  case (Finish result)
  then show ?case using assms(1) by (simp add: slot_obeys_def reflp_def)
next
  case (Invoke call k)
  show ?case unfolding slot_obeys_def
  proof (intro allI impI)
    fix r slot assume go: "run api (Invoke call k) (Some a) = Some (r, slot)"
    then obtain reply slot1 where one: "host_function api call (Some a) = Some (reply, slot1)"
      and rest: "run api (k reply) slot1 = Some (r, slot)" by (auto split: option.splits)
    then obtain b where b: "slot1 = Some b" "R a b"
      using host_obeys [OF assms, of a call] by (auto simp: slot_obeys_def)
    then obtain c where "slot = Some c" "R b c"
      using Invoke.IH [of "k reply" b] rest by (auto simp: slot_obeys_def)
    then show "\<exists>b. slot = Some b \<and> R a b" using b(2) assms(2) by (blast dest: transpD)
  qed
qed

interpretation rhai: sandboxed_runtime "rhai_runtime engine"
proof
  fix R :: "'a \<Rightarrow> 'a \<Rightarrow> bool" and api a source
  assume "reflp R" "transp R" "api_obeys R api"
  then have "slot_obeys R a (run api (engine source) (Some a))" by (rule run_obeys)
  then show "obeys R a (runtime_execute (rhai_runtime engine) source api a)"
    by (auto simp: obeys_def slot_obeys_def rhai_runtime_def rhai_execute_def install_def split: option.splits)
qed

section \<open>Properties\<close>

text \<open>An execution that starts with the slot empty leaves it empty, whatever the script does and
  whether it fails or not, so executions never meet a stale interface; one that starts while another
  is under way is refused and touches neither the slot nor the application.\<close>

theorem rhai_slot_discipline:
  "(rhai_execute engine source api None a = Some (r, slot, b) \<longrightarrow> slot = None)
   \<and> rhai_execute engine source api (Some c) a
       = Some (Err (Runtime ''nested Rhai execution is not supported''), Some c, a)"
  by (auto simp: rhai_execute_def install_def split: option.splits)

theorem rhai_slot_discipline_witness:
  "\<exists>api :: nat system_api. rhai_execute (\<lambda>_. Finish (Inr (DInt 3))) ''3'' api None 0 = Some (Ok 3, None, 0)"
proof -
  fix api :: "nat system_api"
  have "rhai_execute (\<lambda>_. Finish (Inr (DInt 3))) ''3'' api None 0 = Some (Ok 3, None, 0)"
    by (simp add: rhai_execute_def install_def exit_status_def)
  moreover have "None = (None :: nat slot)"
    using rhai_slot_discipline [of "\<lambda>_. Finish (Inr (DInt 3))" "''3''" api 0 "Ok 3" None 0] by simp
  ultimately show ?thesis by blast
qed

lemma utf8_step_append:
  assumes "well_formed_char (a # t)"
  shows "utf8_step a (t @ s) = (Suc (length t), True)"
proof -
  consider "t = []" | b where "t = [b]" | b c where "t = [b, c]" | b c d where "t = [b, c, d]"
    using assms by (cases "a # t" rule: well_formed_char.cases) auto
  then show ?thesis
  proof cases
    case 1
    then show ?thesis using assms by (simp add: utf8_step_def)
  next
    case 2
    then show ?thesis using assms by (simp add: utf8_step_def cont_at_def)
  next
    case 3
    then have "\<not> code a < 0x80" "\<not> code a \<le> 0xDF" "0xE0 \<le> code a" "code a \<le> 0xEF" "second_ok a (t @ s)"
      using assms by (auto simp: second_ok_def cont_at_def is_cont_def)
    then show ?thesis using 3 assms by (simp add: utf8_step_def cont_at_def)
  next
    case 4
    then have "\<not> code a < 0x80" "\<not> code a \<le> 0xDF" "\<not> code a \<le> 0xEF" "0xF0 \<le> code a" "code a \<le> 0xF4" "second_ok a (t @ s)"
      using assms by (auto simp: second_ok_def cont_at_def is_cont_def)
    then show ?thesis using 4 assms by (simp add: utf8_step_def cont_at_def)
  qed
qed

lemma lossy_valid: "valid_utf8 s \<Longrightarrow> lossy s = s"
proof (induction s rule: chars.induct)
  case (2 c s)
  let ?t = "take (utf8_width c - 1) s" and ?r = "drop (utf8_width c - 1) s"
  have wf: "well_formed_char (c # ?t)" and rest: "lossy ?r = ?r"
    using 2 by (simp_all add: valid_utf8_def)
  have "utf8_step c (?t @ ?r) = (Suc (length ?t), True)" using wf by (rule utf8_step_append)
  then have "utf8_step c s = (Suc (length ?t), True)" by simp
  then have "lossy (c # s) = c # take (length ?t) s @ lossy (drop (length ?t) s)" by simp
  moreover have "drop (length ?t) s = ?r" "take (length ?t) s = ?t" by (simp_all add: min_def)
  ultimately show ?case using rest by (simp del: lossy.simps)
qed simp

text \<open>Handles and text survive the boundary to scripts. The integer that a script gets for a
  connection denotes the same connection when the script passes it back, and received bytes that
  are valid UTF-8 arrive as exactly that text.\<close>

theorem script_boundary_round_trip:
  "(net_handle_to_int h = Ok i \<longrightarrow> net_handle_from_int i = Ok h)
   \<and> (valid_utf8 s \<longrightarrow> from_utf8_lossy (as_bytes s) = s)"
proof (intro conjI impI)
  assume "net_handle_to_int h = Ok i"
  then have "i = int (unat h)" by (auto simp: net_handle_to_int_def int_from_nat_def split: if_splits)
  then show "net_handle_from_int i = Ok h" by (simp add: net_handle_from_int_def)
qed (simp add: from_utf8_lossy_def lossy_valid)

theorem script_boundary_round_trip_witness:
  "net_handle_to_int 5 = Ok 5 \<and> net_handle_from_int 5 = Ok 5 \<and> valid_utf8 ''abc''
   \<and> from_utf8_lossy (as_bytes ''abc'') = ''abc''"
proof -
  have h: "net_handle_to_int 5 = Ok 5" by (simp add: net_handle_to_int_def int_from_nat_def i64_max_def)
  have v: "valid_utf8 ''abc''" by code_simp
  show ?thesis using h v script_boundary_round_trip [of 5 5 "''abc''"] by blast
qed

end
