(* ===== verification/Tree_Shape.thy ===== *)
theory Tree_Shape
  imports Vfs
begin

text \<open>
  The order of storage paths by \<open>at_or_below\<close> (the prefix order on their components) and the shape
  every file tree of the bare-metal platform keeps: names are proper storage paths, everything
  strictly above a name is a directory, and no name is both a file and a directory. The lemmas say
  how inserting, removing and moving names keeps that shape; \<open>Bare_Platform\<close> applies them to the
  storage operations of \<^verbatim>\<open>platforms/bare-metal/src/platform.rs\<close>.
\<close>

section \<open>Paths as component lists\<close>

lemma split_on_append: "split_on c (a @ c # r) = split_on c a @ split_on c r"
proof (induction a)
  case (Cons x a)
  then show ?case by (cases "split_on c a") auto
qed simp

lemma split_on_inject [simp]: "split_on c a = split_on c b \<longleftrightarrow> a = b"
  by (metis join_split_on)

lemma at_or_below_split: "at_or_below a q \<longleftrightarrow> prefix (split_on slash a) (split_on slash q)"
proof
  assume "at_or_below a q"
  then show "prefix (split_on slash a) (split_on slash q)"
    by (auto simp: at_or_below_def starts_with_iff split_on_append)
next
  assume "prefix (split_on slash a) (split_on slash q)"
  then obtain es where es: "split_on slash q = split_on slash a @ es" by (auto simp: prefix_def)
  have "q = (if es = [] then a else a @ slash # join slash es)"
    using join_split_on [of slash q] join_append [of "split_on slash a" es slash]
    by (auto simp: es)
  then show "at_or_below a q" by (auto simp: at_or_below_def starts_with_iff)
qed

lemma at_or_below_antisym: "at_or_below a b \<Longrightarrow> at_or_below b a \<Longrightarrow> a = b"
  by (auto simp: at_or_below_split dest: prefix_order.antisym)

lemma at_or_below_linear: "at_or_below a q \<Longrightarrow> at_or_below b q \<Longrightarrow> at_or_below a b \<or> at_or_below b a"
  using prefix_same_cases by (auto simp: at_or_below_split)

lemma at_or_below_append: "at_or_below a (a @ s) \<longleftrightarrow> s = [] \<or> starts_with ''/'' s"
  by (auto simp: at_or_below_def starts_with_iff)

text \<open>What lies at or below a path is that path followed by nothing or by a slash and more.\<close>

lemma at_or_belowE:
  assumes "at_or_below a q"
  obtains s where "q = a @ s" "s = [] \<or> starts_with ''/'' s"
  using assms by (auto simp: at_or_below_def starts_with_iff)

lemma storage_path_at_or_below:
  "storage_path q \<Longrightarrow> at_or_below a q \<Longrightarrow> storage_path a"
  by (auto simp: storage_path_def at_or_below_split prefix_def)

lemma storage_path_not_Nil: "storage_path q \<Longrightarrow> q \<noteq> []"
  by (auto simp: storage_path_def)

lemma storage_path_transplant:
  assumes "storage_path to" "storage_path (from @ s)" "s = [] \<or> starts_with ''/'' s"
  shows "storage_path (to @ s)"
  using assms by (auto simp: storage_path_def starts_with_iff split_on_append)

section \<open>The shape of a tree\<close>

text \<open>File and directory names are proper storage paths, no name is both, and whatever lies strictly
  above a name is a directory.\<close>

definition shape :: "string set \<Rightarrow> string set \<Rightarrow> bool" where
  "shape F D \<longleftrightarrow> F \<inter> D = {} \<and> (\<forall>q\<in>F \<union> D. storage_path q \<and> (\<forall>a. at_or_below a q \<and> a \<noteq> q \<longrightarrow> a \<in> D))"

definition above :: "string \<Rightarrow> string set" where
  "above path = {a. at_or_below a path \<and> a \<noteq> path}"

lemma shape_above: "shape F D \<Longrightarrow> q \<in> F \<union> D \<Longrightarrow> at_or_below a q \<Longrightarrow> a = q \<or> a \<in> D"
  by (auto simp: shape_def)

lemma shape_file_leaf: "shape F D \<Longrightarrow> f \<in> F \<Longrightarrow> q \<in> F \<union> D \<Longrightarrow> at_or_below f q \<Longrightarrow> q = f"
  by (auto simp: shape_def)

lemma above_above: "a \<in> above b \<Longrightarrow> above a \<subseteq> above b"
  using at_or_below_trans at_or_below_antisym by (fastforce simp: above_def)

lemma shape_add_directories:
  assumes "shape F D" "storage_path path" "above path \<inter> F = {}"
  shows "shape F (D \<union> above path)"
proof -
  have "storage_path a" "\<And>b. at_or_below b a \<Longrightarrow> b \<noteq> a \<Longrightarrow> b \<in> above path" if "a \<in> above path" for a
    using that storage_path_at_or_below [OF assms(2)] above_above [OF that] by (auto simp: above_def)
  then show ?thesis using assms(1,3) by (auto simp: shape_def)
qed

lemma shape_insert_directory:
  assumes "shape F D" "storage_path path" "above path \<subseteq> D" "path \<notin> F"
  shows "shape F (insert path D)"
  using assms by (auto simp: shape_def above_def)

lemma shape_insert_file:
  assumes "shape F D" "storage_path path" "above path \<subseteq> D" "path \<notin> D"
  shows "shape (insert path F) D"
  using assms by (auto simp: shape_def above_def)

lemma shape_remove_file: "shape F D \<Longrightarrow> shape (F - A) D"
  by (auto simp: shape_def)

lemma shape_remove_below:
  assumes "shape F D"
  shows "shape {q\<in>F. \<not> at_or_below path q} {q\<in>D. \<not> at_or_below path q}"
  using assms at_or_below_trans by (auto simp: shape_def)

text \<open>Moving everything at or below \<open>from\<close> to a free place whose parents are directories.\<close>

definition relocated :: "string \<Rightarrow> string \<Rightarrow> string set \<Rightarrow> string set" where
  "relocated from to S = {q\<in>S. \<not> at_or_below from q} \<union> {to @ s |s. from @ s \<in> S \<and> (s = [] \<or> starts_with ''/'' s)}"

lemma relocatedE:
  assumes "q \<in> relocated from to S"
  obtains (stay) "q \<in> S" "\<not> at_or_below from q"
  | (move) s where "q = to @ s" "from @ s \<in> S" "s = [] \<or> starts_with ''/'' s" "at_or_below to q"
  using assms by (auto simp: relocated_def at_or_below_append)

lemma relocated_stay: "q \<in> S \<Longrightarrow> \<not> at_or_below from q \<Longrightarrow> q \<in> relocated from to S"
  by (simp add: relocated_def)

lemma relocated_move: "from @ s \<in> S \<Longrightarrow> s = [] \<or> starts_with ''/'' s \<Longrightarrow> to @ s \<in> relocated from to S"
  by (auto simp: relocated_def)

lemma at_or_below_transplant:
  assumes "at_or_below (to @ s') (to @ s)"
  shows "at_or_below (from @ s') (from @ s)"
  using assms by (auto simp: at_or_below_def starts_with_iff)

lemma relocated_Un: "relocated from to (S \<union> T) = relocated from to S \<union> relocated from to T"
  unfolding relocated_def by blast

lemma shape_path: "shape F D \<Longrightarrow> q \<in> F \<union> D \<Longrightarrow> storage_path q"
  by (simp add: shape_def)

lemma relocated_up:
  assumes shape: "shape F D" and to: "above to \<subseteq> D" and apart: "\<not> at_or_below from to"
    and q: "q \<in> relocated from to (F \<union> D)" "at_or_below a q" "a \<noteq> q"
  shows "a \<in> relocated from to D"
  using q(1)
proof (cases rule: relocatedE)
  case stay
  then have "a \<in> D" using shape_above [OF shape stay(1) q(2)] q(3) by blast
  moreover have "\<not> at_or_below from a" using stay(2) at_or_below_trans [OF _ q(2)] by blast
  ultimately show ?thesis by (rule relocated_stay)
next
  case (move s)
  show ?thesis
  proof (cases "at_or_below to a")
    case True
    then obtain s' where s': "a = to @ s'" "s' = [] \<or> starts_with ''/'' s'" by (rule at_or_belowE)
    with q(2) move(1) have "at_or_below (to @ s') (to @ s)" by simp
    then have "at_or_below (from @ s') (from @ s)" by (rule at_or_below_transplant)
    moreover have "from @ s' \<noteq> from @ s" using q(3) move(1) s'(1) by simp
    ultimately have "from @ s' \<in> D" using shape_above [OF shape move(2)] by blast
    then show ?thesis unfolding s'(1) using s'(2) by (rule relocated_move)
  next
    case False
    then have "at_or_below a to" using at_or_below_linear [OF q(2) move(4)] by blast
    moreover from this False have "a \<noteq> to" by auto
    ultimately have "a \<in> D" using to by (auto simp: above_def)
    moreover have "\<not> at_or_below from a" using apart at_or_below_trans [OF _ \<open>at_or_below a to\<close>] by blast
    ultimately show ?thesis by (rule relocated_stay)
  qed
qed

lemma relocated_disjoint:
  assumes "F \<inter> D = {}" and free: "\<And>q. q \<in> F \<union> D \<Longrightarrow> \<not> at_or_below to q"
  shows "relocated from to F \<inter> relocated from to D = {}"
proof (rule equals0I)
  fix q assume "q \<in> relocated from to F \<inter> relocated from to D"
  then have F: "q \<in> relocated from to F" and D: "q \<in> relocated from to D" by simp_all
  from F show False
  proof (cases rule: relocatedE)
    case stay
    from D show False by (cases rule: relocatedE) (use stay assms(1) free [of q] in blast)+
  next
    case (move s)
    from D show False
    proof (cases rule: relocatedE)
      case stay
      then show False using free [of q] move(4) by blast
    next
      case (move t)
      then show False using \<open>q = to @ s\<close> \<open>from @ s \<in> F\<close> assms(1) by auto
    qed
  qed
qed

lemma shape_move:
  assumes shape: "shape F D" and to: "storage_path to" "above to \<subseteq> D" "to \<notin> F \<union> D"
    and apart: "\<not> at_or_below from to"
  shows "shape (relocated from to F) (relocated from to D)"
proof -
  have "\<not> at_or_below to q" if "q \<in> F \<union> D" for q
    using shape_above [OF shape that] to(3) that by blast
  then have "relocated from to F \<inter> relocated from to D = {}"
    using shape by (intro relocated_disjoint) (simp_all add: shape_def)
  moreover have "storage_path q" if "q \<in> relocated from to (F \<union> D)" for q
    using that
  proof (cases rule: relocatedE)
    case stay
    then show ?thesis using shape_path [OF shape] by blast
  next
    case (move s)
    then show ?thesis using storage_path_transplant [OF to(1) shape_path [OF shape move(2)] move(3)] by simp
  qed
  ultimately show ?thesis
    unfolding shape_def relocated_Un [symmetric] using relocated_up [OF shape to(2) apart] by blast
qed

end
