(* ===== verification/Storage.thy ===== *)
theory Storage
  imports Rust_Str BTree
begin

unbundle bit_operations_syntax

text \<open>
  \<^verbatim>\<open>crates/afos-storage/src/lib.rs\<close>: the file tree, its byte encoding, and the two-slot
  checksummed snapshot store on a block device. \<^verbatim>\<open>usize\<close> is 64 bits wide on every target
  that uses this crate, so \<^verbatim>\<open>usize::try_from\<close> of a \<^verbatim>\<open>u64\<close> never fails; lengths
  and cursors are natural numbers and the one addition that checks for overflow is written out.
  The \<^verbatim>\<open>BlockDevice\<close> trait is a record of its methods, its contract the locale
  \<open>block_contract\<close>, interpreted on the crate's \<^verbatim>\<open>MemoryDevice\<close>.
\<close>

section \<open>Devices, trees, errors\<close>

abbreviation BLOCK_SIZE :: nat where "BLOCK_SIZE \<equiv> 512"
abbreviation HEADER_SIZE :: nat where "HEADER_SIZE \<equiv> 512"
abbreviation MAX_PATH_LEN :: nat where "MAX_PATH_LEN \<equiv> 4096"
abbreviation MAX_ENTRY_COUNT :: nat where "MAX_ENTRY_COUNT \<equiv> 100000"

definition MAGIC :: bytes where "MAGIC = as_bytes ''AFOSFS01''"
definition FORMAT_VERSION :: u32 where "FORMAT_VERSION = 1"

datatype storage_error =
    Device string
  | DeviceTooSmall
  | SnapshotTooLarge
  | CorruptSnapshot
  | UnsupportedVersion u32

fun display_storage_error :: "storage_error \<Rightarrow> string" where
  "display_storage_error (Device message) = ''block device: '' @ message"
| "display_storage_error DeviceTooSmall = ''block device is too small''"
| "display_storage_error SnapshotTooLarge = ''filesystem snapshot is too large''"
| "display_storage_error CorruptSnapshot = ''filesystem snapshot is corrupt''"
| "display_storage_error (UnsupportedVersion version) =
     ''unsupported filesystem version '' @ show_nat (unat version)"

type_synonym 'a sres = "storage_error + 'a"

record 'd block_device =
  block_count :: "'d \<Rightarrow> u64"
  read_blocks :: "'d \<Rightarrow> u64 \<Rightarrow> nat \<Rightarrow> (bytes sres \<times> 'd) option"
  write_blocks :: "'d \<Rightarrow> u64 \<Rightarrow> bytes \<Rightarrow> (unit sres \<times> 'd) option"
  flush :: "'d \<Rightarrow> (unit sres \<times> 'd) option"

record file_tree =
  tree_files :: "(string, bytes) btree_map"
  tree_directories :: "string btree_set"

definition empty_tree :: file_tree where
  "empty_tree = \<lparr>tree_files = [], tree_directories = []\<rparr>"

record 'd snapshot_store =
  store_device :: 'd
  slot_blocks :: u64
  active_slot :: "u64 option"
  store_generation :: u64

record decoded_snapshot =
  snapshot_generation :: u64
  snapshot_tree :: file_tree

section \<open>Block arithmetic and checksum\<close>

definition div_ceil :: "nat \<Rightarrow> nat \<Rightarrow> nat" where
  "div_ceil n d = (n + d - 1) div d"

definition checksum_step :: "u8 \<Rightarrow> u64 \<Rightarrow> u64" where
  "checksum_step byte hash = (hash XOR ucast byte) * 0x00000100000001b3"

definition checksum :: "bytes \<Rightarrow> u64" where
  "checksum bs = fold checksum_step bs 0xcbf29ce484222325"

section \<open>Encoding\<close>

definition write_count :: "bytes \<Rightarrow> nat \<Rightarrow> bytes sres" where
  "write_count output count =
     (if count > MAX_ENTRY_COUNT then Err SnapshotTooLarge
      else if count > 2 ^ 32 - 1 then Err SnapshotTooLarge
      else Ok (output @ le_bytes 4 count))"

definition write_string :: "bytes \<Rightarrow> string \<Rightarrow> bytes sres" where
  "write_string output value =
     (if length value > MAX_PATH_LEN then Err SnapshotTooLarge
      else if length value > 2 ^ 32 - 1 then Err SnapshotTooLarge
      else Ok (output @ le_bytes 4 (length value) @ as_bytes value))"

fun write_directories :: "bytes \<Rightarrow> string list \<Rightarrow> bytes sres" where
  "write_directories output [] = Ok output"
| "write_directories output (path # paths) =
     and_then (write_string output path) (\<lambda>output. write_directories output paths)"

fun write_files :: "bytes \<Rightarrow> (string \<times> bytes) list \<Rightarrow> bytes sres" where
  "write_files output [] = Ok output"
| "write_files output ((path, data) # fs) =
     and_then (write_string output path) (\<lambda>output.
       if length data > 2 ^ 64 - 1 then Err SnapshotTooLarge
       else write_files (output @ le_bytes 8 (length data) @ data) fs)"

definition encode_tree :: "file_tree \<Rightarrow> bytes sres" where
  "encode_tree tree =
     and_then (write_count [] (length (tree_directories tree))) (\<lambda>output.
     and_then (write_directories output (tree_directories tree)) (\<lambda>output.
     and_then (write_count output (length (tree_files tree))) (\<lambda>output.
     write_files output (tree_files tree))))"

definition encode_header :: "u64 \<Rightarrow> u64 \<Rightarrow> u64 \<Rightarrow> bytes" where
  "encode_header generation payload_len payload_checksum =
     put_slice 32 (le_bytes 8 (unat payload_checksum))
     (put_slice 24 (le_bytes 8 (unat payload_len))
     (put_slice 16 (le_bytes 8 (unat generation))
     (put_slice 8 (le_bytes 4 (unat FORMAT_VERSION))
     (put_slice 0 MAGIC (replicate HEADER_SIZE 0)))))"

section \<open>Decoding\<close>

definition take_slice :: "bytes \<Rightarrow> nat \<Rightarrow> nat \<Rightarrow> (bytes \<times> nat) sres" where
  "take_slice input cursor len =
     (if cursor + len \<ge> 2 ^ 64 then Err CorruptSnapshot
      else if cursor + len \<le> length input
      then Ok (take len (drop cursor input), cursor + len)
      else Err CorruptSnapshot)"

definition take_u32 :: "bytes \<Rightarrow> nat \<Rightarrow> (u32 \<times> nat) sres" where
  "take_u32 input cursor = and_then (take_slice input cursor 4) (\<lambda>(bs, cursor).
     if length bs = 4 then Ok (word_of_nat (from_le bs), cursor) else Err CorruptSnapshot)"

definition take_u64 :: "bytes \<Rightarrow> nat \<Rightarrow> (u64 \<times> nat) sres" where
  "take_u64 input cursor = and_then (take_slice input cursor 8) (\<lambda>(bs, cursor).
     if length bs = 8 then Ok (word_of_nat (from_le bs), cursor) else Err CorruptSnapshot)"

definition read_u32 :: "bytes \<Rightarrow> nat \<Rightarrow> u32 sres" where
  "read_u32 input offset = and_then (take_u32 input offset) (\<lambda>(w, _). Ok w)"

definition read_u64 :: "bytes \<Rightarrow> nat \<Rightarrow> u64 sres" where
  "read_u64 input offset = and_then (take_u64 input offset) (\<lambda>(w, _). Ok w)"

definition read_count :: "bytes \<Rightarrow> nat \<Rightarrow> (nat \<times> nat) sres" where
  "read_count input cursor = and_then (take_u32 input cursor) (\<lambda>(count, cursor).
     if unat count > MAX_ENTRY_COUNT then Err CorruptSnapshot else Ok (unat count, cursor))"

definition read_string :: "bytes \<Rightarrow> nat \<Rightarrow> (string \<times> nat) sres" where
  "read_string input cursor = and_then (take_u32 input cursor) (\<lambda>(len, cursor).
     if unat len > MAX_PATH_LEN then Err CorruptSnapshot
     else and_then (take_slice input cursor (unat len)) (\<lambda>(bs, cursor).
       and_then (ok_or (from_utf8 bs) CorruptSnapshot) (\<lambda>s. Ok (s, cursor))))"

fun read_directories :: "nat \<Rightarrow> bytes \<Rightarrow> nat \<Rightarrow> string btree_set \<Rightarrow> (string btree_set \<times> nat) sres" where
  "read_directories 0 payload cursor directories = Ok (directories, cursor)"
| "read_directories (Suc n) payload cursor directories =
     and_then (read_string payload cursor) (\<lambda>(path, cursor).
       read_directories n payload cursor (set_insert path directories))"

fun read_files ::
  "nat \<Rightarrow> bytes \<Rightarrow> nat \<Rightarrow> (string, bytes) btree_map \<Rightarrow> ((string, bytes) btree_map \<times> nat) sres" where
  "read_files 0 payload cursor files = Ok (files, cursor)"
| "read_files (Suc n) payload cursor files =
     and_then (read_string payload cursor) (\<lambda>(path, cursor).
     and_then (take_u64 payload cursor) (\<lambda>(len, cursor).
     and_then (take_slice payload cursor (unat len)) (\<lambda>(data, cursor).
       read_files n payload cursor (map_insert path data files))))"

definition decode_tree :: "bytes \<Rightarrow> file_tree sres" where
  "decode_tree payload =
     and_then (read_count payload 0) (\<lambda>(directory_count, cursor).
     and_then (read_directories directory_count payload cursor []) (\<lambda>(directories, cursor).
     and_then (read_count payload cursor) (\<lambda>(file_count, cursor).
     and_then (read_files file_count payload cursor []) (\<lambda>(files, cursor).
       if cursor \<noteq> length payload then Err CorruptSnapshot
       else Ok \<lparr>tree_files = files, tree_directories = directories\<rparr>))))"

section \<open>The snapshot store\<close>

definition read_slot ::
  "'d block_device \<Rightarrow> 'd \<Rightarrow> u64 \<Rightarrow> u64 \<Rightarrow> (decoded_snapshot option sres \<times> 'd) option" where
  "read_slot D d slot blocks = (let slot_start = slot * blocks in
     bind (read_blocks D d slot_start HEADER_SIZE) (\<lambda>header d.
     if list_all (\<lambda>byte. byte = 0) header then Some (Ok None, d)
     else if take (length MAGIC) header \<noteq> MAGIC then Some (Ok None, d)
     else attempt (read_u32 header 8) d (\<lambda>version.
     if version \<noteq> FORMAT_VERSION then Some (Err (UnsupportedVersion version), d)
     else attempt (read_u64 header 16) d (\<lambda>generation.
     attempt (read_u64 header 24) d (\<lambda>payload_len.
     attempt (read_u64 header 32) d (\<lambda>expected_checksum.
     let payload_blocks = div_ceil (unat payload_len) BLOCK_SIZE in
     if payload_blocks > unat (blocks - 1) then Some (Ok None, d)
     else bind (if payload_blocks * BLOCK_SIZE = 0 then Some (Ok [], d)
                else read_blocks D d (slot_start + 1) (payload_blocks * BLOCK_SIZE))
       (\<lambda>padded d. let payload = take (unat payload_len) padded in
          if checksum payload \<noteq> expected_checksum then Some (Ok None, d)
          else attempt (decode_tree payload) d (\<lambda>tree.
            Some (Ok (Some \<lparr>snapshot_generation = generation, snapshot_tree = tree\<rparr>), d)))))))))"

definition select_slot ::
  "decoded_snapshot option \<Rightarrow> decoded_snapshot option \<Rightarrow> (u64 \<times> decoded_snapshot) option" where
  "select_slot first second = (case (first, second) of
       (Some left, Some right) \<Rightarrow>
         if snapshot_generation right > snapshot_generation left then Some (1, right) else Some (0, left)
     | (Some snapshot, None) \<Rightarrow> Some (0, snapshot)
     | (None, Some snapshot) \<Rightarrow> Some (1, snapshot)
     | (None, None) \<Rightarrow> None)"

definition snapshot_open ::
  "'d block_device \<Rightarrow> 'd \<Rightarrow> ('d snapshot_store \<times> file_tree option) sres option" where
  "snapshot_open D d = (let blocks = block_count D d div 2 in
     if blocks < 2 then Some (Err DeviceTooSmall)
     else map_option fst
       (bind (read_slot D d 0 blocks) (\<lambda>first d.
        bind (read_slot D d 1 blocks) (\<lambda>second d.
          let selected = select_slot first second in
          Some (Ok (\<lparr>store_device = d, slot_blocks = blocks,
              active_slot = map_option fst selected,
              store_generation = (case selected of None \<Rightarrow> 0 | Some (_, s) \<Rightarrow> snapshot_generation s)\<rparr>,
            map_option (snapshot_tree \<circ> snd) selected), d)))))"

definition snapshot_save ::
  "'d block_device \<Rightarrow> 'd snapshot_store \<Rightarrow> file_tree \<Rightarrow> (unit sres \<times> 'd snapshot_store) option" where
  "snapshot_save D store tree = attempt (encode_tree tree) store (\<lambda>payload.
     let payload_blocks = div_ceil (length payload) BLOCK_SIZE in
     if payload_blocks > unat (slot_blocks store - 1) then Some (Err SnapshotTooLarge, store)
     else
       let target_slot = (case active_slot store of None \<Rightarrow> 0 | Some slot \<Rightarrow> 1 - slot);
           slot_start = target_slot * slot_blocks store;
           padded = put_slice 0 payload (replicate (payload_blocks * BLOCK_SIZE) 0);
           put = (\<lambda>d. store\<lparr>store_device := d\<rparr>)
       in bind (on_field (if padded = [] then Some (Ok (), store_device store)
                   else write_blocks D (store_device store) (slot_start + 1) padded) put) (\<lambda>_ store.
          bind (on_field (flush D (store_device store)) put) (\<lambda>_ store.
          let generation' = saturating_add (store_generation store) 1;
              header = encode_header generation' (word_of_nat (length payload)) (checksum payload)
          in bind (on_field (write_blocks D (store_device store) slot_start header) put) (\<lambda>_ store.
             bind (on_field (flush D (store_device store)) put) (\<lambda>_ store.
             Some (Ok (), store\<lparr>active_slot := Some target_slot, store_generation := generation'\<rparr>))))))"

section \<open>The in-memory device of the crate's tests\<close>

definition memory_block_count :: "bytes \<Rightarrow> u64" where
  "memory_block_count blocks = word_of_nat (length blocks div BLOCK_SIZE)"

text \<open>A slice out of range panics.\<close>

definition memory_read_blocks :: "bytes \<Rightarrow> u64 \<Rightarrow> nat \<Rightarrow> (bytes sres \<times> bytes) option" where
  "memory_read_blocks blocks first_block len = (let start = unat first_block * BLOCK_SIZE in
     if start + len \<le> length blocks then Some (Ok (take len (drop start blocks)), blocks) else None)"

definition memory_write_blocks :: "bytes \<Rightarrow> u64 \<Rightarrow> bytes \<Rightarrow> (unit sres \<times> bytes) option" where
  "memory_write_blocks blocks first_block data = (let start = unat first_block * BLOCK_SIZE in
     if start + length data \<le> length blocks then Some (Ok (), put_slice start data blocks) else None)"

definition memory_device :: "bytes block_device" where
  "memory_device = \<lparr>block_count = memory_block_count, read_blocks = memory_read_blocks,
     write_blocks = memory_write_blocks, flush = (\<lambda>d. Some (Ok (), d))\<rparr>"

section \<open>Byte-level round trips\<close>

lemma take_slice_mid:
  assumes "length (pre @ data @ post) < 2 ^ 64"
  shows "take_slice (pre @ data @ post) (length pre) (length data)
    = Ok (data, length pre + length data)"
  using assms by (simp add: take_slice_def)

lemma take_u32_mid:
  assumes "length (pre @ le_bytes 4 n @ post) < 2 ^ 64" "n < 2 ^ 32"
  shows "take_u32 (pre @ le_bytes 4 n @ post) (length pre) = Ok (word_of_nat n, length pre + 4)"
  using take_slice_mid [OF assms(1)] assms(2) by (simp add: take_u32_def from_le_le_bytes)

lemma take_u64_mid:
  assumes "length (pre @ le_bytes 8 n @ post) < 2 ^ 64" "n < 2 ^ 64"
  shows "take_u64 (pre @ le_bytes 8 n @ post) (length pre) = Ok (word_of_nat n, length pre + 8)"
  using take_slice_mid [OF assms(1)] assms(2) by (simp add: take_u64_def from_le_le_bytes)

lemma read_count_mid:
  assumes "length (pre @ le_bytes 4 n @ post) < 2 ^ 64" "n \<le> MAX_ENTRY_COUNT"
  shows "read_count (pre @ le_bytes 4 n @ post) (length pre) = Ok (n, length pre + 4)"
proof -
  have "n < 2 ^ 32" using assms(2) by simp
  moreover have "unat (word_of_nat n :: u32) = n" using assms(2) by (simp add: unat_of_nat)
  ultimately show ?thesis using take_u32_mid [OF assms(1)] assms(2) by (simp add: read_count_def)
qed

text \<open>The layout of a path, of the directory section and of the file section.\<close>

definition string_bytes :: "string \<Rightarrow> bytes" where
  "string_bytes s = le_bytes 4 (length s) @ as_bytes s"

definition file_bytes :: "string \<times> bytes \<Rightarrow> bytes" where
  "file_bytes f = string_bytes (fst f) @ le_bytes 8 (length (snd f)) @ snd f"

lemma read_string_mid:
  assumes "length (pre @ string_bytes s @ post) < 2 ^ 64" "length s \<le> MAX_PATH_LEN" "valid_utf8 s"
  shows "read_string (pre @ string_bytes s @ post) (length pre)
    = Ok (s, length pre + length (string_bytes s))"
proof -
  let ?all = "pre @ string_bytes s @ post"
  have all: "?all = pre @ le_bytes 4 (length s) @ as_bytes s @ post"
    and all': "?all = (pre @ le_bytes 4 (length s)) @ as_bytes s @ post"
    by (simp_all add: string_bytes_def)
  have "take_u32 ?all (length pre) = Ok (word_of_nat (length s), length pre + 4)"
    unfolding all using assms(1,2) all by (intro take_u32_mid) (simp_all add: string_bytes_def)
  moreover have "take_slice ?all (length pre + 4) (length s)
      = Ok (as_bytes s, length pre + 4 + length s)"
    using take_slice_mid [of "pre @ le_bytes 4 (length s)" "as_bytes s" post] assms(1)
    by (simp add: string_bytes_def)
  moreover have "unat (word_of_nat (length s) :: u32) = length s"
    using assms(2) by (simp add: unat_of_nat)
  ultimately show ?thesis using assms(2,3) by (simp add: read_string_def string_bytes_def)
qed

lemma read_directories_mid:
  assumes "length (pre @ concat (map string_bytes ds) @ post) < 2 ^ 64"
    "\<forall>d\<in>set ds. length d \<le> MAX_PATH_LEN \<and> valid_utf8 d"
  shows "read_directories (length ds) (pre @ concat (map string_bytes ds) @ post) (length pre) acc
    = Ok (fold set_insert ds acc, length (pre @ concat (map string_bytes ds)))"
  using assms
proof (induction ds arbitrary: pre acc)
  case (Cons d ds)
  let ?rest = "concat (map string_bytes ds) @ post"
  have "read_string (pre @ string_bytes d @ ?rest) (length pre)
      = Ok (d, length pre + length (string_bytes d))"
    using Cons.prems by (intro read_string_mid) simp_all
  moreover have "read_directories (length ds) ((pre @ string_bytes d) @ ?rest)
      (length (pre @ string_bytes d)) (set_insert d acc)
      = Ok (fold set_insert ds (set_insert d acc),
            length ((pre @ string_bytes d) @ concat (map string_bytes ds)))"
    using Cons.prems by (intro Cons.IH) simp_all
  ultimately show ?case by simp
qed simp

lemma read_files_mid:
  assumes "length (pre @ concat (map file_bytes fs) @ post) < 2 ^ 64"
    "\<forall>f\<in>set fs. length (fst f) \<le> MAX_PATH_LEN \<and> valid_utf8 (fst f)"
  shows "read_files (length fs) (pre @ concat (map file_bytes fs) @ post) (length pre) acc
    = Ok (fold (\<lambda>f. map_insert (fst f) (snd f)) fs acc,
          length (pre @ concat (map file_bytes fs)))"
  using assms
proof (induction fs arbitrary: pre acc)
  case (Cons f fs)
  let ?rest = "concat (map file_bytes fs) @ post"
  let ?len = "le_bytes 8 (length (snd f))"
  have small: "length (snd f) < 2 ^ 64" using Cons.prems(1) by (simp add: file_bytes_def [of f])
  have "read_string (pre @ string_bytes (fst f) @ ?len @ snd f @ ?rest) (length pre)
      = Ok (fst f, length pre + length (string_bytes (fst f)))"
    using Cons.prems by (intro read_string_mid) (simp_all add: file_bytes_def [of f])
  moreover have "take_u64 ((pre @ string_bytes (fst f)) @ ?len @ snd f @ ?rest)
      (length (pre @ string_bytes (fst f)))
      = Ok (word_of_nat (length (snd f)), length (pre @ string_bytes (fst f)) + 8)"
    using Cons.prems small by (intro take_u64_mid) (simp_all add: file_bytes_def [of f])
  moreover have "take_slice ((pre @ string_bytes (fst f) @ ?len) @ snd f @ ?rest)
      (length (pre @ string_bytes (fst f) @ ?len)) (length (snd f))
      = Ok (snd f, length (pre @ string_bytes (fst f) @ ?len) + length (snd f))"
    using Cons.prems by (intro take_slice_mid) (simp add: file_bytes_def [of f])
  moreover have "unat (word_of_nat (length (snd f)) :: u64) = length (snd f)"
    using small by (simp add: unat_of_nat)
  moreover have "read_files (length fs) ((pre @ file_bytes f) @ ?rest) (length (pre @ file_bytes f))
      (map_insert (fst f) (snd f) acc)
      = Ok (fold (\<lambda>f. map_insert (fst f) (snd f)) fs (map_insert (fst f) (snd f) acc),
            length ((pre @ file_bytes f) @ concat (map file_bytes fs)))"
    using Cons.prems by (intro Cons.IH) simp_all
  ultimately show ?case by (simp add: file_bytes_def [of f] add.assoc)
qed simp

text \<open>Re-inserting the entries of a collection in their order rebuilds it.\<close>

lemma fold_set_insert_append: "oset (acc @ ds) \<Longrightarrow> fold set_insert ds acc = acc @ ds"
proof (induction ds arbitrary: acc)
  case (Cons d ds)
  then have "oset (acc @ [d])" by (auto simp: oset_def sorted_wrt_append)
  with Cons show ?case by (simp add: set_insert_snoc)
qed simp

lemma fold_map_insert_append:
  "omap (acc @ fs) \<Longrightarrow> fold (\<lambda>f. map_insert (fst f) (snd f)) fs acc = acc @ fs"
proof (induction fs arbitrary: acc)
  case (Cons f fs)
  then have "omap (acc @ [(fst f, snd f)])" by (auto simp: omap_def sorted_wrt_append)
  with Cons show ?case by (simp add: map_insert_snoc)
qed simp

lemma write_directories_Ok:
  "write_directories out ds = Ok r \<longleftrightarrow>
    (\<forall>d\<in>set ds. length d \<le> MAX_PATH_LEN) \<and> r = out @ concat (map string_bytes ds)"
  by (induction ds arbitrary: out) (auto simp: and_then_Inr_iff write_string_def string_bytes_def)

lemma write_files_Ok:
  "write_files out fs = Ok r \<longleftrightarrow>
    (\<forall>f\<in>set fs. length (fst f) \<le> MAX_PATH_LEN \<and> length (snd f) < 2 ^ 64) \<and>
    r = out @ concat (map file_bytes fs)"
proof (induction fs arbitrary: out)
  case (Cons f fs)
  then show ?case
    by (cases f) (auto simp: and_then_Inr_iff write_string_def string_bytes_def file_bytes_def)
qed auto

definition within_limits :: "file_tree \<Rightarrow> bool" where
  "within_limits t \<longleftrightarrow> length (tree_directories t) \<le> MAX_ENTRY_COUNT \<and>
     length (tree_files t) \<le> MAX_ENTRY_COUNT \<and>
     (\<forall>d\<in>set (tree_directories t). length d \<le> MAX_PATH_LEN) \<and>
     (\<forall>f\<in>set (tree_files t). length (fst f) \<le> MAX_PATH_LEN \<and> length (snd f) < 2 ^ 64)"

definition tree_bytes :: "file_tree \<Rightarrow> bytes" where
  "tree_bytes t = le_bytes 4 (length (tree_directories t)) @
     concat (map string_bytes (tree_directories t)) @
     le_bytes 4 (length (tree_files t)) @ concat (map file_bytes (tree_files t))"

lemma encode_tree_Ok: "encode_tree t = Ok bs \<longleftrightarrow> within_limits t \<and> bs = tree_bytes t"
  by (auto simp: encode_tree_def and_then_Inr_iff write_count_def write_directories_Ok write_files_Ok
      within_limits_def tree_bytes_def split: if_splits)

text \<open>The representation invariant of a file tree: sorted collections of valid strings.\<close>

definition tree_rep :: "file_tree \<Rightarrow> bool" where
  "tree_rep t \<longleftrightarrow> omap (tree_files t) \<and> oset (tree_directories t) \<and>
     list_all valid_utf8 (tree_directories t) \<and> list_all (valid_utf8 \<circ> fst) (tree_files t)"

lemma decode_tree_bytes:
  assumes "tree_rep t" "within_limits t" "length (tree_bytes t) < 2 ^ 64"
  shows "decode_tree (tree_bytes t) = Ok t"
proof -
  let ?ds = "tree_directories t" and ?fs = "tree_files t"
  let ?a = "le_bytes 4 (length ?ds)" and ?b = "concat (map string_bytes ?ds)"
  let ?c = "le_bytes 4 (length ?fs)" and ?d = "concat (map file_bytes ?fs)"
  have all: "tree_bytes t = ?a @ ?b @ ?c @ ?d" by (simp add: tree_bytes_def)
  note small = assms(3) [unfolded all]
  have "read_count (tree_bytes t) 0 = Ok (length ?ds, 4)"
    using read_count_mid [of "[]" "length ?ds" "?b @ ?c @ ?d"] small assms(2)
    by (simp add: all within_limits_def)
  moreover have "read_directories (length ?ds) (tree_bytes t) 4 [] = Ok (?ds, length (?a @ ?b))"
    using read_directories_mid [of ?a ?ds "?c @ ?d" "[]"] fold_set_insert_append [of "[]" ?ds]
      small assms(1,2)
    by (auto simp: all within_limits_def tree_rep_def list_all_iff)
  moreover have "read_count (tree_bytes t) (length (?a @ ?b)) = Ok (length ?fs, length (?a @ ?b) + 4)"
    using read_count_mid [of "?a @ ?b" "length ?fs" ?d] small assms(2)
    by (simp add: all within_limits_def)
  moreover have "read_files (length ?fs) (tree_bytes t) (length (?a @ ?b) + 4) []
      = Ok (?fs, length (tree_bytes t))"
    using read_files_mid [of "?a @ ?b @ ?c" ?fs "[]" "[]"] fold_map_insert_append [of "[]" ?fs]
      small assms(1,2)
    by (auto simp: all within_limits_def tree_rep_def list_all_iff add.assoc)
  ultimately show ?thesis by (simp add: decode_tree_def)
qed

text \<open>C14: decoding an encoded tree gives the tree back, for every tree whose names are valid UTF-8
  strings and whose encoding fits into memory.\<close>

theorem decode_encode_tree:
  assumes "tree_rep t" "encode_tree t = Ok bs" "length bs < 2 ^ 64"
  shows "decode_tree bs = Ok t"
  using assms by (simp add: encode_tree_Ok decode_tree_bytes)

theorem decode_encode_tree_witness:
  "decode_tree (tree_bytes \<lparr>tree_files = [(''user/a'', [7])], tree_directories = [''user'']\<rparr>)
    = Ok \<lparr>tree_files = [(''user/a'', [7])], tree_directories = [''user'']\<rparr>"
proof (rule decode_encode_tree)
  let ?t = "\<lparr>tree_files = [(''user/a'', [7])], tree_directories = [''user'']\<rparr>"
  show "tree_rep ?t" by (simp add: tree_rep_def) code_simp
  show "encode_tree ?t = Ok (tree_bytes ?t)" by (simp add: encode_tree_Ok within_limits_def)
  show "length (tree_bytes ?t) < 2 ^ 64" by (simp add: tree_bytes_def string_bytes_def file_bytes_def)
qed

text \<open>Encoding refuses a tree exactly when it exceeds the format's limits (100 000 entries of
  either kind, paths of 4096 bytes, file lengths of 64 bits), and always with
  \<open>SnapshotTooLarge\<close>.\<close>

theorem encode_tree_limits:
  "encode_tree t = (if within_limits t then Ok (tree_bytes t) else Err SnapshotTooLarge)"
proof (cases "encode_tree t")
  case (Inr bs)
  then show ?thesis by (simp add: encode_tree_Ok)
next
  case (Inl e)
  have "write_directories out ds = Inl e \<Longrightarrow> e = SnapshotTooLarge" for out ds e
    by (induction ds arbitrary: out)
      (auto simp: and_then_def write_string_def split: if_splits sum.splits)
  moreover have "write_files out fs = Inl e \<Longrightarrow> e = SnapshotTooLarge" for out fs e
  proof (induction fs arbitrary: out)
    case (Cons f fs)
    then show ?case
      by (cases f) (auto simp: and_then_def write_string_def split: if_splits sum.splits)
  qed simp
  ultimately have "e = SnapshotTooLarge" using Inl
    by (auto simp: encode_tree_def and_then_def write_count_def split: if_splits sum.splits)
  moreover have "\<not> within_limits t" using Inl encode_tree_Ok [of t "tree_bytes t"] by auto
  ultimately show ?thesis using Inl by simp
qed

section \<open>What a slot holds\<close>

text \<open>The outcome of reading a slot, as a function of its header block and of the bytes that
  follow it.\<close>

definition slot_of :: "bytes \<Rightarrow> bytes \<Rightarrow> nat \<Rightarrow> decoded_snapshot option sres" where
  "slot_of header area available =
     (if list_all (\<lambda>byte. byte = 0) header \<or> take (length MAGIC) header \<noteq> MAGIC then Ok None
      else and_then (read_u32 header 8) (\<lambda>version.
        if version \<noteq> FORMAT_VERSION then Err (UnsupportedVersion version)
        else and_then (read_u64 header 16) (\<lambda>generation.
        and_then (read_u64 header 24) (\<lambda>payload_len.
        and_then (read_u64 header 32) (\<lambda>expected_checksum.
        if div_ceil (unat payload_len) BLOCK_SIZE > available then Ok None
        else let payload = take (unat payload_len) area in
          if checksum payload \<noteq> expected_checksum then Ok None
          else and_then (decode_tree payload) (\<lambda>tree.
            Ok (Some \<lparr>snapshot_generation = generation, snapshot_tree = tree\<rparr>)))))))"

definition slot_header :: "bytes \<Rightarrow> nat \<Rightarrow> nat \<Rightarrow> bytes" where
  "slot_header disk slot blocks = take HEADER_SIZE (drop (slot * blocks * BLOCK_SIZE) disk)"

definition slot_area :: "bytes \<Rightarrow> nat \<Rightarrow> nat \<Rightarrow> bytes" where
  "slot_area disk slot blocks =
     take ((blocks - 1) * BLOCK_SIZE) (drop ((slot * blocks + 1) * BLOCK_SIZE) disk)"

definition slot_on :: "bytes \<Rightarrow> nat \<Rightarrow> nat \<Rightarrow> decoded_snapshot option sres" where
  "slot_on disk slot blocks =
     slot_of (slot_header disk slot blocks) (slot_area disk slot blocks) (blocks - 1)"

lemma encode_header_layout:
  "encode_header g l c = MAGIC @ le_bytes 4 1 @ replicate 4 0 @ le_bytes 8 (unat g)
     @ le_bytes 8 (unat l) @ le_bytes 8 (unat c) @ replicate 472 0"
proof -
  have m: "length MAGIC = 8" by (simp add: MAGIC_def)
  have "put_slice 0 MAGIC (replicate 512 0) = MAGIC @ replicate 504 0"
    by (simp add: put_slice_def m)
  moreover have "put_slice 8 (le_bytes 4 1) (MAGIC @ replicate 504 0)
      = MAGIC @ le_bytes 4 1 @ replicate 500 0"
    by (simp add: put_slice_def m)
  moreover have "put_slice 16 (le_bytes 8 (unat g)) (MAGIC @ le_bytes 4 1 @ replicate 500 0)
      = MAGIC @ le_bytes 4 1 @ replicate 4 0 @ le_bytes 8 (unat g) @ replicate 488 0"
    by (simp add: put_slice_def m)
  moreover have "put_slice 24 (le_bytes 8 (unat l))
      (MAGIC @ le_bytes 4 1 @ replicate 4 0 @ le_bytes 8 (unat g) @ replicate 488 0)
      = MAGIC @ le_bytes 4 1 @ replicate 4 0 @ le_bytes 8 (unat g) @ le_bytes 8 (unat l)
        @ replicate 480 0"
    by (simp add: put_slice_def m)
  moreover have "put_slice 32 (le_bytes 8 (unat c)) (MAGIC @ le_bytes 4 1 @ replicate 4 0
      @ le_bytes 8 (unat g) @ le_bytes 8 (unat l) @ replicate 480 0)
      = MAGIC @ le_bytes 4 1 @ replicate 4 0 @ le_bytes 8 (unat g) @ le_bytes 8 (unat l)
        @ le_bytes 8 (unat c) @ replicate 472 0"
    by (simp add: put_slice_def m)
  ultimately show ?thesis by (simp add: encode_header_def FORMAT_VERSION_def)
qed

lemma read_u64_mid:
  assumes "length (pre @ le_bytes 8 (unat w) @ post) < 2 ^ 64"
  shows "read_u64 (pre @ le_bytes 8 (unat w) @ post) (length pre) = Ok w"
proof -
  have "unat w < 2 ^ 64" using unsigned_less [of w, where ?'a = nat] by simp
  then show ?thesis using take_u64_mid [OF assms] by (simp add: read_u64_def)
qed

lemma slot_of_encoded:
  assumes "length payload = unat l" "div_ceil (unat l) BLOCK_SIZE \<le> available"
    "take (unat l) area = payload" "decode_tree payload = Ok t"
  shows "slot_of (encode_header g l (checksum payload)) area available
    = Ok (Some \<lparr>snapshot_generation = g, snapshot_tree = t\<rparr>)"
proof -
  let ?h = "encode_header g l (checksum payload)"
  let ?z = "replicate 472 (0 :: u8)"
  let ?g = "le_bytes 8 (unat g)" and ?l = "le_bytes 8 (unat l)" and ?c = "le_bytes 8 (unat (checksum payload))"
  have m: "length MAGIC = 8" "\<not> list_all (\<lambda>b. b = 0) MAGIC"
    by (simp_all add: MAGIC_def as_bytes_def byte_of_def code_def)
  have "take_u32 (MAGIC @ le_bytes 4 1 @ replicate 4 0 @ ?g @ ?l @ ?c @ ?z) 8 = Ok (1, 12)"
    using take_u32_mid [of MAGIC 1 "replicate 4 0 @ ?g @ ?l @ ?c @ ?z"] m by simp
  then have "read_u32 ?h 8 = Ok FORMAT_VERSION"
    by (simp add: read_u32_def encode_header_layout FORMAT_VERSION_def)
  moreover have "read_u64 ?h 16 = Ok g"
    using read_u64_mid [of "MAGIC @ le_bytes 4 1 @ replicate 4 0" g "?l @ ?c @ ?z"] m
    by (simp add: encode_header_layout)
  moreover have "read_u64 ?h 24 = Ok l"
    using read_u64_mid [of "MAGIC @ le_bytes 4 1 @ replicate 4 0 @ ?g" l "?c @ ?z"] m
    by (simp add: encode_header_layout)
  moreover have "read_u64 ?h 32 = Ok (checksum payload)"
    using read_u64_mid [of "MAGIC @ le_bytes 4 1 @ replicate 4 0 @ ?g @ ?l" "checksum payload" ?z] m
    by (simp add: encode_header_layout)
  moreover have "\<not> list_all (\<lambda>b. b = 0) ?h" "take (length MAGIC) ?h = MAGIC"
    using m by (simp_all add: encode_header_layout)
  ultimately show ?thesis using assms by (simp add: slot_of_def)
qed

section \<open>The contract of a block device\<close>

text \<open>
  \<open>disk d\<close> is what the medium holds. A read returns the requested range, a write that succeeds
  replaces it, a write that fails leaves anything in the range it was given and nothing elsewhere,
  and flushing changes no byte.
\<close>

locale block_contract =
  fixes D :: "'d block_device" and disk :: "'d \<Rightarrow> bytes" and ready :: "'d \<Rightarrow> bool"
  assumes disk_size: "ready d \<Longrightarrow> length (disk d) = unat (block_count D d) * BLOCK_SIZE"
    and disk_addressable: "ready d \<Longrightarrow> length (disk d) < 2 ^ 64"
    and read_keeps: "ready d \<Longrightarrow> read_blocks D d b n = Some (r, d') \<Longrightarrow>
      ready d' \<and> disk d' = disk d \<and> block_count D d' = block_count D d"
    and read_sound: "ready d \<Longrightarrow> 0 < n \<Longrightarrow> BLOCK_SIZE dvd n \<Longrightarrow>
      unat b * BLOCK_SIZE + n \<le> length (disk d) \<Longrightarrow> read_blocks D d b n = Some (Ok bs, d') \<Longrightarrow>
      bs = take n (drop (unat b * BLOCK_SIZE) (disk d))"
    and write_ok: "ready d \<Longrightarrow> data \<noteq> [] \<Longrightarrow> BLOCK_SIZE dvd length data \<Longrightarrow>
      unat b * BLOCK_SIZE + length data \<le> length (disk d) \<Longrightarrow>
      write_blocks D d b data = Some (Ok u, d') \<Longrightarrow>
      ready d' \<and> disk d' = put_slice (unat b * BLOCK_SIZE) data (disk d)
        \<and> block_count D d' = block_count D d"
    and write_err: "ready d \<Longrightarrow> data \<noteq> [] \<Longrightarrow> BLOCK_SIZE dvd length data \<Longrightarrow>
      unat b * BLOCK_SIZE + length data \<le> length (disk d) \<Longrightarrow>
      write_blocks D d b data = Some (Err e, d') \<Longrightarrow>
      ready d' \<and> block_count D d' = block_count D d
        \<and> (\<exists>torn. length torn = length data \<and> disk d' = put_slice (unat b * BLOCK_SIZE) torn (disk d))"
    and flush_keeps: "ready d \<Longrightarrow> flush D d = Some (q, d') \<Longrightarrow>
      ready d' \<and> disk d' = disk d \<and> block_count D d' = block_count D d"

text \<open>A reliable device also completes every read in range.\<close>

locale reliable_blocks = block_contract D disk ready
  for D :: "'d block_device" and disk :: "'d \<Rightarrow> bytes" and ready :: "'d \<Rightarrow> bool" +
  assumes read_completes: "ready d \<Longrightarrow> 0 < n \<Longrightarrow> BLOCK_SIZE dvd n \<Longrightarrow>
      unat b * BLOCK_SIZE + n \<le> length (disk d) \<Longrightarrow> \<exists>bs d'. read_blocks D d b n = Some (Ok bs, d')"

lemma div_ceil_bound: "n \<le> div_ceil n BLOCK_SIZE * BLOCK_SIZE"
proof -
  have "(n + 511) div 512 * 512 + (n + 511) mod 512 = n + 511" by (rule div_mult_mod_eq)
  moreover have "(n + 511) mod 512 < 512" by simp
  ultimately have "n \<le> (n + 511) div 512 * 512" by linarith
  then show ?thesis by (simp add: div_ceil_def)
qed

lemma div_ceil_0_iff [simp]: "div_ceil n BLOCK_SIZE = 0 \<longleftrightarrow> n = 0"
  by (auto simp: div_ceil_def div_eq_0_iff)

lemma div_ceil_pos [simp]: "0 < div_ceil n BLOCK_SIZE \<longleftrightarrow> 0 < n"
  using div_ceil_0_iff [of n] by linarith

lemma take_area:
  assumes "div_ceil n BLOCK_SIZE \<le> k"
  shows "take n (take (div_ceil n BLOCK_SIZE * BLOCK_SIZE) xs) = take n (take (k * BLOCK_SIZE) xs)"
proof -
  have "n \<le> k * BLOCK_SIZE"
    using div_ceil_bound [of n] mult_le_mono1 [OF assms, of BLOCK_SIZE] by linarith
  then show ?thesis using div_ceil_bound [of n] by (simp add: min_def)
qed

text \<open>The two slots lie side by side at the start of the medium.\<close>

definition slots_fit :: "'d block_device \<Rightarrow> 'd \<Rightarrow> u64 \<Rightarrow> bool" where
  "slots_fit D d blocks \<longleftrightarrow> 2 \<le> unat blocks \<and> 2 * unat blocks \<le> unat (block_count D d)"

lemma slot_position:
  assumes "slots_fit D d blocks" "slot = 0 \<or> slot = 1"
  shows "unat (slot * blocks) = unat slot * unat blocks"
    "unat (slot * blocks + 1) = unat slot * unat blocks + 1"
    "unat (blocks - 1) = unat blocks - 1"
    "(unat slot * unat blocks + unat blocks) \<le> unat (block_count D d)"
proof -
  have b: "2 \<le> unat blocks" "2 * unat blocks < 2 ^ 64"
    using assms(1) unsigned_less [of "block_count D d", where ?'a = nat]
    by (auto simp: slots_fit_def)
  then show "unat (slot * blocks + 1) = unat slot * unat blocks + 1"
    using assms(2) by (auto simp: unat_word_ariths)
  show "unat (slot * blocks) = unat slot * unat blocks" using assms(2) by auto
  show "unat (blocks - 1) = unat blocks - 1" using b by (simp add: unat_sub word_le_nat_alt)
  show "(unat slot * unat blocks + unat blocks) \<le> unat (block_count D d)"
    using assms by (auto simp: slots_fit_def)
qed

section \<open>Opening reads the medium\<close>

context block_contract
begin

lemma slot_in_range:
  assumes "ready d" "slots_fit D d blocks" "slot = 0 \<or> slot = 1" "k \<le> unat blocks - 1"
  shows "unat (slot * blocks) * BLOCK_SIZE + HEADER_SIZE \<le> length (disk d)"
    "unat (slot * blocks + 1) * BLOCK_SIZE + k * BLOCK_SIZE \<le> length (disk d)"
proof -
  note pos = slot_position [OF assms(2,3)]
  have two: "2 \<le> unat blocks" using assms(2) by (simp add: slots_fit_def)
  have "unat slot * unat blocks + 1 \<le> unat (block_count D d)" using pos(4) two by linarith
  moreover have "unat slot * unat blocks + 1 + k \<le> unat (block_count D d)"
    using pos(4) two assms(4) by linarith
  ultimately show "unat (slot * blocks) * BLOCK_SIZE + HEADER_SIZE \<le> length (disk d)"
    "unat (slot * blocks + 1) * BLOCK_SIZE + k * BLOCK_SIZE \<le> length (disk d)"
    unfolding pos(1,2) disk_size [OF assms(1)] by simp_all
qed

lemma read_header_sound:
  assumes "ready d" "slots_fit D d blocks" "slot = 0 \<or> slot = 1"
    "read_blocks D d (slot * blocks) HEADER_SIZE = Some (Ok h, d')"
  shows "h = slot_header (disk d) (unat slot) (unat blocks)"
  using read_sound [OF assms(1) _ _ slot_in_range(1) [OF assms(1-3) order.refl] assms(4)]
  by (simp add: slot_header_def slot_position [OF assms(2,3)])

lemma read_payload_sound:
  assumes "ready d" "slots_fit D d blocks" "slot = 0 \<or> slot = 1"
    and run: "read_blocks D d (slot * blocks + 1) (div_ceil n BLOCK_SIZE * BLOCK_SIZE) = Some (Ok bs, d')"
    and fits: "\<not> unat blocks - Suc 0 < div_ceil n BLOCK_SIZE" and "0 < n"
  shows "take n bs = take n (slot_area (disk d) (unat slot) (unat blocks))"
proof -
  have fits: "div_ceil n BLOCK_SIZE \<le> unat blocks - 1" using fits by simp
  have "bs = take (div_ceil n BLOCK_SIZE * BLOCK_SIZE)
      (drop ((unat slot * unat blocks + 1) * BLOCK_SIZE) (disk d))"
    using read_sound [OF assms(1) _ _ slot_in_range(2) [OF assms(1-3) fits] run] \<open>0 < n\<close>
    by (simp add: slot_position [OF assms(2,3)])
  then show ?thesis by (simp only: slot_area_def take_area [OF fits])
qed

lemma read_slot_keeps:
  assumes "ready d" "read_slot D d slot blocks = Some (r, d')"
  shows "ready d' \<and> disk d' = disk d \<and> block_count D d' = block_count D d"
  using assms(2) unfolding read_slot_def Let_def
proof (cases rule: bind_SomeE)
  case (err e)
  then show ?thesis using read_keeps [OF assms(1)] by blast
next
  case (val h d1)
  then have d1: "ready d1" "disk d1 = disk d" "block_count D d1 = block_count D d"
    using read_keeps [OF assms(1)] by blast+
  have "d' = d1 \<or> (\<exists>b n q. read_blocks D d1 b n = Some (q, d'))"
    using val(2) by (auto split: if_splits)
  then show ?thesis using d1 read_keeps [OF d1(1)] by auto
qed

lemma read_slot_sound:
  assumes "ready d" "slots_fit D d blocks" "slot = 0 \<or> slot = 1"
    "read_slot D d slot blocks = Some (Ok x, d')"
  shows "slot_on (disk d) (unat slot) (unat blocks) = Ok x"
proof -
  from assms(4) obtain h d1 where h: "read_blocks D d (slot * blocks) HEADER_SIZE = Some (Ok h, d1)"
    unfolding read_slot_def Let_def by (rule bind_SomeE) auto
  then have d1: "ready d1" "disk d1 = disk d" "slots_fit D d1 blocks"
    using read_keeps [OF assms(1) h] assms(2) by (simp_all add: slots_fit_def)
  note payload = read_payload_sound [OF d1(1,3) assms(3), unfolded d1(2)]
  show ?thesis
    using assms(4) h
    by (auto simp: read_slot_def Let_def slot_on_def slot_of_def
        read_header_sound [OF assms(1-3) h, symmetric] slot_position [OF assms(2,3)]
        split: if_splits dest!: payload)
qed

end

text \<open>The outcome of opening, as a function of what the medium holds.\<close>

definition mount_slots :: "bytes \<Rightarrow> nat \<Rightarrow> (u64 \<times> decoded_snapshot) option sres" where
  "mount_slots disk blocks = and_then (slot_on disk 0 blocks) (\<lambda>first.
     and_then (slot_on disk 1 blocks) (\<lambda>second. Ok (select_slot first second)))"

definition opened_store ::
  "'d \<Rightarrow> u64 \<Rightarrow> (u64 \<times> decoded_snapshot) option \<Rightarrow> 'd snapshot_store \<times> file_tree option" where
  "opened_store d blocks selected =
     (\<lparr>store_device = d, slot_blocks = blocks, active_slot = map_option fst selected,
       store_generation = (case selected of None \<Rightarrow> 0 | Some (_, s) \<Rightarrow> snapshot_generation s)\<rparr>,
      map_option (snapshot_tree \<circ> snd) selected)"

lemma slots_fit_half:
  "\<not> block_count D d div 2 < 2 \<Longrightarrow> slots_fit D d (block_count D d div 2)"
  by (auto simp: slots_fit_def word_less_nat_alt unat_div)

context block_contract
begin

lemma snapshot_open_sound:
  assumes "ready d" "snapshot_open D d = Some (Ok (store, t))"
  shows "\<exists>selected d'. mount_slots (disk d) (unat (block_count D d div 2)) = Ok selected \<and>
    (store, t) = opened_store d' (block_count D d div 2) selected \<and>
    ready d' \<and> disk d' = disk d \<and> block_count D d' = block_count D d \<and>
    slots_fit D d (block_count D d div 2)"
proof -
  let ?b = "block_count D d div 2"
  have fit: "slots_fit D d ?b"
    using assms(2) by (auto simp: snapshot_open_def Let_def intro: slots_fit_half split: if_splits)
  from assms(2) obtain d2 first d1 second
    where run: "read_slot D d 0 ?b = Some (Ok first, d1)" "read_slot D d1 1 ?b = Some (Ok second, d2)"
      "(store, t) = opened_store d2 ?b (select_slot first second)"
    by (auto simp: snapshot_open_def Let_def opened_store_def split: if_splits)
  from read_slot_keeps [OF assms(1) run(1)]
  have d1: "ready d1" "disk d1 = disk d" "block_count D d1 = block_count D d" by simp_all
  then have fit1: "slots_fit D d1 ?b" using fit by (simp add: slots_fit_def)
  have "mount_slots (disk d) (unat ?b) = Ok (select_slot first second)"
    using read_slot_sound [OF assms(1) fit _ run(1)] read_slot_sound [OF d1(1) fit1 _ run(2)] d1(2)
    by (simp add: mount_slots_def)
  then show ?thesis
    using run(3) read_slot_keeps [OF d1(1) run(2)] d1 fit by auto
qed

end

context reliable_blocks
begin

lemma read_slot_completes:
  assumes "ready d" "slots_fit D d blocks" "slot = 0 \<or> slot = 1"
  shows "\<exists>d'. read_slot D d slot blocks = Some (slot_on (disk d) (unat slot) (unat blocks), d')"
proof -
  have range: "unat (slot * blocks) * BLOCK_SIZE + HEADER_SIZE \<le> length (disk d)"
    using slot_in_range(1) [OF assms order.refl] .
  from read_completes [OF assms(1) _ _ this]
  obtain h d1 where h: "read_blocks D d (slot * blocks) HEADER_SIZE = Some (Ok h, d1)" by auto
  then have d1: "ready d1" "disk d1 = disk d" "slots_fit D d1 blocks"
    using read_keeps [OF assms(1) h] assms(2) by (simp_all add: slots_fit_def)
  have payload: "\<exists>bs d2. read_blocks D d1 (slot * blocks + 1) (div_ceil n BLOCK_SIZE * BLOCK_SIZE)
      = Some (Ok bs, d2) \<and> take n bs = take n (slot_area (disk d) (unat slot) (unat blocks))"
    if "\<not> unat blocks - Suc 0 < div_ceil n BLOCK_SIZE" "0 < n" for n
  proof -
    have "div_ceil n BLOCK_SIZE \<le> unat blocks - 1" using that(1) by simp
    from read_completes [OF d1(1) _ _ slot_in_range(2) [OF d1(1,3) assms(3) this]] that(2)
    obtain bs d2
      where "read_blocks D d1 (slot * blocks + 1) (div_ceil n BLOCK_SIZE * BLOCK_SIZE) = Some (Ok bs, d2)"
      by auto
    then show ?thesis using read_payload_sound [OF d1(1,3) assms(3) _ that] d1(2) by auto
  qed
  note eqs = read_header_sound [OF assms h, symmetric] slot_position [OF assms(2,3)]
  show ?thesis
  proof (cases "read_u64 h 24")
    case (Inr len)
    show ?thesis
    proof (cases "\<not> unat blocks - Suc 0 < div_ceil (unat len) BLOCK_SIZE \<and> 0 < unat len")
      case True
      with payload obtain bs d2
        where "read_blocks D d1 (slot * blocks + 1) (div_ceil (unat len) BLOCK_SIZE * BLOCK_SIZE)
          = Some (Ok bs, d2)" "take (unat len) bs = take (unat len) (slot_area (disk d) (unat slot) (unat blocks))"
        by blast
      then show ?thesis using True Inr
        by (simp add: read_slot_def Let_def slot_on_def slot_of_def h eqs attempt_def and_then_def
            split: sum.split)
    next
      case False
      then show ?thesis using Inr
        by (auto simp: read_slot_def Let_def slot_on_def slot_of_def h eqs attempt_def and_then_def
            split: sum.split)
    qed
  qed (simp add: read_slot_def Let_def slot_on_def slot_of_def h eqs attempt_def and_then_def split: sum.split)
qed

lemma snapshot_open_completes:
  assumes "ready d" "slots_fit D d (block_count D d div 2)"
    "mount_slots (disk d) (unat (block_count D d div 2)) = Ok selected"
  shows "\<exists>d'. snapshot_open D d = Some (Ok (opened_store d' (block_count D d div 2) selected))"
proof -
  let ?b = "block_count D d div 2"
  from assms(3) obtain first second where slots: "slot_on (disk d) 0 (unat ?b) = Ok first"
    "slot_on (disk d) 1 (unat ?b) = Ok second" "selected = select_slot first second"
    by (auto simp: mount_slots_def and_then_Inr_iff)
  obtain d1 where one: "read_slot D d 0 ?b = Some (Ok first, d1)"
    using read_slot_completes [OF assms(1,2), of 0] slots(1) by auto
  from read_slot_keeps [OF assms(1) one] assms(2)
  have d1: "ready d1" "disk d1 = disk d" "slots_fit D d1 ?b" by (simp_all add: slots_fit_def)
  obtain d2 where "read_slot D d1 1 ?b = Some (Ok second, d2)"
    using read_slot_completes [OF d1(1,3), of 1] slots(2) d1(2) by auto
  moreover have "\<not> ?b < 2" using assms(2) by (simp add: slots_fit_def word_less_nat_alt)
  ultimately show ?thesis using one slots(3)
    by (auto simp: snapshot_open_def Let_def opened_store_def)
qed

end

section \<open>Saving writes one slot\<close>

text \<open>Two images of the medium agree outside a range.\<close>

definition same_outside :: "nat \<Rightarrow> nat \<Rightarrow> bytes \<Rightarrow> bytes \<Rightarrow> bool" where
  "same_outside lo hi xs ys \<longleftrightarrow>
     length ys = length xs \<and> take lo ys = take lo xs \<and> drop hi ys = drop hi xs"

lemma same_outside_refl [simp]: "same_outside lo hi xs xs"
  by (simp add: same_outside_def)

lemma same_outside_trans:
  "same_outside lo hi xs ys \<Longrightarrow> same_outside lo hi ys zs \<Longrightarrow> same_outside lo hi xs zs"
  by (simp add: same_outside_def)

lemma same_outside_put_slice:
  assumes "lo \<le> off" "off + length data \<le> hi" "off + length data \<le> length xs"
  shows "same_outside lo hi xs (put_slice off data xs)"
  using assms by (simp add: same_outside_def) (simp add: put_slice_def min_def)

lemma same_outside_slice:
  assumes "same_outside lo hi xs ys" "m + n \<le> lo \<or> hi \<le> m"
  shows "take n (drop m ys) = take n (drop m xs)"
  using assms(2)
proof
  assume "m + n \<le> lo"
  then have "take n (drop m zs) = drop m (take (m + n) (take lo zs))" for zs :: bytes
    by (simp add: take_drop min_def add.commute)
  then show ?thesis using assms(1) unfolding same_outside_def by metis
next
  assume "hi \<le> m"
  then have "drop m zs = drop (m - hi) (drop hi zs)" for zs :: bytes by simp
  then show ?thesis using assms(1) unfolding same_outside_def by metis
qed

lemma slice_put_slice_same:
  "off \<le> length xs \<Longrightarrow> n \<le> length data \<Longrightarrow> take n (drop off (put_slice off data xs)) = take n data"
  by (simp add: put_slice_def)

text \<open>Images that differ inside one slot only hold the same in the other one.\<close>

definition same_outside_slot :: "nat \<Rightarrow> nat \<Rightarrow> bytes \<Rightarrow> bytes \<Rightarrow> bool" where
  "same_outside_slot slot blocks =
     same_outside (slot * blocks * BLOCK_SIZE) ((slot * blocks + blocks) * BLOCK_SIZE)"

lemma slot_on_other:
  assumes "same_outside_slot slot blocks xs ys" "1 \<le> blocks" "other \<noteq> slot"
  shows "slot_on ys other blocks = slot_on xs other blocks"
proof -
  let ?lo = "slot * blocks * BLOCK_SIZE" and ?hi = "(slot * blocks + blocks) * BLOCK_SIZE"
  have sep: "other * blocks + blocks \<le> slot * blocks \<or> slot * blocks + blocks \<le> other * blocks"
    using assms(3) mult_le_mono1 [of "Suc other" slot blocks] mult_le_mono1 [of "Suc slot" other blocks]
    by (cases "other < slot") (simp_all add: add.commute)
  have "other * blocks * BLOCK_SIZE + HEADER_SIZE \<le> ?lo \<or> ?hi \<le> other * blocks * BLOCK_SIZE"
    using sep assms(2) by auto
  then have "slot_header ys other blocks = slot_header xs other blocks"
    unfolding slot_header_def using assms(1) by (auto simp: same_outside_slot_def intro: same_outside_slice)
  moreover have "(other * blocks + 1) * BLOCK_SIZE + (blocks - 1) * BLOCK_SIZE \<le> ?lo
      \<or> ?hi \<le> (other * blocks + 1) * BLOCK_SIZE"
    using sep
  proof
    assume "other * blocks + blocks \<le> slot * blocks"
    then have "other * blocks + 1 + (blocks - 1) \<le> slot * blocks" using assms(2) by simp
    from mult_le_mono1 [OF this, of BLOCK_SIZE] show ?thesis by (simp add: add_mult_distrib)
  qed simp
  then have "slot_area ys other blocks = slot_area xs other blocks"
    unfolding slot_area_def using assms(1) unfolding same_outside_slot_def by (rule same_outside_slice [rotated])
  ultimately show ?thesis by (simp add: slot_on_def)
qed

text \<open>What saving a payload leaves on the medium: its padded bytes behind the header of the slot, then
  the header.\<close>

definition padded_payload :: "bytes \<Rightarrow> bytes" where
  "padded_payload payload = put_slice 0 payload (replicate (div_ceil (length payload) BLOCK_SIZE * BLOCK_SIZE) 0)"

lemma length_padded [simp]:
  "length (padded_payload payload) = div_ceil (length payload) BLOCK_SIZE * BLOCK_SIZE"
  using div_ceil_bound [of "length payload"] by (simp add: padded_payload_def)

lemma take_padded [simp]: "take (length payload) (padded_payload payload) = payload"
  by (simp add: padded_payload_def put_slice_def)

lemma length_encode_header [simp]: "length (encode_header g l c) = HEADER_SIZE"
  by (simp add: encode_header_layout MAGIC_def)

lemma slot_on_written:
  assumes "div_ceil (length payload) BLOCK_SIZE \<le> blocks - 1" "1 \<le> blocks"
    "(slot * blocks + blocks) * BLOCK_SIZE \<le> length xs" "length payload < 2 ^ 64"
    "decode_tree payload = Ok t"
  shows "slot_on (put_slice (slot * blocks * BLOCK_SIZE)
      (encode_header g (word_of_nat (length payload)) (checksum payload))
      (put_slice ((slot * blocks + 1) * BLOCK_SIZE) (padded_payload payload) xs)) slot blocks
    = Ok (Some \<lparr>snapshot_generation = g, snapshot_tree = t\<rparr>)"
proof -
  let ?h = "encode_header g (word_of_nat (length payload)) (checksum payload)"
  let ?xs = "put_slice ((slot * blocks + 1) * BLOCK_SIZE) (padded_payload payload) xs"
  let ?ys = "put_slice (slot * blocks * BLOCK_SIZE) ?h ?xs"
  have len: "unat (word_of_nat (length payload) :: u64) = length payload"
    using assms(4) by (simp add: unat_of_nat)
  have pb: "(slot * blocks + 1) * BLOCK_SIZE + length (padded_payload payload) \<le> length xs"
    using assms(1-3) by (simp add: algebra_simps)
  then have lenx: "length ?xs = length xs" by simp
  have "slot_header ?ys slot blocks = ?h"
    unfolding slot_header_def using slice_put_slice_same [of "slot * blocks * BLOCK_SIZE" ?xs HEADER_SIZE ?h]
      lenx pb by simp
  moreover have "slot_area ?ys slot blocks = slot_area ?xs slot blocks"
    unfolding slot_area_def
    by (rule same_outside_slice, rule same_outside_put_slice [where lo = 0 and hi = "(slot * blocks + 1) * BLOCK_SIZE"])
      (use lenx pb in simp_all)
  moreover have "take (length payload) (slot_area ?xs slot blocks) = payload"
  proof -
    have "take (length payload) (slot_area ?xs slot blocks)
        = take (length payload) (take (length (padded_payload payload)) (drop ((slot * blocks + 1) * BLOCK_SIZE) ?xs))"
      by (simp only: slot_area_def length_padded take_area [OF assms(1)])
    also have "\<dots> = payload"
      using slice_put_slice_same [of "(slot * blocks + 1) * BLOCK_SIZE" xs
          "length (padded_payload payload)" "padded_payload payload"] pb
      by (simp del: length_padded)
    finally show ?thesis .
  qed
  ultimately show ?thesis
    using slot_of_encoded [of payload "word_of_nat (length payload)" "blocks - 1"] assms(1,5) len
    by (simp add: slot_on_def)
qed

definition target_slot :: "'d snapshot_store \<Rightarrow> u64" where
  "target_slot store = (case active_slot store of None \<Rightarrow> 0 | Some slot \<Rightarrow> 1 - slot)"

lemma tree_bytes_nonempty: "tree_bytes t \<noteq> []"
  using length_le_bytes [of 4 "length (tree_directories t)"] by (auto simp: tree_bytes_def simp del: length_le_bytes)

lemma padded_nonempty: "payload \<noteq> [] \<Longrightarrow> padded_payload payload \<noteq> []"
  by (simp flip: length_greater_0_conv)

text \<open>How a save runs: the step at which it stopped, and the device at that point.\<close>

definition saved_header :: "'d snapshot_store \<Rightarrow> file_tree \<Rightarrow> bytes" where
  "saved_header store tree = encode_header (saturating_add (store_generation store) 1)
     (word_of_nat (length (tree_bytes tree))) (checksum (tree_bytes tree))"

definition payload_write ::
  "'d block_device \<Rightarrow> 'd snapshot_store \<Rightarrow> file_tree \<Rightarrow> (unit sres \<times> 'd) option" where
  "payload_write D store tree = write_blocks D (store_device store)
     (target_slot store * slot_blocks store + 1) (padded_payload (tree_bytes tree))"

definition header_write ::
  "'d block_device \<Rightarrow> 'd snapshot_store \<Rightarrow> file_tree \<Rightarrow> 'd \<Rightarrow> (unit sres \<times> 'd) option" where
  "header_write D store tree d = write_blocks D d (target_slot store * slot_blocks store)
     (saved_header store tree)"

definition save_fits :: "'d snapshot_store \<Rightarrow> file_tree \<Rightarrow> bool" where
  "save_fits store tree \<longleftrightarrow> within_limits tree \<and>
     div_ceil (length (tree_bytes tree)) BLOCK_SIZE \<le> unat (slot_blocks store - 1)"

inductive save_run ::
  "'d block_device \<Rightarrow> 'd snapshot_store \<Rightarrow> file_tree \<Rightarrow> unit sres \<Rightarrow> 'd \<Rightarrow> bool"
  for D store tree where
  refused: "save_run D store tree (Err e) (store_device store)"
| payload_failed: "save_fits store tree \<Longrightarrow> payload_write D store tree = Some (Err e, d)
    \<Longrightarrow> save_run D store tree (Err e) d"
| flush_failed: "save_fits store tree \<Longrightarrow> payload_write D store tree = Some (Ok (), d1)
    \<Longrightarrow> flush D d1 = Some (Err e, d) \<Longrightarrow> save_run D store tree (Err e) d"
| header_failed: "save_fits store tree \<Longrightarrow> payload_write D store tree = Some (Ok (), d1)
    \<Longrightarrow> flush D d1 = Some (Ok (), d2) \<Longrightarrow> header_write D store tree d2 = Some (Err e, d)
    \<Longrightarrow> save_run D store tree (Err e) d"
| last_flush: "save_fits store tree \<Longrightarrow> payload_write D store tree = Some (Ok (), d1)
    \<Longrightarrow> flush D d1 = Some (Ok (), d2) \<Longrightarrow> header_write D store tree d2 = Some (Ok (), d3)
    \<Longrightarrow> flush D d3 = Some (r, d) \<Longrightarrow> save_run D store tree r d"

lemma snapshot_save_steps:
  assumes "save_fits store tree"
  shows "snapshot_save D store tree =
    (let put = (\<lambda>d. store\<lparr>store_device := d\<rparr>) in
     bind (on_field (payload_write D store tree) put) (\<lambda>_ store1.
     bind (on_field (flush D (store_device store1)) put) (\<lambda>_ store2.
     bind (on_field (header_write D store tree (store_device store2)) put) (\<lambda>_ store3.
     bind (on_field (flush D (store_device store3)) put) (\<lambda>_ store4.
     Some (Ok (), store4\<lparr>active_slot := Some (target_slot store),
       store_generation := saturating_add (store_generation store) 1\<rparr>))))))"
proof -
  have "encode_tree tree = Ok (tree_bytes tree)" using assms by (simp add: save_fits_def encode_tree_Ok)
  then show ?thesis
    using assms padded_nonempty [OF tree_bytes_nonempty, of tree]
    by (simp add: snapshot_save_def save_fits_def Let_def payload_write_def header_write_def
        saved_header_def target_slot_def padded_payload_def on_field_def bind_def
        split: option.split sum.split)
qed

lemma snapshot_save_run:
  assumes "snapshot_save D store tree = Some (r, store')"
  shows "save_run D store tree r (store_device store')
    \<and> store' = (if isl r then store\<lparr>store_device := store_device store'\<rparr>
        else store\<lparr>store_device := store_device store', active_slot := Some (target_slot store),
          store_generation := saturating_add (store_generation store) 1\<rparr>)"
proof (cases "save_fits store tree")
  case False
  then have "isl r \<and> store' = store"
    using assms by (auto simp: snapshot_save_def save_fits_def encode_tree_Ok Let_def split: if_splits)
  then show ?thesis by (cases r) (auto intro: refused)
next
  case True
  then show ?thesis
    using assms by (auto simp: snapshot_save_steps Let_def intro: save_run.intros(2-5) [OF True])
qed

context block_contract
begin

text \<open>What a step of a save may do to the device.\<close>

definition inside_slot :: "u64 \<Rightarrow> u64 \<Rightarrow> 'd \<Rightarrow> 'd \<Rightarrow> bool" where
  "inside_slot slot blocks d d' \<longleftrightarrow> ready d' \<and> slots_fit D d' blocks \<and>
     block_count D d' = block_count D d \<and>
     same_outside_slot (unat slot) (unat blocks) (disk d) (disk d')"

lemma inside_slot_trans:
  "inside_slot slot blocks d d' \<Longrightarrow> inside_slot slot blocks d' d'' \<Longrightarrow> inside_slot slot blocks d d''"
  by (auto simp: inside_slot_def same_outside_slot_def elim: same_outside_trans)

lemma flush_inside:
  assumes "ready d" "slots_fit D d blocks" "flush D d = Some (r, d')"
  shows "inside_slot slot blocks d d' \<and> disk d' = disk d"
  using flush_keeps [OF assms(1,3)] assms(2) by (simp add: inside_slot_def slots_fit_def same_outside_slot_def)

lemma write_inside:
  assumes "ready d" "slots_fit D d blocks" "slot = 0 \<or> slot = 1"
    and data: "data \<noteq> []" "length data = k * BLOCK_SIZE"
    and pos: "unat b = unat slot * unat blocks + off" "off + k \<le> unat blocks"
    and run: "write_blocks D d b data = Some (r, d')"
  shows "inside_slot slot blocks d d' \<and> (\<forall>u. r = Ok u \<longrightarrow> disk d' = put_slice (unat b * BLOCK_SIZE) data (disk d))"
proof -
  have "unat b + k \<le> unat slot * unat blocks + unat blocks" using pos by simp
  then have hi: "unat b * BLOCK_SIZE + length data \<le> (unat slot * unat blocks + unat blocks) * BLOCK_SIZE"
    using mult_le_mono1 [of "unat b + k" _ BLOCK_SIZE] by (simp add: data(2) add_mult_distrib)
  also have "\<dots> \<le> length (disk d)"
    using slot_position(4) [OF assms(2,3)] by (simp add: disk_size [OF assms(1)] del: add_mult_distrib)
  finally have range: "unat b * BLOCK_SIZE + length data \<le> length (disk d)" .
  have lo: "unat slot * unat blocks * BLOCK_SIZE \<le> unat b * BLOCK_SIZE" using pos(1) by simp
  note legal = assms(1) data(1) _ range
  have dvd: "BLOCK_SIZE dvd length data" by (simp add: data(2))
  have "ready d' \<and> block_count D d' = block_count D d \<and>
      (\<exists>bs. length bs = length data \<and> disk d' = put_slice (unat b * BLOCK_SIZE) bs (disk d)
        \<and> (\<forall>u. r = Ok u \<longrightarrow> bs = data))"
    using write_ok [OF legal] write_err [OF legal] dvd run by (cases r) auto
  then obtain bs where "ready d'" "block_count D d' = block_count D d" and bs: "length bs = length data"
      "disk d' = put_slice (unat b * BLOCK_SIZE) bs (disk d)" "\<forall>u. r = Ok u \<longrightarrow> bs = data"
    by blast
  moreover have "same_outside_slot (unat slot) (unat blocks) (disk d) (disk d')"
    unfolding same_outside_slot_def bs(2)
    by (rule same_outside_put_slice) (use lo hi range bs(1) in simp_all)
  ultimately show ?thesis using assms(2) by (simp add: inside_slot_def slots_fit_def)
qed

lemma save_run_effect:
  assumes "save_run D store tree r d'" "ready (store_device store)"
    and fit: "slots_fit D (store_device store) (slot_blocks store)"
    and target: "target_slot store = 0 \<or> target_slot store = 1"
  shows "inside_slot (target_slot store) (slot_blocks store) (store_device store) d' \<and>
    (\<forall>u. r = Ok u \<longrightarrow> save_fits store tree \<and>
      (let at = unat (target_slot store) * unat (slot_blocks store) in
        disk d' = put_slice (at * BLOCK_SIZE) (saved_header store tree)
          (put_slice ((at + 1) * BLOCK_SIZE) (padded_payload (tree_bytes tree)) (disk (store_device store)))))"
proof -
  let ?b = "slot_blocks store" and ?t = "target_slot store" and ?d = "store_device store"
  let ?in = "inside_slot ?t ?b"
  note pos = slot_position [OF fit target]
  have two: "2 \<le> unat ?b" using fit by (simp add: slots_fit_def)
  have refl: "?in ?d ?d" using assms(2,3) by (simp add: inside_slot_def same_outside_slot_def)
  have flush: "?in ?d e' \<and> disk e' = disk e" if "?in ?d e" "flush D e = Some (q, e')" for e e' q
    using flush_inside [OF _ _ that(2), of ?b ?t] inside_slot_trans [OF that(1)] that(1)
    by (simp add: inside_slot_def [of ?t ?b ?d e])
  have payload: "?in ?d e \<and> (\<forall>u. q = Ok u \<longrightarrow>
        disk e = put_slice (unat (?t * ?b + 1) * BLOCK_SIZE) (padded_payload (tree_bytes tree)) (disk ?d))"
    if "save_fits store tree" "payload_write D store tree = Some (q, e)" for e q
  proof -
    have "1 + div_ceil (length (tree_bytes tree)) BLOCK_SIZE \<le> unat ?b"
      using that(1) two pos(3) unfolding save_fits_def by linarith
    from write_inside [OF assms(2,3) target padded_nonempty [OF tree_bytes_nonempty] length_padded
        pos(2) this that(2) [unfolded payload_write_def]]
    show ?thesis .
  qed
  have header: "?in ?d e' \<and> (\<forall>u. q = Ok u \<longrightarrow>
        disk e' = put_slice (unat (?t * ?b) * BLOCK_SIZE) (saved_header store tree) (disk e))"
    if "?in ?d e" "header_write D store tree e = Some (q, e')" for e e' q
  proof -
    have "length (saved_header store tree) = 1 * BLOCK_SIZE" by (simp add: saved_header_def)
    moreover then have "saved_header store tree \<noteq> []" by auto
    moreover have "ready e" "slots_fit D e ?b" using that(1) by (simp_all add: inside_slot_def)
    ultimately show ?thesis
      using write_inside [of e ?b ?t "saved_header store tree" 1 "?t * ?b" 0 q e'] target pos(1) two
        that(2) inside_slot_trans [OF that(1)] by (simp add: header_write_def)
  qed
  from assms(1) show ?thesis
  proof cases
    case (last_flush d1 d2 d3)
    with payload flush header have "?in ?d d1" "?in ?d d2" "?in ?d d3" "?in ?d d'"
      "disk d' = disk d3" "disk d2 = disk d1"
      by blast+
    with last_flush payload header show ?thesis by (simp add: Let_def pos(1,2))
  qed (use refl payload flush header in blast)+
qed

end

section \<open>The store between saves\<close>

text \<open>\<open>holds disk store t\<close>: the active slot of the store holds the tree \<open>t\<close> under the store's
  generation; a store without an active slot found nothing and its second slot is still empty.\<close>

definition holds :: "bytes \<Rightarrow> 'd snapshot_store \<Rightarrow> file_tree option \<Rightarrow> bool" where
  "holds disk store t \<longleftrightarrow> (case active_slot store of
       None \<Rightarrow> store_generation store = 0 \<and> t = None \<and> slot_on disk 1 (unat (slot_blocks store)) = Ok None
     | Some slot \<Rightarrow> (slot = 0 \<or> slot = 1) \<and> t \<noteq> None \<and>
         slot_on disk (unat slot) (unat (slot_blocks store)) =
           Ok (Some \<lparr>snapshot_generation = store_generation store, snapshot_tree = the t\<rparr>))"

definition store_inv ::
  "'d block_device \<Rightarrow> ('d \<Rightarrow> bytes) \<Rightarrow> ('d \<Rightarrow> bool) \<Rightarrow> 'd snapshot_store \<Rightarrow> file_tree option \<Rightarrow> bool" where
  "store_inv D disk ready store t \<longleftrightarrow> ready (store_device store) \<and>
     slot_blocks store = block_count D (store_device store) div 2 \<and>
     slots_fit D (store_device store) (slot_blocks store) \<and> holds (disk (store_device store)) store t"

lemma holds_target: "holds disk store t \<Longrightarrow> target_slot store = 0 \<or> target_slot store = 1"
  by (auto simp: holds_def target_slot_def split: option.splits)

lemma holds_opened:
  assumes "mount_slots disk (unat blocks) = Ok selected" "(store, t) = opened_store d blocks selected"
  shows "holds disk store t"
proof -
  from assms(1) obtain first second
    where "slot_on disk 0 (unat blocks) = Ok first" "slot_on disk 1 (unat blocks) = Ok second"
      and sel: "selected = select_slot first second"
    by (auto simp: mount_slots_def and_then_Inr_iff)
  then show ?thesis
    using assms(2) by (cases first; cases second) (simp_all add: opened_store_def select_slot_def holds_def)
qed

lemma holds_device [simp]: "holds disk (store\<lparr>store_device := d\<rparr>) t = holds disk store t"
  by (simp add: holds_def split: option.split)

lemma holds_other_slot:
  assumes "holds xs store t" "same_outside_slot (unat (target_slot store)) (unat (slot_blocks store)) xs ys"
    "1 \<le> unat (slot_blocks store)"
  shows "holds ys store t"
  using assms(1) slot_on_other [OF assms(2,3), of 1]
    slot_on_other [OF assms(2,3), of "unat (the (active_slot store))"]
  by (auto simp: holds_def target_slot_def split: option.splits)

context block_contract
begin

lemma stored_open:
  assumes "ready d" "snapshot_open D d = Some (Ok (store, t))"
  shows "store_inv D disk ready store t"
proof -
  from snapshot_open_sound [OF assms] obtain selected d'
    where sel: "mount_slots (disk d) (unat (block_count D d div 2)) = Ok selected"
      "(store, t) = opened_store d' (block_count D d div 2) selected"
      and d': "ready d'" "disk d' = disk d" "block_count D d' = block_count D d"
      "slots_fit D d (block_count D d div 2)"
    by blast
  have "holds (disk d) store t" using holds_opened [OF sel] .
  moreover have "store_device store = d'" "slot_blocks store = block_count D d div 2"
    using sel(2) by (simp_all add: opened_store_def)
  ultimately show ?thesis using d' by (simp add: store_inv_def slots_fit_def)
qed

lemma stored_save_err:
  assumes "store_inv D disk ready store t" "snapshot_save D store tree = Some (Err e, store')"
  shows "store_inv D disk ready store' t"
proof -
  from assms(1) have inv: "ready (store_device store)" "slots_fit D (store_device store) (slot_blocks store)"
    "holds (disk (store_device store)) store t" by (auto simp: store_inv_def)
  from snapshot_save_run [OF assms(2)]
  have run: "save_run D store tree (Err e) (store_device store')"
    and eq: "store' = store\<lparr>store_device := store_device store'\<rparr>" by simp_all
  from save_run_effect [OF run inv(1,2) holds_target [OF inv(3)]]
  have inside: "inside_slot (target_slot store) (slot_blocks store) (store_device store) (store_device store')"
    by simp
  then have "holds (disk (store_device store')) store t"
    using holds_other_slot [OF inv(3)] inv(2) by (simp add: inside_slot_def slots_fit_def)
  then show ?thesis
    using inside assms(1) by (subst eq) (simp add: store_inv_def inside_slot_def)
qed

lemma stored_save_ok:
  assumes "store_inv D disk ready store t" "tree_rep tree" "snapshot_save D store tree = Some (Ok u, store')"
  shows "store_inv D disk ready store' (Some tree)"
    "inside_slot (target_slot store) (slot_blocks store) (store_device store) (store_device store')"
    "store' = store\<lparr>store_device := store_device store', active_slot := Some (target_slot store),
       store_generation := saturating_add (store_generation store) 1\<rparr>"
proof -
  let ?b = "unat (slot_blocks store)" and ?t = "unat (target_slot store)"
  from assms(1) have inv: "ready (store_device store)" "slots_fit D (store_device store) (slot_blocks store)"
    "holds (disk (store_device store)) store t" "slot_blocks store = block_count D (store_device store) div 2"
    by (auto simp: store_inv_def)
  note target = holds_target [OF inv(3)]
  note pos = slot_position [OF inv(2) target]
  from snapshot_save_run [OF assms(3)]
  have run: "save_run D store tree (Ok u) (store_device store')"
    and eq: "store' = store\<lparr>store_device := store_device store', active_slot := Some (target_slot store),
       store_generation := saturating_add (store_generation store) 1\<rparr>" by simp_all
  from save_run_effect [OF run inv(1,2) target]
  have inside: "inside_slot (target_slot store) (slot_blocks store) (store_device store) (store_device store')"
    and fits: "save_fits store tree"
    and disk': "disk (store_device store') = put_slice (?t * ?b * BLOCK_SIZE) (saved_header store tree)
      (put_slice ((?t * ?b + 1) * BLOCK_SIZE) (padded_payload (tree_bytes tree)) (disk (store_device store)))"
    by (auto simp: Let_def)
  show "inside_slot (target_slot store) (slot_blocks store) (store_device store) (store_device store')"
    by (rule inside)
  show "store' = store\<lparr>store_device := store_device store', active_slot := Some (target_slot store),
       store_generation := saturating_add (store_generation store) 1\<rparr>" by (rule eq)
  have blocks: "div_ceil (length (tree_bytes tree)) BLOCK_SIZE \<le> ?b - 1" "1 \<le> ?b"
    using fits pos(3) inv(2) by (simp_all add: save_fits_def slots_fit_def)
  have room: "(?t * ?b + ?b) * BLOCK_SIZE \<le> length (disk (store_device store))"
    unfolding disk_size [OF inv(1)] using pos(4) by (rule mult_le_mono1)
  have small: "length (tree_bytes tree) < 2 ^ 64"
  proof -
    have "length (tree_bytes tree) \<le> (?b - 1) * BLOCK_SIZE"
      using div_ceil_bound [of "length (tree_bytes tree)"] mult_le_mono1 [OF blocks(1), of BLOCK_SIZE] by linarith
    also have "\<dots> \<le> (?t * ?b + ?b) * BLOCK_SIZE" by (rule mult_le_mono1) simp
    finally show ?thesis using room disk_addressable [OF inv(1)] by linarith
  qed
  have "slot_on (disk (store_device store')) ?t ?b = Ok (Some
      \<lparr>snapshot_generation = saturating_add (store_generation store) 1, snapshot_tree = tree\<rparr>)"
    unfolding disk' saved_header_def
    using slot_on_written [OF blocks room small] decode_tree_bytes [OF assms(2) _ small] fits
    by (simp add: save_fits_def)
  then have "holds (disk (store_device store')) store' (Some tree)"
    using target by (subst eq) (simp add: holds_def)
  moreover have "slot_blocks store' = slot_blocks store" by (subst eq) simp
  ultimately show "store_inv D disk ready store' (Some tree)"
    using inside inv(4) by (simp add: store_inv_def inside_slot_def)
qed

end

text \<open>Opening a medium whose active slot is intact and whose other slot is empty or older gives the
  store back.\<close>

definition superseded :: "decoded_snapshot option \<Rightarrow> u64 \<Rightarrow> bool" where
  "superseded other generation \<longleftrightarrow> (case other of None \<Rightarrow> True
     | Some s \<Rightarrow> snapshot_generation s < generation)"

lemma mount_slots_active:
  assumes "holds disk store (Some t)"
    and "slot_on disk (unat (target_slot store)) (unat (slot_blocks store)) = Ok other"
    and "superseded other (store_generation store)"
  shows "\<exists>slot. active_slot store = Some slot \<and> mount_slots disk (unat (slot_blocks store)) =
    Ok (Some (slot, \<lparr>snapshot_generation = store_generation store, snapshot_tree = t\<rparr>))"
proof -
  from assms(1) obtain slot where "active_slot store = Some slot" "slot = 0 \<or> slot = 1"
    "slot_on disk (unat slot) (unat (slot_blocks store)) =
      Ok (Some \<lparr>snapshot_generation = store_generation store, snapshot_tree = t\<rparr>)"
    by (auto simp: holds_def split: option.splits)
  then show ?thesis
    using assms(2,3) by (cases other) (auto simp: mount_slots_def target_slot_def superseded_def select_slot_def)
qed

lemma saturating_less:
  fixes g :: u64
  assumes "g \<noteq> - 1"
  shows "g < saturating_add g 1"
proof -
  have "unat g \<noteq> unat (- 1 :: u64)" using assms by (simp only: word_unat_eq_iff [symmetric] not_False_eq_True)
  then have "unat g + 1 < 2 ^ 64"
    using unsigned_less [of g, where ?'a = nat] by (simp add: unsigned_minus_1_eq_mask mask_eq_exp_minus_1)
  then show ?thesis by (simp add: word_less_nat_alt unat_saturating_add)
qed

context reliable_blocks
begin

lemma reopen_active:
  assumes "holds (disk d) store (Some t)" "ready d" "slot_blocks store = block_count D d div 2"
    "slots_fit D d (slot_blocks store)"
    "slot_on (disk d) (unat (target_slot store)) (unat (slot_blocks store)) = Ok other"
    "superseded other (store_generation store)"
  shows "\<exists>d'. snapshot_open D d = Some (Ok (store\<lparr>store_device := d'\<rparr>, Some t))"
proof -
  from mount_slots_active [OF assms(1,5,6)] obtain slot where "active_slot store = Some slot"
    "mount_slots (disk d) (unat (block_count D d div 2)) =
      Ok (Some (slot, \<lparr>snapshot_generation = store_generation store, snapshot_tree = t\<rparr>))"
    using assms(3) by auto
  with snapshot_open_completes [OF assms(2), of "Some (slot, _)"] assms(3,4)
  show ?thesis by (cases store) (simp add: opened_store_def)
qed

lemma reopen_after_save:
  assumes "store_inv D disk ready store t" "tree_rep tree" "snapshot_save D store tree = Some (Ok u, store')"
    and "store_generation store \<noteq> - 1"
  shows "\<exists>d'. snapshot_open D (store_device store') = Some (Ok (store'\<lparr>store_device := d'\<rparr>, Some tree))"
proof -
  note saved = stored_save_ok [OF assms(1-3)]
  have inv: "holds (disk (store_device store)) store t" "slots_fit D (store_device store) (slot_blocks store)"
    using assms(1) by (auto simp: store_inv_def)
  have same: "slot_blocks store' = slot_blocks store" by (subst saved(3)) simp
  have gen: "store_generation store < store_generation store'"
    by (subst saved(3)) (simp add: saturating_less assms(4))
  have "holds (disk (store_device store')) store t"
    using holds_other_slot [OF inv(1)] saved(2) inv(2) by (simp add: inside_slot_def slots_fit_def)
  moreover have target: "target_slot store' = 1 - target_slot store"
    by (subst saved(3)) (simp add: target_slot_def)
  ultimately obtain other where "slot_on (disk (store_device store')) (unat (target_slot store'))
      (unat (slot_blocks store')) = Ok other" "superseded other (store_generation store')"
    using gen same target by (auto simp: holds_def target_slot_def superseded_def split: option.splits)
  then show ?thesis
    using saved(1) by (intro reopen_active) (auto simp: store_inv_def)
qed

end

section \<open>The memory device keeps the contract\<close>

definition memory_ready :: "bytes \<Rightarrow> bool" where
  "memory_ready blocks \<longleftrightarrow> BLOCK_SIZE dvd length blocks \<and> length blocks < 2 ^ 64"

lemma memory_block_count_size:
  assumes "memory_ready d"
  shows "unat (memory_block_count d) * BLOCK_SIZE = length d"
proof -
  have "length d div BLOCK_SIZE < 2 ^ 64"
    using assms by (simp add: memory_ready_def less_mult_imp_div_less)
  then have "unat (memory_block_count d) = length d div BLOCK_SIZE"
    by (simp add: memory_block_count_def unat_of_nat)
  then show ?thesis using assms by (simp add: memory_ready_def)
qed

interpretation mem: reliable_blocks memory_device "\<lambda>d. d" memory_ready
proof
  show "length d = unat (block_count memory_device d) * BLOCK_SIZE" if "memory_ready d" for d
    using memory_block_count_size [OF that] by (simp add: memory_device_def)
qed (auto simp: memory_device_def memory_read_blocks_def memory_write_blocks_def memory_ready_def
    memory_block_count_def Let_def split: if_splits)

section \<open>The promises of the snapshot store\<close>

text \<open>C5: persistence. On any device that keeps the block contract, a tree that was saved
  successfully is the tree the next boot opens, and the reopened store continues where the saving one
  stopped; the one exception is a store whose 64-bit generation counter is exhausted.\<close>

theorem save_then_open:
  assumes "reliable_blocks D disk ready" "store_inv D disk ready store t" "tree_rep tree"
    and "store_generation store \<noteq> - 1" "snapshot_save D store tree = Some (Ok u, store')"
  shows "\<exists>d. snapshot_open D (store_device store') = Some (Ok (store'\<lparr>store_device := d\<rparr>, Some tree))"
  by (rule reliable_blocks.reopen_after_save [OF assms(1,2,3,5,4)])

text \<open>A blank disk of four blocks, for the concrete instances.\<close>

definition blank_store :: "bytes snapshot_store" where
  "blank_store = \<lparr>store_device = replicate 2048 0, slot_blocks = 2, active_slot = None, store_generation = 0\<rparr>"

definition small_tree :: file_tree where
  "small_tree = \<lparr>tree_files = [(''user/a'', [7])], tree_directories = [''user'']\<rparr>"

lemma blank_store_inv: "store_inv memory_device (\<lambda>d. d) memory_ready blank_store None"
  by (simp add: store_inv_def blank_store_def memory_ready_def slots_fit_def memory_device_def
      memory_block_count_def holds_def slot_on_def slot_of_def slot_header_def
      list_all_iff)

lemma small_tree_rep: "tree_rep small_tree"
  by (simp add: tree_rep_def small_tree_def) code_simp

lemma memory_save_completes:
  assumes "store_inv memory_device (\<lambda>d. d) memory_ready store t" "save_fits store tree"
  shows "\<exists>store'. snapshot_save memory_device store tree = Some (Ok (), store')"
proof -
  let ?b = "slot_blocks store" and ?t = "target_slot store" and ?d = "store_device store"
  have inv: "memory_ready ?d" "slots_fit memory_device ?d ?b" "?t = 0 \<or> ?t = 1"
    using assms(1) holds_target by (auto simp: store_inv_def)
  note pos = slot_position [OF inv(2,3)]
  have two: "2 \<le> unat ?b" using inv(2) by (simp add: slots_fit_def)
  have blocks: "div_ceil (length (tree_bytes tree)) BLOCK_SIZE \<le> unat ?b - 1"
    using assms(2) pos(3) by (simp add: save_fits_def)
  note range = mem.slot_in_range [OF inv blocks]
  obtain d1 where "payload_write memory_device store tree = Some (Ok (), d1)" "length d1 = length ?d"
    using range(2) by (simp add: payload_write_def memory_device_def memory_write_blocks_def)
  moreover then obtain d2 where "header_write memory_device store tree d1 = Some (Ok (), d2)"
    using range(1) by (simp add: header_write_def memory_device_def memory_write_blocks_def saved_header_def)
  ultimately show ?thesis
    using assms(2) by (simp add: snapshot_save_steps Let_def memory_device_def)
qed

lemma blank_store_save: "\<exists>store'. snapshot_save memory_device blank_store small_tree = Some (Ok (), store')"
proof -
  have "save_fits blank_store small_tree"
    by (simp add: save_fits_def within_limits_def tree_bytes_def blank_store_def small_tree_def
        string_bytes_def file_bytes_def div_ceil_def)
  with blank_store_inv show ?thesis by (rule memory_save_completes)
qed

theorem save_then_open_witness:
  "\<exists>store' d. snapshot_save memory_device blank_store small_tree = Some (Ok (), store') \<and>
     snapshot_open memory_device (store_device store') = Some (Ok (store'\<lparr>store_device := d\<rparr>, Some small_tree))"
proof -
  obtain store' where run: "snapshot_save memory_device blank_store small_tree = Some (Ok (), store')"
    using blank_store_save by blast
  have "store_generation blank_store \<noteq> - 1" by (simp add: blank_store_def)
  from save_then_open [OF mem.reliable_blocks_axioms blank_store_inv small_tree_rep this run]
  show ?thesis using run by blast
qed


text \<open>C13: a save, whatever its outcome, writes inside the slot that is not active; when it fails the
  store still holds the tree it held, and when it succeeds it holds the new one.\<close>

theorem save_spares_active_slot:
  assumes "block_contract D disk ready" "store_inv D disk ready store t" "tree_rep tree"
    and "snapshot_save D store tree = Some (r, store')"
  shows "active_slot store \<noteq> Some (target_slot store) \<and>
    same_outside_slot (unat (target_slot store)) (unat (slot_blocks store))
      (disk (store_device store)) (disk (store_device store')) \<and>
    store_inv D disk ready store' (if isl r then t else Some tree)"
proof (intro conjI)
  have inv: "ready (store_device store)" "slots_fit D (store_device store) (slot_blocks store)"
      "target_slot store = 0 \<or> target_slot store = 1" "holds (disk (store_device store)) store t"
    using assms(2) holds_target by (auto simp: store_inv_def)
  show "active_slot store \<noteq> Some (target_slot store)"
    using inv(4) by (auto simp: holds_def target_slot_def split: option.splits)
  show "same_outside_slot (unat (target_slot store)) (unat (slot_blocks store))
      (disk (store_device store)) (disk (store_device store'))"
    using block_contract.save_run_effect [OF assms(1) conjunct1 [OF snapshot_save_run [OF assms(4)]] inv(1-3)]
    by (simp add: block_contract.inside_slot_def [OF assms(1)])
  show "store_inv D disk ready store' (if isl r then t else Some tree)"
    using block_contract.stored_save_err [OF assms(1,2)] block_contract.stored_save_ok(1) [OF assms(1-3)] assms(4)
    by (cases r) auto
qed

lemma blank_saved:
  obtains store' where "snapshot_save memory_device blank_store small_tree = Some (Ok (), store')"
    "store_inv memory_device (\<lambda>d. d) memory_ready store' (Some small_tree)"
    "store_generation store' = 1" "active_slot store' = Some 0"
    "slot_on (store_device store') 1 (unat (slot_blocks store')) = Ok None"
proof -
  obtain store' where run: "snapshot_save memory_device blank_store small_tree = Some (Ok (), store')"
    using blank_store_save by blast
  note saved = mem.stored_save_ok [OF blank_store_inv small_tree_rep run]
  have "target_slot blank_store = 0" "store_generation blank_store = 0"
    by (simp_all add: target_slot_def blank_store_def)
  moreover then have "holds (store_device store') blank_store None"
    using holds_other_slot [of "store_device blank_store" blank_store None "store_device store'"]
      blank_store_inv saved(2)
    by (simp add: store_inv_def mem.inside_slot_def slots_fit_def)
  moreover have "slot_blocks store' = slot_blocks blank_store" by (subst saved(3)) simp
  moreover have "store_generation store' = saturating_add 0 1" "active_slot store' = Some 0"
    using calculation(1,2) by (subst saved(3), simp)+
  ultimately show thesis
    using run saved(1) by (intro that) (auto simp: holds_def saturating_add_def blank_store_def)
qed


theorem save_spares_active_slot_witness:
  "\<exists>store'. snapshot_save memory_device blank_store small_tree = Some (Ok (), store') \<and>
     store_inv memory_device (\<lambda>d. d) memory_ready store' (Some small_tree)"
proof -
  obtain store' where run: "snapshot_save memory_device blank_store small_tree = Some (Ok (), store')"
    using blank_store_save by blast
  from save_spares_active_slot [OF mem.block_contract_axioms blank_store_inv small_tree_rep run]
  show ?thesis using run by simp
qed

end
