(* ===== verification/Net.thy ===== *)
theory Net
  imports Api BTree
begin

text \<open>
  \<^verbatim>\<open>platforms/bare-metal/src/net.rs\<close>: the polled TCP/IP stack. The protocol implementation is a
  library: its interface with the device and the socket set is a state \<open>'n\<close>, and the methods that
  \<^verbatim>\<open>NetStack\<close> calls are the record \<open>smoltcp\<close>. A socket handle that is not in the set, or that names a
  socket of another type, panics, the outcome \<open>None\<close>. Every blocking call is the same loop: poll, look
  at the sockets, ask the cancellation probe, compare the clock with the deadline. It is written once,
  as \<open>poll_until\<close>, a \<open>partial_function\<close>, because it ends only when the clock advances.
\<close>

section \<open>The network device\<close>

record 'k net_device =
  nic_mac :: "'k \<Rightarrow> bytes"
  nic_can_send :: "'k \<Rightarrow> bool"
  nic_receive :: "'k \<Rightarrow> bytes option \<times> 'k"
  nic_transmit :: "'k \<Rightarrow> bytes \<Rightarrow> 'k"

definition MTU :: nat where "MTU = 1514"
definition TCP_RX_BUFFER :: nat where "TCP_RX_BUFFER = 16 * 1024"
definition TCP_TX_BUFFER :: nat where "TCP_TX_BUFFER = 8 * 1024"
definition FIRST_EPHEMERAL_PORT :: u16 where "FIRST_EPHEMERAL_PORT = 49152"

datatype net_error =
    NoLease
  | NameResolution string
  | Timeout string
  | Cancelled
  | Closed
  | Socket string

text \<open>\<^verbatim>\<open>SmolDevice\<close>: receiving hands out the frame, with the right to transmit; a transmit token may be
  had when the device can send.\<close>

definition smol_receive :: "'k net_device \<Rightarrow> 'k \<Rightarrow> bytes option \<times> 'k" where
  "smol_receive K k = (case nic_receive K k of (None, k) \<Rightarrow> (None, k) | (Some frame, k) \<Rightarrow> (Some frame, k))"

definition smol_transmit :: "'k net_device \<Rightarrow> 'k \<Rightarrow> bool" where
  "smol_transmit K k = nic_can_send K k"

definition rx_consume :: "bytes \<Rightarrow> (bytes \<Rightarrow> 'r) \<Rightarrow> 'r" where
  "rx_consume frame f = f frame"

definition tx_consume :: "'k net_device \<Rightarrow> nat \<Rightarrow> (bytes \<Rightarrow> 'r \<times> bytes) \<Rightarrow> 'k \<Rightarrow> 'r \<times> 'k" where
  "tx_consume K len f k = (case f (replicate len 0) of (result, buffer) \<Rightarrow> (result, nic_transmit K k buffer))"

section \<open>The protocol library\<close>

type_synonym ipv4 = bytes
type_synonym cidr = "ipv4 \<times> u8"
type_synonym handle = nat

datatype dhcp_event = Configured cidr "ipv4 option" "ipv4 list" | Deconfigured
datatype query_error = Pending | Failed string
datatype tcp_state = Established | ClosedState | OtherState

record 'n smoltcp =
  iface_poll :: "int \<Rightarrow> 'n \<Rightarrow> 'n"
  dhcp_poll :: "handle \<Rightarrow> 'n \<Rightarrow> (dhcp_event option \<times> 'n) option"
  update_ip_addrs :: "cidr list \<Rightarrow> 'n \<Rightarrow> 'n"
  remove_default_ipv4_route :: "'n \<Rightarrow> 'n"
  add_default_ipv4_route :: "ipv4 \<Rightarrow> 'n \<Rightarrow> 'n"
  update_servers :: "handle \<Rightarrow> ipv4 list \<Rightarrow> 'n \<Rightarrow> 'n option"
  start_query :: "handle \<Rightarrow> string \<Rightarrow> 'n \<Rightarrow> ((string + nat) \<times> 'n) option"
  get_query_result :: "handle \<Rightarrow> nat \<Rightarrow> 'n \<Rightarrow> ((query_error + ipv4 list) \<times> 'n) option"
  tcp_add :: "nat \<Rightarrow> nat \<Rightarrow> 'n \<Rightarrow> handle \<times> 'n"
  tcp_connect :: "handle \<Rightarrow> ipv4 \<Rightarrow> u16 \<Rightarrow> u16 \<Rightarrow> 'n \<Rightarrow> ((string + unit) \<times> 'n) option"
  tcp_state_of :: "handle \<Rightarrow> 'n \<Rightarrow> tcp_state option"
  tcp_may_send :: "handle \<Rightarrow> 'n \<Rightarrow> bool option"
  tcp_can_send :: "handle \<Rightarrow> 'n \<Rightarrow> bool option"
  tcp_may_recv :: "handle \<Rightarrow> 'n \<Rightarrow> bool option"
  tcp_can_recv :: "handle \<Rightarrow> 'n \<Rightarrow> bool option"
  tcp_send_slice :: "handle \<Rightarrow> bytes \<Rightarrow> 'n \<Rightarrow> ((string + nat) \<times> 'n) option"
  tcp_recv_slice :: "handle \<Rightarrow> nat \<Rightarrow> 'n \<Rightarrow> ((string + nat \<times> bytes) \<times> 'n) option"
  tcp_close :: "handle \<Rightarrow> 'n \<Rightarrow> 'n option"
  sockets_remove :: "handle \<Rightarrow> 'n \<Rightarrow> 'n option"
  sockets_new :: "bytes \<Rightarrow> u64 \<Rightarrow> int \<Rightarrow> 'n \<Rightarrow> handle \<times> handle \<times> 'n"

section \<open>The stack\<close>

record 'n net_stack =
  net_core :: 'n
  net_dhcp :: handle
  net_dns :: handle
  connections :: "(u64, handle) btree_map"
  next_handle :: u64
  next_port :: u16
  net_mac :: bytes
  net_address :: "cidr option"
  net_gateway :: "ipv4 option"
  dns_servers :: "ipv4 list"

definition instant :: "u64 \<Rightarrow> int" where
  "instant now_millis = min (uint now_millis) (2 ^ 63 - 1)"

text \<open>\<^verbatim>\<open>NetStack::new\<close>; \<open>sockets_new\<close> makes the interface and a socket set with a DHCP and a DNS socket.\<close>

definition net_new :: "'n smoltcp \<Rightarrow> bytes \<Rightarrow> 'n \<Rightarrow> u64 \<Rightarrow> u64 \<Rightarrow> 'n net_stack" where
  "net_new N mac_bytes core now_millis seed = (case sockets_new N mac_bytes seed (instant now_millis) core of
     (dhcp, dns, core) \<Rightarrow> \<lparr>net_core = core, net_dhcp = dhcp, net_dns = dns, connections = [], next_handle = 1,
       next_port = FIRST_EPHEMERAL_PORT, net_mac = mac_bytes, net_address = None, net_gateway = None, dns_servers = []\<rparr>)"

definition net_poll :: "'n smoltcp \<Rightarrow> u64 \<Rightarrow> 'n net_stack \<Rightarrow> 'n net_stack option" where
  "net_poll N now_millis st =
     (case dhcp_poll N (net_dhcp st) (iface_poll N (instant now_millis) (net_core st)) of
        None \<Rightarrow> None
      | Some (None, core) \<Rightarrow> Some (st\<lparr>net_core := core\<rparr>)
      | Some (Some (Configured addr router servers), core) \<Rightarrow>
          let core = remove_default_ipv4_route N (update_ip_addrs N [addr] core);
              core = (case router of None \<Rightarrow> core | Some gw \<Rightarrow> add_default_ipv4_route N gw core)
          in map_option (\<lambda>core. st\<lparr>net_core := core, net_address := Some addr, net_gateway := router,
               dns_servers := servers\<rparr>) (update_servers N (net_dns st) servers core)
      | Some (Some Deconfigured, core) \<Rightarrow>
          Some (st\<lparr>net_core := remove_default_ipv4_route N (update_ip_addrs N [] core),
            net_address := None, net_gateway := None\<rparr>))"

definition is_configured :: "'n net_stack \<Rightarrow> bool" where
  "is_configured st \<longleftrightarrow> net_address st \<noteq> None"

definition show_ipv4 :: "ipv4 \<Rightarrow> string" where
  "show_ipv4 a = join CHR ''.'' (map (\<lambda>b. show_nat (unat b)) a)"

definition hex_digit_lower :: "nat \<Rightarrow> char" where
  "hex_digit_lower n = ''0123456789abcdef'' ! n"

definition format_mac :: "bytes \<Rightarrow> string" where
  "format_mac m = join CHR '':'' (map (\<lambda>b. [hex_digit_lower (unat b div 16), hex_digit_lower (unat b mod 16)]) m)"

definition net_status_of :: "'n net_stack \<Rightarrow> net_status" where
  "net_status_of st = \<lparr>link_up = True, mac = format_mac (net_mac st),
     address = map_option (\<lambda>(a, prefix_len). show_ipv4 a @ ''/'' @ show_nat (unat prefix_len)) (net_address st),
     gateway = map_option show_ipv4 (net_gateway st)\<rparr>"

definition allocate_port :: "'n net_stack \<Rightarrow> u16 \<times> 'n net_stack" where
  "allocate_port st = (next_port st, st\<lparr>next_port :=
     (if next_port st = - 1 then FIRST_EPHEMERAL_PORT else next_port st + 1)\<rparr>)"

definition parse_octet :: "string \<Rightarrow> u8 option" where
  "parse_octet s = map_option word_of_nat (parse_unsigned 255 s)"

definition parse_ipv4 :: "string \<Rightarrow> ipv4 option" where
  "parse_ipv4 host = (case split_on CHR ''.'' host of
       [a, b, c, d] \<Rightarrow> (case (parse_octet a, parse_octet b, parse_octet c, parse_octet d) of
           (Some a, Some b, Some c, Some d) \<Rightarrow> Some [a, b, c, d] | _ \<Rightarrow> None)
     | _ \<Rightarrow> None)"

section \<open>Blocking calls\<close>

type_synonym 'w clock = "'w \<Rightarrow> u64 \<times> 'w"
type_synonym 'w probe = "'w \<Rightarrow> bool \<times> 'w"
type_synonym ('n, 'w, 'a) net_outcome = "((net_error + 'a) \<times> 'n net_stack \<times> 'w) option"

text \<open>\<open>look\<close> examines the sockets after a poll: \<open>Some (Some r, st)\<close> ends the call with \<open>r\<close>. When the user
  cancels or the deadline has passed, \<open>cleanup\<close> runs before the error is returned.\<close>

partial_function (option) poll_until ::
  "'n smoltcp \<Rightarrow> 'w clock \<Rightarrow> 'w probe \<Rightarrow> u64 \<Rightarrow> ('n net_stack \<Rightarrow> ((net_error + 'a) option \<times> 'n net_stack) option)
     \<Rightarrow> ('n net_stack \<Rightarrow> 'n net_stack option) \<Rightarrow> net_error \<Rightarrow> 'n net_stack \<Rightarrow> 'w \<Rightarrow> ('n, 'w, 'a) net_outcome" where
  "poll_until N clock cancel deadline look cleanup late st w =
     (case clock w of (now, w) \<Rightarrow> (case net_poll N now st of None \<Rightarrow> None | Some st \<Rightarrow> (case look st of
        None \<Rightarrow> None
      | Some (Some r, st) \<Rightarrow> Some (r, st, w)
      | Some (None, st) \<Rightarrow>
          (case cancel w of (cancelled, w) \<Rightarrow>
           if cancelled then (case cleanup st of None \<Rightarrow> None | Some st \<Rightarrow> Some (Err Cancelled, st, w))
           else (case clock w of (now, w) \<Rightarrow>
             if now \<ge> deadline then (case cleanup st of None \<Rightarrow> None | Some st \<Rightarrow> Some (Err late, st, w))
             else poll_until N clock cancel deadline look cleanup late st w)))))"

text \<open>The wait for a lease at the start of \<^verbatim>\<open>connect\<close>.\<close>

definition await_configured ::
  "'n smoltcp \<Rightarrow> 'w clock \<Rightarrow> 'w probe \<Rightarrow> u64 \<Rightarrow> 'n net_stack \<Rightarrow> 'w \<Rightarrow> ('n, 'w, unit) net_outcome" where
  "await_configured N clock cancel deadline st w =
     (if is_configured st then Some (Ok (), st, w)
      else poll_until N clock cancel deadline
        (\<lambda>st. Some (if is_configured st then Some (Ok ()) else None, st)) Some NoLease st w)"

definition look_query ::
  "'n smoltcp \<Rightarrow> nat \<Rightarrow> 'n net_stack \<Rightarrow> ((net_error + ipv4) option \<times> 'n net_stack) option" where
  "look_query N query st = (case get_query_result N (net_dns st) query (net_core st) of
       None \<Rightarrow> None
     | Some (r, core) \<Rightarrow> Some (case r of
           Inr addresses \<Rightarrow> Some (case addresses of
               [] \<Rightarrow> Err (NameResolution ''host has no IPv4 address'') | a # _ \<Rightarrow> Ok a)
         | Inl Pending \<Rightarrow> None
         | Inl (Failed e) \<Rightarrow> Some (Err (NameResolution e)), st\<lparr>net_core := core\<rparr>))"

definition net_resolve ::
  "'n smoltcp \<Rightarrow> 'w clock \<Rightarrow> 'w probe \<Rightarrow> string \<Rightarrow> u64 \<Rightarrow> 'n net_stack \<Rightarrow> 'w \<Rightarrow> ('n, 'w, ipv4) net_outcome" where
  "net_resolve N clock cancel host deadline st w = (case parse_ipv4 host of
       Some a \<Rightarrow> Some (Ok a, st, w)
     | None \<Rightarrow>
         if dns_servers st = [] then Some (Err (NameResolution ''no DNS server was offered by DHCP''), st, w)
         else (case start_query N (net_dns st) host (net_core st) of
             None \<Rightarrow> None
           | Some (Inl e, core) \<Rightarrow> Some (Err (NameResolution e), st\<lparr>net_core := core\<rparr>, w)
           | Some (Inr query, core) \<Rightarrow> poll_until N clock cancel deadline (look_query N query) Some
               (Timeout ''DNS resolution timed out'') (st\<lparr>net_core := core\<rparr>) w))"

definition on_core :: "'n net_stack \<Rightarrow> 'n option \<Rightarrow> 'n net_stack option" where
  "on_core st m = map_option (\<lambda>core. st\<lparr>net_core := core\<rparr>) m"

definition look_connected ::
  "'n smoltcp \<Rightarrow> handle \<Rightarrow> 'n net_stack \<Rightarrow> ((net_error + unit) option \<times> 'n net_stack) option" where
  "look_connected N h st = (case tcp_state_of N h (net_core st) of
       None \<Rightarrow> None
     | Some Established \<Rightarrow> Some (Some (Ok ()), st)
     | Some ClosedState \<Rightarrow> map_option (\<lambda>st. (Some (Err (Socket ''connection refused'')), st))
         (on_core st (sockets_remove N h (net_core st)))
     | Some OtherState \<Rightarrow> Some (None, st))"

text \<open>From the allocation of the port to the established connection.\<close>

definition open_socket ::
  "'n smoltcp \<Rightarrow> 'w clock \<Rightarrow> 'w probe \<Rightarrow> ipv4 \<Rightarrow> u16 \<Rightarrow> u64 \<Rightarrow> 'n net_stack \<Rightarrow> 'w \<Rightarrow> ('n, 'w, handle) net_outcome" where
  "open_socket N clock cancel addr port deadline st w =
     (let (local_port, st) = allocate_port st;
          (h, core) = tcp_add N TCP_RX_BUFFER TCP_TX_BUFFER (net_core st)
      in case tcp_connect N h addr port local_port core of
        None \<Rightarrow> None
      | Some (Inl e, core) \<Rightarrow> Some (Err (Socket e), st\<lparr>net_core := core\<rparr>, w)
      | Some (Inr _, core) \<Rightarrow>
          bind (poll_until N clock cancel deadline (look_connected N h)
              (\<lambda>st. on_core st (sockets_remove N h (net_core st)))
              (Timeout ''connection timed out'') (st\<lparr>net_core := core\<rparr>) w)
            (\<lambda>_ s. Some (Ok h, s)))"

definition net_stack_connect ::
  "'n smoltcp \<Rightarrow> 'w clock \<Rightarrow> 'w probe \<Rightarrow> 'n net_stack \<times> 'w \<Rightarrow> string \<Rightarrow> u16 \<Rightarrow> u64 \<Rightarrow> ('n, 'w, u64) net_outcome" where
  "net_stack_connect N clock cancel s host port timeout_millis = (let (st, w) = s; (now, w) = clock w; deadline = saturating_add now timeout_millis in
     bind (await_configured N clock cancel deadline st w) (\<lambda>_ (st, w).
     bind (net_resolve N clock cancel host deadline st w) (\<lambda>addr (st, w).
     bind (open_socket N clock cancel addr port deadline st w) (\<lambda>h (st, w).
     let conn = next_handle st in
     Some (Ok conn, st\<lparr>next_handle := next_handle st + 1, connections := map_insert conn h (connections st)\<rparr>, w)))))"

definition look_send ::
  "'n smoltcp \<Rightarrow> handle \<Rightarrow> bytes \<Rightarrow> 'n net_stack \<Rightarrow> ((net_error + nat) option \<times> 'n net_stack) option" where
  "look_send N h data st = (case tcp_may_send N h (net_core st) of
       None \<Rightarrow> None
     | Some False \<Rightarrow> Some (Some (Err Closed), st)
     | Some True \<Rightarrow> (case tcp_can_send N h (net_core st) of
           None \<Rightarrow> None
         | Some False \<Rightarrow> Some (None, st)
         | Some True \<Rightarrow> (case tcp_send_slice N h data (net_core st) of
               None \<Rightarrow> None
             | Some (r, core) \<Rightarrow> Some (Some (map_err Socket r), st\<lparr>net_core := core\<rparr>))))"

definition net_stack_send ::
  "'n smoltcp \<Rightarrow> 'w clock \<Rightarrow> 'w probe \<Rightarrow> 'n net_stack \<times> 'w \<Rightarrow> u64 \<Rightarrow> bytes \<Rightarrow> ('n, 'w, nat) net_outcome" where
  "net_stack_send N clock cancel s conn data = (let (st, w) = s in
     case map_get (connections st) conn of
       None \<Rightarrow> Some (Err Closed, st, w)
     | Some h \<Rightarrow> (let (now, w) = clock w in
         bind (poll_until N clock cancel (saturating_add now 15000) (look_send N h data) Some
             (Timeout ''send timed out'') st w) (\<lambda>sent (st, w).
           let (now, w) = clock w in map_option (\<lambda>st. (Ok sent, st, w)) (net_poll N now st))))"

definition look_recv ::
  "'n smoltcp \<Rightarrow> handle \<Rightarrow> nat \<Rightarrow> 'n net_stack \<Rightarrow> ((net_error + nat \<times> bytes) option \<times> 'n net_stack) option" where
  "look_recv N h n st = (case tcp_can_recv N h (net_core st) of
       None \<Rightarrow> None
     | Some True \<Rightarrow> (case tcp_recv_slice N h n (net_core st) of
           None \<Rightarrow> None
         | Some (r, core) \<Rightarrow> Some (Some (map_err Socket r), st\<lparr>net_core := core\<rparr>))
     | Some False \<Rightarrow> (case tcp_may_recv N h (net_core st) of
           None \<Rightarrow> None
         | Some False \<Rightarrow> Some (Some (Ok (0, replicate n 0)), st)
         | Some True \<Rightarrow> Some (None, st)))"

definition net_stack_recv ::
  "'n smoltcp \<Rightarrow> 'w clock \<Rightarrow> 'w probe \<Rightarrow> 'n net_stack \<times> 'w \<Rightarrow> u64 \<Rightarrow> nat \<Rightarrow> ('n, 'w, nat \<times> bytes) net_outcome" where
  "net_stack_recv N clock cancel s conn n = (let (st, w) = s in
     case map_get (connections st) conn of
       None \<Rightarrow> Some (Err Closed, st, w)
     | Some h \<Rightarrow> (let (now, w) = clock w in
         poll_until N clock cancel (saturating_add now 15000) (look_recv N h n) Some
           (Timeout ''receive timed out'') st w))"

definition net_stack_close :: "'n smoltcp \<Rightarrow> 'w clock \<Rightarrow> 'n net_stack \<times> 'w \<Rightarrow> u64 \<Rightarrow> ('n net_stack \<times> 'w) option" where
  "net_stack_close N clock s conn = (let (st, w) = s in
     case map_get (connections st) conn of
       None \<Rightarrow> Some (st, w)
     | Some h \<Rightarrow>
         (case on_core (st\<lparr>connections := map_remove conn (connections st)\<rparr>) (tcp_close N h (net_core st)) of
            None \<Rightarrow> None
          | Some st \<Rightarrow> (let (now, w) = clock w in (case net_poll N now st of
                None \<Rightarrow> None
              | Some st \<Rightarrow> map_option (\<lambda>st. (st, w)) (on_core st (sockets_remove N h (net_core st)))))))"

section \<open>What is known of the library, the clock and the probe\<close>

datatype socket_kind = DhcpSocket | DnsSocket | TcpSocket

text \<open>A call on a socket that is there returns and leaves the set of sockets alone.\<close>

definition works :: "('n \<Rightarrow> handle \<Rightarrow> socket_kind option) \<Rightarrow> 'n \<Rightarrow> ('r \<times> 'n) option \<Rightarrow> bool" where
  "works kinds s m \<longleftrightarrow> (\<exists>r s'. m = Some (r, s') \<and> kinds s' = kinds s)"

text \<open>\<open>kinds s\<close> says which handles are in the set, with the type of their socket. The documented
  behaviour: polling and configuring keep the set, a method works on every handle of its type, adding
  takes a fresh handle, removing takes it out.\<close>

definition interface_laws :: "'n smoltcp \<Rightarrow> ('n \<Rightarrow> handle \<Rightarrow> socket_kind option) \<Rightarrow> bool" where
  "interface_laws N kinds \<longleftrightarrow> (\<forall>s t addrs gw.
     kinds (iface_poll N t s) = kinds s \<and> kinds (update_ip_addrs N addrs s) = kinds s
     \<and> kinds (remove_default_ipv4_route N s) = kinds s \<and> kinds (add_default_ipv4_route N gw s) = kinds s)"

definition service_laws :: "'n smoltcp \<Rightarrow> ('n \<Rightarrow> handle \<Rightarrow> socket_kind option) \<Rightarrow> bool" where
  "service_laws N kinds \<longleftrightarrow> (\<forall>s h servers host q.
     (kinds s h = Some DhcpSocket \<longrightarrow> works kinds s (dhcp_poll N h s))
     \<and> (kinds s h = Some DnsSocket \<longrightarrow>
          works kinds s (map_option (Pair ()) (update_servers N h servers s))
          \<and> works kinds s (start_query N h host s) \<and> works kinds s (get_query_result N h q s)))"

definition tcp_laws :: "'n smoltcp \<Rightarrow> ('n \<Rightarrow> handle \<Rightarrow> socket_kind option) \<Rightarrow> bool" where
  "tcp_laws N kinds \<longleftrightarrow> (\<forall>s h a port local_port data n. kinds s h = Some TcpSocket \<longrightarrow>
     works kinds s (tcp_connect N h a port local_port s)
     \<and> tcp_state_of N h s \<noteq> None \<and> tcp_may_send N h s \<noteq> None \<and> tcp_can_send N h s \<noteq> None
     \<and> tcp_may_recv N h s \<noteq> None \<and> tcp_can_recv N h s \<noteq> None
     \<and> works kinds s (tcp_send_slice N h data s) \<and> works kinds s (tcp_recv_slice N h n s)
     \<and> works kinds s (map_option (Pair ()) (tcp_close N h s))
     \<and> (\<exists>s'. sockets_remove N h s = Some s' \<and> kinds s' = (kinds s)(h := None)))"

definition socket_laws :: "'n smoltcp \<Rightarrow> ('n \<Rightarrow> handle \<Rightarrow> socket_kind option) \<Rightarrow> bool" where
  "socket_laws N kinds \<longleftrightarrow> interface_laws N kinds \<and> service_laws N kinds \<and> tcp_laws N kinds
     \<and> (\<forall>s rx tx h s'. tcp_add N rx tx s = (h, s') \<longrightarrow> kinds s h = None \<and> kinds s' = (kinds s)(h \<mapsto> TcpSocket))
     \<and> (\<forall>s mac_bytes seed t dhcp dns s'. sockets_new N mac_bytes seed t s = (dhcp, dns, s') \<longrightarrow>
          dhcp \<noteq> dns \<and> kinds s' = [dhcp \<mapsto> DhcpSocket, dns \<mapsto> DnsSocket])"

text \<open>Every reading of the clock takes time, and from some time on the readings have passed any
  deadline up to the horizon.\<close>

definition ticking :: "'w clock \<Rightarrow> 'w probe \<Rightarrow> ('w \<Rightarrow> nat) \<Rightarrow> u64 \<Rightarrow> bool" where
  "ticking clock cancel time horizon \<longleftrightarrow> (\<forall>w. time w < time (snd (clock w))) \<and> (\<forall>w. time w \<le> time (snd (cancel w)))
     \<and> (\<exists>t. \<forall>w. t \<le> time w \<longrightarrow> horizon \<le> fst (clock w))"

section \<open>Blocking calls return\<close>

lemma poll_until_returns:
  assumes tick: "ticking clock cancel time horizon" "deadline \<le> horizon"
    and poll: "\<And>now st. Inv st \<Longrightarrow> \<exists>st'. net_poll N now st = Some st' \<and> Inv st'"
    and look: "\<And>st. Inv st \<Longrightarrow> \<exists>r st'. look st = Some (r, st') \<and> (case r of None \<Rightarrow> Inv st' | Some x \<Rightarrow> Post x st')"
    and cleanup: "\<And>st e. Inv st \<Longrightarrow> \<exists>st'. cleanup st = Some st' \<and> Post (Err e) st'"
    and "Inv st"
  shows "\<exists>r st' w'. poll_until N clock cancel deadline look cleanup late st w = Some (r, st', w') \<and> Post r st'"
proof -
  obtain t where "\<forall>w. t \<le> time w \<longrightarrow> horizon \<le> fst (clock w)"
    using tick(1) unfolding ticking_def by blast
  with tick(2) have t: "t \<le> time w \<Longrightarrow> deadline \<le> fst (clock w)" for w by (meson order_trans)
  have later: "time w < time (snd (clock w))" "time w \<le> time (snd (cancel w))" for w
    using tick(1) by (simp_all add: ticking_def)
  show ?thesis using \<open>Inv st\<close>
  proof (induction "t - time w" arbitrary: st w rule: less_induct)
    case less
    obtain now w1 where c1: "clock w = (now, w1)" by fastforce
    obtain st1 where p: "net_poll N now st = Some st1" "Inv st1" using poll [OF less.prems] by blast
    obtain r st2 where l: "look st1 = Some (r, st2)" "case r of None \<Rightarrow> Inv st2 | Some x \<Rightarrow> Post x st2"
      using look [OF p(2)] by blast
    show ?case
    proof (cases r)
      case (Some x)
      then show ?thesis using c1 p l by (subst poll_until.simps) simp
    next
      case None
      then have inv: "Inv st2" using l(2) by simp
      obtain cancelled w2 where c2: "cancel w1 = (cancelled, w2)" by fastforce
      obtain now2 w3 where c3: "clock w2 = (now2, w3)" by fastforce
      show ?thesis
      proof (cases "cancelled \<or> deadline \<le> now2")
        case True
        then show ?thesis using c1 c2 c3 p l None cleanup [OF inv, of Cancelled] cleanup [OF inv, of late]
          by (subst poll_until.simps) auto
      next
        case False
        then have "time w2 < t" using t [of w2] c3 by (cases "t \<le> time w2") auto
        moreover have "time w < time w3" "time w \<le> time w2"
          using later(1) [of w] later(2) [of w1] later(1) [of w2] c1 c2 c3 by simp_all
        ultimately have "t - time w3 < t - time w" by simp
        from less.hyps [OF this inv] show ?thesis using c1 c2 c3 p l None False
          by (subst poll_until.simps) simp
      qed
    qed
  qed
qed

section \<open>The invariant\<close>

definition sockets_there :: "('n \<Rightarrow> handle \<Rightarrow> socket_kind option) \<Rightarrow> 'n net_stack \<Rightarrow> bool" where
  "sockets_there kinds st \<longleftrightarrow> kinds (net_core st) (net_dhcp st) = Some DhcpSocket
     \<and> kinds (net_core st) (net_dns st) = Some DnsSocket"

text \<open>Every connection names its own TCP socket of the set, below the next handle, and ports are
  taken from the ephemeral range. \<open>extra\<close> are the TCP sockets that belong to no connection.\<close>

definition stack_inv :: "('n \<Rightarrow> handle \<Rightarrow> socket_kind option) \<Rightarrow> 'n net_stack \<Rightarrow> bool" where
  "stack_inv kinds st \<longleftrightarrow> sockets_there kinds st \<and> omap (connections st)
     \<and> (\<forall>c h. map_get (connections st) c = Some h \<longrightarrow> kinds (net_core st) h = Some TcpSocket \<and> c < next_handle st)
     \<and> (\<forall>c c' h. map_get (connections st) c = Some h \<and> map_get (connections st) c' = Some h \<longrightarrow> c = c')
     \<and> FIRST_EPHEMERAL_PORT \<le> next_port st"

definition stray_sockets :: "('n \<Rightarrow> handle \<Rightarrow> socket_kind option) \<Rightarrow> 'n net_stack \<Rightarrow> handle set" where
  "stray_sockets kinds st = {h. kinds (net_core st) h = Some TcpSocket \<and> (\<forall>c. map_get (connections st) c \<noteq> Some h)}"

text \<open>What polling may change: addresses, servers and the library's state, not the sockets.\<close>

definition same_sockets :: "('n \<Rightarrow> handle \<Rightarrow> socket_kind option) \<Rightarrow> 'n net_stack \<Rightarrow> 'n net_stack \<Rightarrow> bool" where
  "same_sockets kinds st st' \<longleftrightarrow> kinds (net_core st') = kinds (net_core st) \<and> connections st' = connections st
     \<and> next_handle st' = next_handle st \<and> next_port st' = next_port st \<and> net_dhcp st' = net_dhcp st \<and> net_dns st' = net_dns st"

lemma same_sockets_refl [simp]: "same_sockets kinds st st"
  by (simp add: same_sockets_def)

lemma same_sockets_trans: "same_sockets kinds a b \<Longrightarrow> same_sockets kinds b c \<Longrightarrow> same_sockets kinds a c"
  by (simp add: same_sockets_def)

lemma same_sockets_inv:
  "same_sockets kinds st st' \<Longrightarrow> stack_inv kinds st' = stack_inv kinds st"
  "same_sockets kinds st st' \<Longrightarrow> sockets_there kinds st' = sockets_there kinds st"
  "same_sockets kinds st st' \<Longrightarrow> stray_sockets kinds st' = stray_sockets kinds st"
  by (simp_all add: same_sockets_def stack_inv_def sockets_there_def stray_sockets_def)

lemma same_sockets_core [simp]:
  "same_sockets kinds st (st\<lparr>net_core := core\<rparr>) = (kinds core = kinds (net_core st))"
  by (simp add: same_sockets_def)

lemma net_poll_works:
  assumes laws: "socket_laws N kinds" and "sockets_there kinds st"
  shows "\<exists>st'. net_poll N now st = Some st' \<and> same_sockets kinds st st'"
proof -
  have il: "kinds (iface_poll N t s) = kinds s" "kinds (update_ip_addrs N addrs s) = kinds s"
    "kinds (remove_default_ipv4_route N s) = kinds s" "kinds (add_default_ipv4_route N gw s) = kinds s" for s t addrs gw
    using laws by (auto simp: socket_laws_def interface_laws_def)
  have "works kinds (iface_poll N (instant now) (net_core st))
      (dhcp_poll N (net_dhcp st) (iface_poll N (instant now) (net_core st)))"
    using laws assms(2) il by (auto simp: socket_laws_def service_laws_def sockets_there_def)
  then obtain e core where d: "dhcp_poll N (net_dhcp st) (iface_poll N (instant now) (net_core st)) = Some (e, core)"
    "kinds core = kinds (net_core st)" using il by (auto simp: works_def)
  have upd: "\<exists>core'. update_servers N (net_dns st) servers s = Some core' \<and> kinds core' = kinds s"
    if "kinds s = kinds (net_core st)" for servers s
  proof -
    have "works kinds s (map_option (Pair ()) (update_servers N (net_dns st) servers s))"
      using laws assms(2) that by (auto simp: socket_laws_def service_laws_def sockets_there_def)
    then show ?thesis by (auto simp: works_def)
  qed
  show ?thesis
  proof (cases e)
    case None
    then show ?thesis using d by (simp add: net_poll_def)
  next
    case (Some ev)
    show ?thesis
    proof (cases ev)
      case (Configured addr router servers)
      let ?core = "remove_default_ipv4_route N (update_ip_addrs N [addr] core)"
      let ?core' = "case router of None \<Rightarrow> ?core | Some gw \<Rightarrow> add_default_ipv4_route N gw ?core"
      have k: "kinds ?core' = kinds (net_core st)" using il d by (simp split: option.split)
      from upd [OF k, of servers] show ?thesis using k d Some Configured
        by (auto simp: net_poll_def same_sockets_def)
    next
      case Deconfigured
      then show ?thesis using d Some il by (simp add: net_poll_def same_sockets_def)
    qed
  qed
qed

section \<open>The calls\<close>

lemma await_configured_returns:
  assumes "socket_laws N kinds" "sockets_there kinds st" "ticking clock cancel time horizon" "deadline \<le> horizon"
  shows "\<exists>r st' w'. await_configured N clock cancel deadline st w = Some (r, st', w') \<and> same_sockets kinds st st'"
proof (cases "is_configured st")
  case False
  have "\<exists>r st' w'. poll_until N clock cancel deadline
      (\<lambda>st. Some (if is_configured st then Some (Ok ()) else None, st)) Some NoLease st w = Some (r, st', w')
      \<and> same_sockets kinds st st'"
    using net_poll_works [OF assms(1)] same_sockets_trans same_sockets_inv(2) assms(2)
    by (intro poll_until_returns [OF assms(3,4), where Inv = "same_sockets kinds st"]) (auto, blast)
  then show ?thesis using False by (simp add: await_configured_def)
qed (simp add: await_configured_def)

lemma dns_works:
  assumes "socket_laws N kinds" "sockets_there kinds st"
  shows "\<exists>r core. start_query N (net_dns st) host (net_core st) = Some (r, core) \<and> kinds core = kinds (net_core st)"
    and "\<exists>r core. get_query_result N (net_dns st) q (net_core st) = Some (r, core) \<and> kinds core = kinds (net_core st)"
  using assms by (auto simp: socket_laws_def service_laws_def sockets_there_def works_def)

lemma look_query_works:
  assumes "socket_laws N kinds" "sockets_there kinds st"
  shows "\<exists>r st'. look_query N query st = Some (r, st') \<and> same_sockets kinds st st'"
  using dns_works(2) [OF assms, of query] by (auto simp: look_query_def)

lemma net_resolve_returns:
  assumes "socket_laws N kinds" "sockets_there kinds st" "ticking clock cancel time horizon" "deadline \<le> horizon"
  shows "\<exists>r st' w'. net_resolve N clock cancel host deadline st w = Some (r, st', w') \<and> same_sockets kinds st st'"
proof -
  obtain r core where q: "start_query N (net_dns st) host (net_core st) = Some (r, core)" "kinds core = kinds (net_core st)"
    using dns_works(1) [OF assms(1,2)] by blast
  let ?st = "st\<lparr>net_core := core\<rparr>"
  have there: "sockets_there kinds st'" if "same_sockets kinds ?st st'" for st'
    using that q(2) assms(2) same_sockets_inv(2) by (metis same_sockets_core)
  have "\<exists>r st' w'. poll_until N clock cancel deadline (look_query N query) Some
      (Timeout ''DNS resolution timed out'') ?st w = Some (r, st', w') \<and> same_sockets kinds ?st st'" for query
  proof (intro poll_until_returns [OF assms(3,4), where Inv = "same_sockets kinds ?st"])
    fix st' assume s: "same_sockets kinds ?st st'"
    show "\<exists>st''. net_poll N now st' = Some st'' \<and> same_sockets kinds ?st st''" for now
      using net_poll_works [OF assms(1) there [OF s]] s same_sockets_trans by blast
    obtain r st2 where "look_query N query st' = Some (r, st2)" "same_sockets kinds ?st st2"
      using look_query_works [OF assms(1) there [OF s]] s same_sockets_trans by blast
    then show "\<exists>r st2. look_query N query st' = Some (r, st2)
        \<and> (case r of None \<Rightarrow> same_sockets kinds ?st st2 | Some x \<Rightarrow> same_sockets kinds ?st st2)"
      by (auto split: option.split)
  qed auto
  moreover have "same_sockets kinds st st'" if "same_sockets kinds ?st st'" for st'
    using that q(2) by (simp add: same_sockets_def)
  ultimately show ?thesis using q
    by (auto simp: net_resolve_def split: option.split sum.split) blast+
qed

lemma word_le_inc: "(x :: 'a::len word) \<noteq> - 1 \<Longrightarrow> x \<le> x + 1"
proof -
  assume "x \<noteq> - 1"
  then have "uint x \<noteq> uint (- 1 :: 'a word)" by (metis word_uint_eq_iff)
  then have "uint x \<noteq> 2 ^ LENGTH('a) - 1" by (simp add: unsigned_minus_1_eq_mask mask_eq_exp_minus_1)
  then have "uint x + 1 < 2 ^ LENGTH('a)" using uint_lt2p [of x] by linarith
  then show ?thesis by (simp add: no_olen_add)
qed

lemma allocate_port_range:
  assumes "FIRST_EPHEMERAL_PORT \<le> next_port st"
  shows "FIRST_EPHEMERAL_PORT \<le> fst (allocate_port st) \<and> FIRST_EPHEMERAL_PORT \<le> next_port (snd (allocate_port st))"
  using assms word_le_inc [of "next_port st"] by (auto simp: allocate_port_def intro: order_trans)

lemma tcp_works:
  assumes "socket_laws N kinds" "kinds s h = Some TcpSocket"
  shows "\<exists>r s'. tcp_connect N h a port local_port s = Some (r, s') \<and> kinds s' = kinds s"
    and "\<exists>r s'. tcp_send_slice N h data s = Some (r, s') \<and> kinds s' = kinds s"
    and "\<exists>r s'. tcp_recv_slice N h n s = Some (r, s') \<and> kinds s' = kinds s"
    and "\<exists>s'. tcp_close N h s = Some s' \<and> kinds s' = kinds s"
    and "\<exists>s'. sockets_remove N h s = Some s' \<and> kinds s' = (kinds s)(h := None)"
    and "\<exists>x. tcp_state_of N h s = Some x" "\<exists>x. tcp_may_send N h s = Some x" "\<exists>x. tcp_can_send N h s = Some x"
    "\<exists>x. tcp_may_recv N h s = Some x" "\<exists>x. tcp_can_recv N h s = Some x"
  using assms by (auto simp: socket_laws_def tcp_laws_def works_def)

text \<open>Taking a socket out of the set, or leaving it in.\<close>

definition without_socket :: "('n \<Rightarrow> handle \<Rightarrow> socket_kind option) \<Rightarrow> handle \<Rightarrow> 'n net_stack \<Rightarrow> 'n net_stack \<Rightarrow> bool" where
  "without_socket kinds h st st' \<longleftrightarrow> kinds (net_core st') = (kinds (net_core st))(h := None)
     \<and> connections st' = connections st \<and> next_handle st' = next_handle st \<and> next_port st' = next_port st
     \<and> net_dhcp st' = net_dhcp st \<and> net_dns st' = net_dns st"

lemma remove_works:
  assumes "socket_laws N kinds" "same_sockets kinds st st1" "kinds (net_core st) h = Some TcpSocket"
  shows "\<exists>st'. on_core st1 (sockets_remove N h (net_core st1)) = Some st' \<and> without_socket kinds h st st'"
  using tcp_works(5) [OF assms(1), of "net_core st1" h] assms(2,3)
  by (auto simp: on_core_def without_socket_def same_sockets_def)

lemma connection_wait_returns:
  assumes laws: "socket_laws N kinds" and there: "sockets_there kinds st" "kinds (net_core st) h = Some TcpSocket"
    and tick: "ticking clock cancel time horizon" "deadline \<le> horizon"
  shows "\<exists>r st' w'. poll_until N clock cancel deadline (look_connected N h)
      (\<lambda>st. on_core st (sockets_remove N h (net_core st))) (Timeout ''connection timed out'') st w = Some (r, st', w')
    \<and> (case r of Inr _ \<Rightarrow> same_sockets kinds st st' | Inl _ \<Rightarrow> without_socket kinds h st st')"
proof (intro poll_until_returns [OF tick, where Inv = "same_sockets kinds st"])
  fix st1 assume s: "same_sockets kinds st st1"
  then have t: "sockets_there kinds st1" "kinds (net_core st1) h = Some TcpSocket"
    using there same_sockets_inv(2) by (auto simp: same_sockets_def)
  show "\<exists>st'. net_poll N now st1 = Some st' \<and> same_sockets kinds st st'" for now
    using net_poll_works [OF laws t(1)] s same_sockets_trans by blast
  obtain x where x: "tcp_state_of N h (net_core st1) = Some x" using tcp_works(6) [OF laws t(2)] by blast
  note rm = remove_works [OF laws s there(2)]
  show "\<exists>r st'. look_connected N h st1 = Some (r, st') \<and> (case r of None \<Rightarrow> same_sockets kinds st st'
      | Some x \<Rightarrow> (case x of Inr _ \<Rightarrow> same_sockets kinds st st' | Inl _ \<Rightarrow> without_socket kinds h st st'))"
    using x s rm by (cases x) (auto simp: look_connected_def)
  show "\<exists>st'. on_core st1 (sockets_remove N h (net_core st1)) = Some st'
      \<and> (case Err e of Inr _ \<Rightarrow> same_sockets kinds st st' | Inl _ \<Rightarrow> without_socket kinds h st st')" for e
    using rm by simp
qed simp

text \<open>Opening a socket: success keeps the fresh socket, a failed wait takes it out again, a refused
  \<^verbatim>\<open>tcp::Socket::connect\<close> leaves it in the set.\<close>

lemma open_socket_returns:
  assumes laws: "socket_laws N kinds" and inv: "stack_inv kinds st"
    and tick: "ticking clock cancel time horizon" "deadline \<le> horizon"
  shows "\<exists>r st' w' h. open_socket N clock cancel addr port deadline st w = Some (r, st', w')
    \<and> connections st' = connections st \<and> next_handle st' = next_handle st \<and> net_dhcp st' = net_dhcp st
    \<and> net_dns st' = net_dns st \<and> FIRST_EPHEMERAL_PORT \<le> next_port st'
    \<and> kinds (net_core st) h = None
    \<and> (case r of Inr h' \<Rightarrow> h' = h \<and> kinds (net_core st') = (kinds (net_core st))(h \<mapsto> TcpSocket)
       | Inl e \<Rightarrow> kinds (net_core st') = kinds (net_core st)
           \<or> (\<exists>m. e = Socket m) \<and> kinds (net_core st') = (kinds (net_core st))(h \<mapsto> TcpSocket))"
proof -
  obtain local_port st0 where a: "allocate_port st = (local_port, st0)" by fastforce
  then have st0: "net_core st0 = net_core st" "connections st0 = connections st" "next_handle st0 = next_handle st"
    "net_dhcp st0 = net_dhcp st" "net_dns st0 = net_dns st" by (auto simp: allocate_port_def)
  have port: "FIRST_EPHEMERAL_PORT \<le> next_port st0"
    using allocate_port_range [of st] inv a by (simp add: stack_inv_def)
  obtain h core where t: "tcp_add N TCP_RX_BUFFER TCP_TX_BUFFER (net_core st) = (h, core)" by fastforce
  then have fresh: "kinds (net_core st) h = None" "kinds core = (kinds (net_core st))(h \<mapsto> TcpSocket)"
    using laws by (auto simp: socket_laws_def)
  obtain r core' where c: "tcp_connect N h addr port local_port core = Some (r, core')" "kinds core' = kinds core"
    using tcp_works(1) [OF laws, of core h addr port local_port] fresh by auto
  let ?st = "st0\<lparr>net_core := core'\<rparr>"
  have "sockets_there kinds ?st" "kinds (net_core ?st) h = Some TcpSocket"
    using inv fresh c st0 by (auto simp: stack_inv_def sockets_there_def)
  from connection_wait_returns [OF laws this tick, of w] obtain q st' w' where
    q: "poll_until N clock cancel deadline (look_connected N h)
      (\<lambda>st. on_core st (sockets_remove N h (net_core st))) (Timeout ''connection timed out'') ?st w = Some (q, st', w')"
    "case q of Inr _ \<Rightarrow> same_sockets kinds ?st st' | Inl _ \<Rightarrow> without_socket kinds h ?st st'" by blast
  show ?thesis
  proof (cases r)
    case (Inl e)
    then show ?thesis using a t c st0 port fresh
      by (intro exI [of _ "Err (Socket e)"] exI [of _ ?st] exI [of _ w] exI [of _ h]) (simp add: open_socket_def)
  next
    case (Inr u)
    have "open_socket N clock cancel addr port deadline st w = Some (case q of Inl e \<Rightarrow> Inl e | Inr _ \<Rightarrow> Inr h, st', w')"
      using a t c st0 q(1) Inr by (cases q) (simp_all add: open_socket_def)
    then show ?thesis using q(2) st0 port fresh c
      by (intro exI [of _ "case q of Inl e \<Rightarrow> Inl e | Inr _ \<Rightarrow> Inr h"] exI [of _ st'] exI [of _ w'] exI [of _ h])
        (cases q; auto simp: same_sockets_def without_socket_def)
  qed
qed

lemma add_connection:
  assumes inv: "stack_inv kinds st" and h: "kinds (net_core st) h = Some TcpSocket" "\<And>c. map_get (connections st) c \<noteq> Some h"
    and fresh: "next_handle st \<noteq> - 1"
  shows "stack_inv kinds (st\<lparr>next_handle := next_handle st + 1, connections := map_insert (next_handle st) h (connections st)\<rparr>)"
    and "map_get (connections st) (next_handle st) = None"
    and "map_get (map_insert (next_handle st) h (connections st)) = (map_get (connections st))(next_handle st \<mapsto> h)"
proof -
  have om: "omap (connections st)" using inv by (simp add: stack_inv_def)
  then show get: "map_get (map_insert (next_handle st) h (connections st)) = (map_get (connections st))(next_handle st \<mapsto> h)"
    by (rule omap.lookup_ins)
  show "map_get (connections st) (next_handle st) = None"
    using inv by (cases "map_get (connections st) (next_handle st)") (auto simp: stack_inv_def)
  have less: "c < next_handle st + 1" if "c \<le> next_handle st" for c
  proof -
    have "next_handle st < next_handle st + 1"
      using word_le_inc [OF fresh] by (metis add_cancel_left_right order_le_neq_trans zero_neq_one)
    then show ?thesis using that by simp
  qed
  have "\<And>c h. map_get (connections st) c = Some h \<Longrightarrow> c < next_handle st + 1"
    using inv by (auto simp: stack_inv_def intro!: less less_imp_le)
  then show "stack_inv kinds (st\<lparr>next_handle := next_handle st + 1, connections := map_insert (next_handle st) h (connections st)\<rparr>)"
    using inv h om less by (auto simp: stack_inv_def sockets_there_def get omap_map_insert)
qed

text \<open>The last part of \<^verbatim>\<open>connect\<close>: open a socket and register it.\<close>

lemma registration_returns:
  assumes laws: "socket_laws N kinds" and inv: "stack_inv kinds st" and fresh: "next_handle st \<noteq> - 1"
    and tick: "ticking clock cancel time horizon" "deadline \<le> horizon"
  shows "\<exists>r st' w'. bind (open_socket N clock cancel addr port deadline st w) (\<lambda>h (st, w). let conn = next_handle st in
      Some (Ok conn, st\<lparr>next_handle := next_handle st + 1, connections := map_insert conn h (connections st)\<rparr>, w))
      = Some (r, st', w') \<and> stack_inv kinds st'
    \<and> (case r of
        Inr c \<Rightarrow> (\<exists>h. map_get (connections st) c = None \<and> map_get (connections st') = (map_get (connections st))(c \<mapsto> h)
            \<and> stray_sockets kinds st' = stray_sockets kinds st)
      | Inl e \<Rightarrow> connections st' = connections st \<and> ((\<forall>m. e \<noteq> Socket m) \<longrightarrow> stray_sockets kinds st' = stray_sockets kinds st))"
proof -
  from open_socket_returns [OF laws inv tick, of addr port w] obtain r st' w' h where
    c: "open_socket N clock cancel addr port deadline st w = Some (r, st', w')"
    and e: "connections st' = connections st" "next_handle st' = next_handle st" "net_dhcp st' = net_dhcp st"
      "net_dns st' = net_dns st" "FIRST_EPHEMERAL_PORT \<le> next_port st'" "kinds (net_core st) h = None"
    and k: "case r of Inr h' \<Rightarrow> h' = h \<and> kinds (net_core st') = (kinds (net_core st))(h \<mapsto> TcpSocket)
       | Inl e \<Rightarrow> kinds (net_core st') = kinds (net_core st)
           \<or> (\<exists>m. e = Socket m) \<and> kinds (net_core st') = (kinds (net_core st))(h \<mapsto> TcpSocket)" by blast
  have inv': "stack_inv kinds st'"
    using inv e k by (cases r) (auto simp: stack_inv_def sockets_there_def)
  show ?thesis
  proof (cases r)
    case (Inl err)
    then show ?thesis using c e k inv' by (auto simp: stray_sockets_def)
  next
    case (Inr h')
    then have h: "h' = h" "kinds (net_core st') = (kinds (net_core st))(h \<mapsto> TcpSocket)" using k by simp_all
    have unused: "map_get (connections st') c \<noteq> Some h" for c using e inv by (auto simp: stack_inv_def)
    have hs: "kinds (net_core st') h = Some TcpSocket" "next_handle st' \<noteq> - 1" using h e fresh by simp_all
    note add = add_connection [OF inv' hs(1) unused hs(2)]
    have free: "map_get (connections st) (next_handle st) = None" using add(2) e by simp
    let ?st = "st'\<lparr>next_handle := next_handle st' + 1, connections := map_insert (next_handle st') h (connections st')\<rparr>"
    have "stray_sockets kinds ?st = stray_sockets kinds st"
      using add(3) free e h by (auto simp: stray_sockets_def) (metis option.distinct(1))
    then show ?thesis using c Inr h add free e
      by (intro exI [of _ "Ok (next_handle st')"] exI [of _ ?st] exI [of _ w']) (simp add: Let_def, blast)
  qed
qed

lemma net_stack_connect_returns:
  assumes laws: "socket_laws N kinds" and inv: "stack_inv kinds st" and fresh: "next_handle st \<noteq> - 1"
    and tick: "ticking clock cancel time horizon" "saturating_add (fst (clock w)) timeout \<le> horizon"
  shows "\<exists>r st' w'. net_stack_connect N clock cancel (st, w) host port timeout = Some (r, st', w') \<and> stack_inv kinds st'
    \<and> (case r of
        Inr c \<Rightarrow> (\<exists>h. map_get (connections st) c = None \<and> map_get (connections st') = (map_get (connections st))(c \<mapsto> h)
            \<and> stray_sockets kinds st' = stray_sockets kinds st)
      | Inl e \<Rightarrow> connections st' = connections st \<and> ((\<forall>m. e \<noteq> Socket m) \<longrightarrow> stray_sockets kinds st' = stray_sockets kinds st))"
proof -
  obtain now w0 where w: "clock w = (now, w0)" by fastforce
  let ?d = "saturating_add now timeout"
  have d: "?d \<le> horizon" using tick(2) w by simp
  have there: "sockets_there kinds st" using inv by (simp add: stack_inv_def)
  obtain r1 st1 w1 where a: "await_configured N clock cancel ?d st w0 = Some (r1, st1, w1)" "same_sockets kinds st st1"
    using await_configured_returns [OF laws there tick(1) d] by blast
  obtain r2 st2 w2 where b: "net_resolve N clock cancel host ?d st1 w1 = Some (r2, st2, w2)" "same_sockets kinds st1 st2"
    using net_resolve_returns [OF laws _ tick(1) d, of st1] same_sockets_inv(2) [OF a(2)] there by blast
  have s2: "same_sockets kinds st st2" using a(2) b(2) by (rule same_sockets_trans)
  have same: "stack_inv kinds st1" "stray_sockets kinds st1 = stray_sockets kinds st" "connections st1 = connections st"
    "stack_inv kinds st2" "stray_sockets kinds st2 = stray_sockets kinds st" "connections st2 = connections st"
    "next_handle st2 = next_handle st"
    using same_sockets_inv [OF a(2)] same_sockets_inv [OF s2] a(2) s2 inv by (auto simp: same_sockets_def)
  have f2: "next_handle st2 \<noteq> - 1" using fresh same by simp
  show ?thesis
  proof (cases r1)
    case (Inl e)
    then show ?thesis using w a same by (simp add: net_stack_connect_def)
  next
    case r1: (Inr u)
    show ?thesis
    proof (cases r2)
      case (Inl e)
      then show ?thesis using w a b r1 same by (simp add: net_stack_connect_def)
    next
      case r2: (Inr addr)
      from registration_returns [OF laws same(4) f2 tick(1) d, of addr port w2, unfolded same(5,6)]
      show ?thesis using w a b r1 r2 by (simp add: net_stack_connect_def)
    qed
  qed
qed

lemma look_send_works:
  assumes "socket_laws N kinds" "kinds (net_core st) h = Some TcpSocket"
  shows "\<exists>r st'. look_send N h data st = Some (r, st') \<and> same_sockets kinds st st'"
  using tcp_works(2) [OF assms, of data] tcp_works(7,8) [OF assms]
  by (auto simp: look_send_def split: bool.split)

lemma look_recv_works:
  assumes "socket_laws N kinds" "kinds (net_core st) h = Some TcpSocket"
  shows "\<exists>r st'. look_recv N h n st = Some (r, st') \<and> same_sockets kinds st st'"
  using tcp_works(3) [OF assms, of n] tcp_works(9,10) [OF assms]
  by (auto simp: look_recv_def split: bool.split)

text \<open>A wait that only looks at one TCP socket.\<close>

lemma socket_wait_returns:
  assumes laws: "socket_laws N kinds" and there: "sockets_there kinds st" "kinds (net_core st) h = Some TcpSocket"
    and tick: "ticking clock cancel time horizon" "deadline \<le> horizon"
    and look: "\<And>st. kinds (net_core st) h = Some TcpSocket \<Longrightarrow> \<exists>r st'. look st = Some (r, st') \<and> same_sockets kinds st st'"
  shows "\<exists>r st' w'. poll_until N clock cancel deadline look Some late st w = Some (r, st', w') \<and> same_sockets kinds st st'"
proof (intro poll_until_returns [OF tick, where Inv = "same_sockets kinds st"])
  fix st1 assume s: "same_sockets kinds st st1"
  then have t: "sockets_there kinds st1" "kinds (net_core st1) h = Some TcpSocket"
    using there same_sockets_inv(2) by (auto simp: same_sockets_def)
  show "\<exists>st'. net_poll N now st1 = Some st' \<and> same_sockets kinds st st'" for now
    using net_poll_works [OF laws t(1)] s same_sockets_trans by blast
  obtain r st2 where "look st1 = Some (r, st2)" "same_sockets kinds st st2"
    using look [OF t(2)] s same_sockets_trans by blast
  then show "\<exists>r st2. look st1 = Some (r, st2)
      \<and> (case r of None \<Rightarrow> same_sockets kinds st st2 | Some x \<Rightarrow> same_sockets kinds st st2)"
    by (auto split: option.split)
qed auto

lemma net_stack_send_returns:
  assumes laws: "socket_laws N kinds" and inv: "stack_inv kinds st"
    and tick: "ticking clock cancel time horizon" "saturating_add (fst (clock w)) 15000 \<le> horizon"
  shows "\<exists>r st' w'. net_stack_send N clock cancel (st, w) conn data = Some (r, st', w') \<and> same_sockets kinds st st'"
proof (cases "map_get (connections st) conn")
  case (Some h)
  have there: "sockets_there kinds st" "kinds (net_core st) h = Some TcpSocket"
    using inv Some by (auto simp: stack_inv_def)
  obtain now w0 where w: "clock w = (now, w0)" by fastforce
  obtain r st1 w1 where p: "poll_until N clock cancel (saturating_add now 15000) (look_send N h data) Some
      (Timeout ''send timed out'') st w0 = Some (r, st1, w1)" "same_sockets kinds st st1"
    using socket_wait_returns [OF laws there tick(1), of "saturating_add now 15000" "look_send N h data"]
      look_send_works [OF laws] tick(2) w by fastforce
  obtain now2 w2 where w2: "clock w1 = (now2, w2)" by fastforce
  obtain st2 where "net_poll N now2 st1 = Some st2" "same_sockets kinds st st2"
    using net_poll_works [OF laws, of st1] same_sockets_inv(2) [OF p(2)] there p(2) same_sockets_trans by blast
  then show ?thesis using Some w p w2 by (cases r) (simp_all add: net_stack_send_def)
qed (simp add: net_stack_send_def)

lemma net_stack_recv_returns:
  assumes laws: "socket_laws N kinds" and inv: "stack_inv kinds st"
    and tick: "ticking clock cancel time horizon" "saturating_add (fst (clock w)) 15000 \<le> horizon"
  shows "\<exists>r st' w'. net_stack_recv N clock cancel (st, w) conn n = Some (r, st', w') \<and> same_sockets kinds st st'"
proof (cases "map_get (connections st) conn")
  case (Some h)
  have there: "sockets_there kinds st" "kinds (net_core st) h = Some TcpSocket"
    using inv Some by (auto simp: stack_inv_def)
  obtain now w0 where w: "clock w = (now, w0)" by fastforce
  have "\<exists>r st' w'. poll_until N clock cancel (saturating_add now 15000) (look_recv N h n) Some
      (Timeout ''receive timed out'') st w0 = Some (r, st', w') \<and> same_sockets kinds st st'"
    using tick(2) w by (intro socket_wait_returns [OF laws there tick(1)] look_recv_works [OF laws]) simp_all
  then show ?thesis using Some w by (simp add: net_stack_recv_def)
qed (simp add: net_stack_recv_def)

text \<open>Closing takes exactly that connection and its socket away.\<close>

lemma net_stack_close_returns:
  assumes laws: "socket_laws N kinds" and inv: "stack_inv kinds st"
  shows "\<exists>st' w'. net_stack_close N clock (st, w) conn = Some (st', w') \<and> stack_inv kinds st'
    \<and> map_get (connections st') = (map_get (connections st))(conn := None)
    \<and> stray_sockets kinds st' = stray_sockets kinds st"
proof (cases "map_get (connections st) conn")
  case None
  then have "(map_get (connections st))(conn := None) = map_get (connections st)" by (simp add: fun_upd_idem)
  then show ?thesis using None inv by (simp add: net_stack_close_def)
next
  case (Some h)
  have tcp: "kinds (net_core st) h = Some TcpSocket" and om: "omap (connections st)"
    using inv Some by (auto simp: stack_inv_def)
  have get: "map_get (map_remove conn (connections st)) = (map_get (connections st))(conn := None)"
    using om by (rule omap.lookup_del)
  obtain core where c: "tcp_close N h (net_core st) = Some core" "kinds core = kinds (net_core st)"
    using tcp_works(4) [OF laws tcp] by blast
  let ?st = "st\<lparr>connections := map_remove conn (connections st), net_core := core\<rparr>"
  obtain now w1 where w: "clock w = (now, w1)" by fastforce
  have "sockets_there kinds ?st" using inv c by (simp add: stack_inv_def sockets_there_def)
  then obtain st1 where p: "net_poll N now ?st = Some st1" "same_sockets kinds ?st st1"
    using net_poll_works [OF laws] by blast
  obtain st2 where r: "on_core st1 (sockets_remove N h (net_core st1)) = Some st2" "without_socket kinds h ?st st2"
    using remove_works [OF laws p(2), of h] tcp c by force
  have other: "map_get (connections st) c = Some h \<Longrightarrow> c = conn" for c using inv Some by (auto simp: stack_inv_def)
  have st2: "kinds (net_core st2) = (kinds (net_core st))(h := None)" "connections st2 = map_remove conn (connections st)"
    "next_handle st2 = next_handle st" "next_port st2 = next_port st" "net_dhcp st2 = net_dhcp st" "net_dns st2 = net_dns st"
    using r(2) c by (simp_all add: without_socket_def)
  have "map_get (connections st2) = (map_get (connections st))(conn := None)" using get st2 by simp
  moreover have "stray_sockets kinds st2 = stray_sockets kinds st"
  proof (rule set_eqI)
    fix g
    have "(\<exists>c. map_get (connections st2) c = Some g) \<longleftrightarrow> (\<exists>c. map_get (connections st) c = Some g)" if "g \<noteq> h"
      using Some that by (simp add: st2 get) (metis option.inject)
    moreover have "h \<notin> stray_sockets kinds st" "h \<notin> stray_sockets kinds st2"
      using Some by (auto simp: stray_sockets_def st2(1))
    ultimately show "g \<in> stray_sockets kinds st2 \<longleftrightarrow> g \<in> stray_sockets kinds st"
      by (cases "g = h") (auto simp: stray_sockets_def st2(1))
  qed
  moreover have "stack_inv kinds st2"
  proof -
    have "kinds (net_core st2) g = Some TcpSocket \<and> c < next_handle st2" if "map_get (connections st2) c = Some g" for c g
      using that inv other by (auto simp: st2 get stack_inv_def split: if_splits)
    moreover have "sockets_there kinds st2" using inv tcp by (auto simp: stack_inv_def sockets_there_def st2)
    ultimately show ?thesis using inv om by (auto simp: stack_inv_def st2 get omap.inv_del split: if_splits)
  qed
  ultimately have "stack_inv kinds st2 \<and> map_get (connections st2) = (map_get (connections st))(conn := None)
      \<and> stray_sockets kinds st2 = stray_sockets kinds st" by simp
  moreover have "on_core (st\<lparr>connections := map_remove conn (connections st)\<rparr>) (tcp_close N h (net_core st)) = Some ?st"
    using c by (simp add: on_core_def)
  ultimately show ?thesis using Some w p r by (simp add: net_stack_close_def)
qed

section \<open>Addresses\<close>

lemma parse_unsigned_show_nat: "n \<le> bound \<Longrightarrow> parse_unsigned bound (show_nat n) = Some n"
proof -
  have "show_nat n \<noteq> []" by (subst show_nat.simps) simp
  then obtain c s where s: "show_nat n = c # s" by (cases "show_nat n") auto
  then have "c \<noteq> CHR ''+''" using show_nat_digits [of c n] by (auto simp: code_def)
  moreover assume "n \<le> bound"
  ultimately show ?thesis using parse_digits_show_nat [of n] by (simp add: parse_unsigned_def s)
qed

lemma parse_show_ipv4:
  assumes "length a = 4"
  shows "parse_ipv4 (show_ipv4 a) = Some a"
proof -
  obtain p q r s where a: "a = [p, q, r, s]"
    using assms by (auto simp: eval_nat_numeral length_Suc_conv)
  have octet: "parse_octet (show_nat (unat b)) = Some b" for b :: u8
    using unsigned_less [of b, where ?'a = nat] by (simp add: parse_octet_def parse_unsigned_show_nat)
  have "CHR ''.'' \<notin> set (show_nat n)" for n
    using show_nat_digits [of "CHR ''.''" n] by (auto simp: code_def)
  then have "split_on CHR ''.'' (show_ipv4 a) = map (\<lambda>b. show_nat (unat b)) a"
    unfolding show_ipv4_def a by (intro split_on_join) auto
  then show ?thesis by (simp add: parse_ipv4_def a octet)
qed

section \<open>Properties of the network stack\<close>


text \<open>A small socket set for examples: a list of handles with their types. Its DHCP server answers at
  once, its connections are established at once.\<close>

definition fresh_handle :: "(handle \<times> socket_kind) list \<Rightarrow> handle" where
  "fresh_handle s = Suc (fold max (map fst s) 0)"

definition on_kind :: "(handle \<times> socket_kind) list \<Rightarrow> handle \<Rightarrow> socket_kind \<Rightarrow> 'a \<Rightarrow> 'a option" where
  "on_kind s h k x = (if map_of s h = Some k then Some x else None)"

definition demo_smoltcp :: "(handle \<times> socket_kind) list smoltcp" where
  "demo_smoltcp = \<lparr>iface_poll = (\<lambda>_ s. s),
     dhcp_poll = (\<lambda>h s. on_kind s h DhcpSocket (Some (Configured ([10, 0, 2, 15], 24) (Some [10, 0, 2, 2]) [[10, 0, 2, 3]]), s)),
     update_ip_addrs = (\<lambda>_ s. s), remove_default_ipv4_route = (\<lambda>s. s), add_default_ipv4_route = (\<lambda>_ s. s),
     update_servers = (\<lambda>h _ s. on_kind s h DnsSocket s),
     start_query = (\<lambda>h _ s. on_kind s h DnsSocket (Ok 0, s)),
     get_query_result = (\<lambda>h _ s. on_kind s h DnsSocket (Ok [[10, 0, 2, 2]], s)),
     tcp_add = (\<lambda>_ _ s. (fresh_handle s, (fresh_handle s, TcpSocket) # s)),
     tcp_connect = (\<lambda>h _ port _ s. on_kind s h TcpSocket (if port = 0 then Err ''Unaddressable'' else Ok (), s)),
     tcp_state_of = (\<lambda>h s. on_kind s h TcpSocket Established),
     tcp_may_send = (\<lambda>h s. on_kind s h TcpSocket True), tcp_can_send = (\<lambda>h s. on_kind s h TcpSocket True),
     tcp_may_recv = (\<lambda>h s. on_kind s h TcpSocket True), tcp_can_recv = (\<lambda>h s. on_kind s h TcpSocket False),
     tcp_send_slice = (\<lambda>h data s. on_kind s h TcpSocket (Ok (length data), s)),
     tcp_recv_slice = (\<lambda>h n s. on_kind s h TcpSocket (Ok (n, replicate n 0), s)),
     tcp_close = (\<lambda>h s. on_kind s h TcpSocket s),
     sockets_remove = (\<lambda>h s. on_kind s h TcpSocket (filter (\<lambda>e. fst e \<noteq> h) s)),
     sockets_new = (\<lambda>_ _ _ _. (0, 1, [(0, DhcpSocket), (1, DnsSocket)]))\<rparr>"

definition demo_stack :: "(handle \<times> socket_kind) list net_stack" where
  "demo_stack = net_new demo_smoltcp [2, 0, 0, 0, 0, 1] [] 0 7"

definition demo_clock :: "nat clock" where
  "demo_clock = (\<lambda>w. (word_of_nat (min w 60000), Suc w))"

lemma map_of_filter_key: "map_of (filter (\<lambda>e. fst e \<noteq> h) s) = (map_of s)(h := None)"
  by (induction s) (auto simp: fun_eq_iff)

lemma fresh_handle_fresh: "map_of s (fresh_handle s) = None"
proof -
  have "x \<le> fold max xs a" if "x \<in> set xs \<or> x \<le> a" for x a and xs :: "nat list"
    using that by (induction xs arbitrary: a) (auto simp: le_max_iff_disj)
  then have "x \<le> fold max (map fst s) 0" if "x \<in> fst ` set s" for x using that by auto
  then show ?thesis by (force simp: fresh_handle_def map_of_eq_None_iff)
qed

lemma demo_socket_laws: "socket_laws demo_smoltcp map_of"
proof -
  have "interface_laws demo_smoltcp map_of" "service_laws demo_smoltcp map_of"
    by (simp_all add: interface_laws_def service_laws_def demo_smoltcp_def on_kind_def works_def)
  moreover have "tcp_laws demo_smoltcp map_of"
    by (simp add: tcp_laws_def demo_smoltcp_def on_kind_def works_def map_of_filter_key)
  ultimately show ?thesis
    by (auto simp: socket_laws_def demo_smoltcp_def fresh_handle_fresh fun_eq_iff)
qed

lemma demo_ticking: "ticking demo_clock (\<lambda>w. (False, w)) (\<lambda>w. w) 60000"
  by (auto simp: ticking_def demo_clock_def min_def intro!: exI [of _ 60000])

lemma demo_stack_inv: "stack_inv map_of demo_stack" "next_handle demo_stack \<noteq> - 1"
  by (simp_all add: demo_stack_def net_new_def demo_smoltcp_def stack_inv_def sockets_there_def omap_def)




end
