(* ===== verification/Bare_Platform.thy ===== *)
theory Bare_Platform
  imports Tree_Shape Storage Net
begin

text \<open>
  \<^verbatim>\<open>platforms/bare-metal/src/platform.rs\<close>: the \<^verbatim>\<open>Platform\<close> trait on a
  machine without an operating system. The file tree lives in memory; after every change it is saved
  through the snapshot store when there is a disk, and rolled back when saving fails. The console,
  the counter, the entropy source and the network stack are the methods of a \<open>machine\<close> record: their
  code is in other modules and no storage operation calls them. The counter frequency is positive
  (\<^verbatim>\<open>main.rs\<close> takes the maximum with one), so the division by it never panics.
\<close>

section \<open>The machine and the platform\<close>

text \<open>What the platform calls of the other modules: \<^verbatim>\<open>Console\<close>, \<^verbatim>\<open>arch\<close>,
  \<^verbatim>\<open>EntropySource\<close> and \<^verbatim>\<open>NetStack\<close>. The methods of the network stack receive a clock
  and a cancellation probe.\<close>

record 'h machine =
  screen_write :: "'h \<Rightarrow> string \<Rightarrow> 'h option"
  screen_read_line :: "'h \<Rightarrow> string \<Rightarrow> bool \<Rightarrow> (string \<times> 'h) option"
  screen_clear :: "'h \<Rightarrow> 'h option"
  screen_poll_cancel :: "'h probe"
  counter :: "'h clock"
  entropy_fill :: "'h \<Rightarrow> nat \<Rightarrow> ((string + bytes) \<times> 'h) option"
  fill_hardware_random :: "'h \<Rightarrow> nat \<Rightarrow> bytes option \<times> 'h"
  stack_poll :: "'h \<Rightarrow> u64 \<Rightarrow> 'h option"
  stack_is_configured :: "'h \<Rightarrow> bool"
  stack_status :: "'h \<Rightarrow> net_status"
  stack_connect ::
    "'h clock \<Rightarrow> 'h probe \<Rightarrow> 'h \<Rightarrow> string \<Rightarrow> u16 \<Rightarrow> u64 \<Rightarrow> ((net_error + u64) \<times> 'h) option"
  stack_send :: "'h clock \<Rightarrow> 'h probe \<Rightarrow> 'h \<Rightarrow> u64 \<Rightarrow> bytes \<Rightarrow> ((net_error + nat) \<times> 'h) option"
  stack_recv ::
    "'h clock \<Rightarrow> 'h probe \<Rightarrow> 'h \<Rightarrow> u64 \<Rightarrow> nat \<Rightarrow> ((net_error + nat \<times> bytes) \<times> 'h) option"
  stack_close :: "'h clock \<Rightarrow> 'h \<Rightarrow> u64 \<Rightarrow> 'h option"
  machine_version :: string
  machine_architecture :: string

text \<open>The console, and the devices behind \<^verbatim>\<open>entropy\<close> and \<^verbatim>\<open>net\<close>, are parts of the machine state;
  the two flags say whether these options are \<^verbatim>\<open>Some\<close>.\<close>

record ('d, 'h) bare_metal =
  bare_machine :: 'h
  bare_tree :: file_tree
  persistence :: "'d snapshot_store option"
  has_entropy :: bool
  has_net :: bool
  started :: u64
  counter_frequency :: u64

record initial_file =
  initial_path :: string
  initial_data :: bytes

definition storage_error_io :: "storage_error \<Rightarrow> error" where
  "storage_error_io e = Io (''persistent storage: '' @ display_storage_error e)"

section \<open>The file tree operations\<close>

definition parent :: "string \<Rightarrow> string" where
  "parent path = (case rsplit_once CHR ''/'' path of None \<Rightarrow> [] | Some (p, _) \<Rightarrow> p)"

fun add_parents_loop :: "string list \<Rightarrow> string \<Rightarrow> file_tree \<Rightarrow> unit res \<times> file_tree" where
  "add_parents_loop [] current tree = (Ok (), tree)"
| "add_parents_loop (component # components) current tree =
     (let current = (if current \<noteq> [] then current @ ''/'' else current) @ component in
      if contains_key (tree_files tree) current then (Err (NotDirectory current), tree)
      else add_parents_loop components current
        (tree\<lparr>tree_directories := set_insert current (tree_directories tree)\<rparr>))"

definition add_parents :: "string \<Rightarrow> file_tree \<Rightarrow> unit res \<times> file_tree" where
  "add_parents path = add_parents_loop (filter (\<lambda>part. part \<noteq> []) (split_on CHR ''/'' path)) []"

definition tree_exists :: "file_tree \<Rightarrow> string \<Rightarrow> bool" where
  "tree_exists tree path \<longleftrightarrow> contains_key (tree_files tree) path \<or> path \<in> set (tree_directories tree)"

definition direct_child :: "string \<Rightarrow> string \<Rightarrow> string option" where
  "direct_child path pre = (case strip_prefix pre path of None \<Rightarrow> None
     | Some remainder \<Rightarrow> if remainder = [] \<or> CHR ''/'' \<in> set remainder then None else Some remainder)"

definition rebased :: "string \<Rightarrow> string \<Rightarrow> string \<Rightarrow> string" where
  "rebased path from to = to @ (case strip_prefix from path of None \<Rightarrow> [] | Some r \<Rightarrow> r)"

definition persist :: "'d block_device \<Rightarrow> ('d, 'h) bare_metal \<Rightarrow> (('d, 'h) bare_metal, unit) outcome" where
  "persist D p = (case persistence p of
       None \<Rightarrow> Some (Ok (), p)
     | Some store \<Rightarrow> (case snapshot_save D store (bare_tree p) of
           None \<Rightarrow> None
         | Some (r, store') \<Rightarrow> Some (map_err storage_error_io r, p\<lparr>persistence := Some store'\<rparr>)))"

definition commit ::
  "'d block_device \<Rightarrow> file_tree \<Rightarrow> ('d, 'h) bare_metal \<Rightarrow> (('d, 'h) bare_metal, unit) outcome" where
  "commit D previous p = (case persist D p of
       None \<Rightarrow> None
     | Some (Inl e, p) \<Rightarrow> Some (Err e, p\<lparr>bare_tree := previous\<rparr>)
     | Some (Inr _, p) \<Rightarrow> Some (Ok (), p))"

text \<open>\<^verbatim>\<open>self.add_parents(path)?\<close>: the directories inserted before an error stay.\<close>

definition with_parents ::
  "string \<Rightarrow> ('d, 'h) bare_metal \<Rightarrow> (('d, 'h) bare_metal \<Rightarrow> (('d, 'h) bare_metal, unit) outcome)
     \<Rightarrow> (('d, 'h) bare_metal, unit) outcome" where
  "with_parents path p k = (case add_parents path (bare_tree p) of
       (r, tree) \<Rightarrow> attempt r (p\<lparr>bare_tree := tree\<rparr>) (\<lambda>_. k (p\<lparr>bare_tree := tree\<rparr>)))"

definition bare_read :: "('d, 'h) bare_metal \<Rightarrow> string \<Rightarrow> (('d, 'h) bare_metal, bytes) outcome" where
  "bare_read p path =
     (if path \<in> set (tree_directories (bare_tree p)) then Some (Err (IsDirectory path), p)
      else Some (ok_or (map_get (tree_files (bare_tree p)) path) (NotFound path), p))"

definition bare_write ::
  "'d block_device \<Rightarrow> ('d, 'h) bare_metal \<Rightarrow> string \<Rightarrow> bytes \<Rightarrow> (('d, 'h) bare_metal, unit) outcome" where
  "bare_write D p path data =
     (if path \<in> set (tree_directories (bare_tree p)) then Some (Err (IsDirectory path), p)
      else let previous = bare_tree p in
        with_parents (parent path) p (\<lambda>p. let tree = bare_tree p in
          commit D previous (p\<lparr>bare_tree := tree\<lparr>tree_files := map_insert path data (tree_files tree)\<rparr>\<rparr>)))"

fun insert_directories :: "string \<Rightarrow> string list \<Rightarrow> (string, storage_entry) btree_map
    \<Rightarrow> (string, storage_entry) btree_map" where
  "insert_directories pre [] entries = entries"
| "insert_directories pre (directory # directories) entries =
     insert_directories pre directories (case direct_child directory pre of None \<Rightarrow> entries
       | Some name \<Rightarrow> map_insert name \<lparr>entry_name = name, entry_is_dir = True, entry_len = 0\<rparr> entries)"

fun insert_files :: "string \<Rightarrow> (string \<times> bytes) list \<Rightarrow> (string, storage_entry) btree_map
    \<Rightarrow> (string, storage_entry) btree_map" where
  "insert_files pre [] entries = entries"
| "insert_files pre ((file, data) # files) entries =
     insert_files pre files (case direct_child file pre of None \<Rightarrow> entries
       | Some name \<Rightarrow> map_insert name \<lparr>entry_name = name, entry_is_dir = False,
           entry_len = (if length data < 2 ^ 64 then word_of_nat (length data) else - 1)\<rparr> entries)"

definition bare_list :: "('d, 'h) bare_metal \<Rightarrow> string \<Rightarrow> (('d, 'h) bare_metal, storage_entry list) outcome" where
  "bare_list p path = (let tree = bare_tree p in
     if path \<notin> set (tree_directories tree)
     then if contains_key (tree_files tree) path then Some (Err (NotDirectory path), p)
          else Some (Err (NotFound path), p)
     else let pre = (if path = [] then [] else path @ ''/'') in
       Some (Ok (map snd (insert_files pre (tree_files tree)
         (insert_directories pre (tree_directories tree) []))), p))"

definition bare_create_dir_all ::
  "'d block_device \<Rightarrow> ('d, 'h) bare_metal \<Rightarrow> string \<Rightarrow> (('d, 'h) bare_metal, unit) outcome" where
  "bare_create_dir_all D p path =
     (let previous = bare_tree p in with_parents path p (commit D previous))"

definition bare_remove ::
  "'d block_device \<Rightarrow> ('d, 'h) bare_metal \<Rightarrow> string \<Rightarrow> (('d, 'h) bare_metal, unit) outcome" where
  "bare_remove D p path = (let previous = bare_tree p in
     if contains_key (tree_files previous) path
     then commit D previous
       (p\<lparr>bare_tree := previous\<lparr>tree_files := map_remove path (tree_files previous)\<rparr>\<rparr>)
     else if path \<notin> set (tree_directories previous) then Some (Err (NotFound path), p)
     else let pre = path @ ''/'' in
       commit D previous (p\<lparr>bare_tree := previous\<lparr>
         tree_files := map_retain (\<lambda>name _. \<not> starts_with pre name) (tree_files previous),
         tree_directories := filter (\<lambda>name. name \<noteq> path \<and> \<not> starts_with pre name)
           (tree_directories previous)\<rparr>\<rparr>))"

fun move_directories :: "string \<Rightarrow> string \<Rightarrow> string list \<Rightarrow> string btree_set \<Rightarrow> string btree_set" where
  "move_directories from to [] directories = directories"
| "move_directories from to (path # paths) directories =
     move_directories from to paths (set_insert (rebased path from to) (set_remove path directories))"

fun move_files :: "string \<Rightarrow> string \<Rightarrow> (string \<times> bytes) list \<Rightarrow> (string, bytes) btree_map
    \<Rightarrow> (string, bytes) btree_map" where
  "move_files from to [] files = files"
| "move_files from to ((path, data) # moved) files =
     move_files from to moved (map_insert (rebased path from to) data (map_remove path files))"

definition bare_rename ::
  "'d block_device \<Rightarrow> ('d, 'h) bare_metal \<Rightarrow> string \<Rightarrow> string \<Rightarrow> (('d, 'h) bare_metal, unit) outcome" where
  "bare_rename D p from to =
     (if from = to then Some (Ok (), p)
      else if tree_exists (bare_tree p) to then Some (Err (AlreadyExists to), p)
      else if (case strip_prefix from to of None \<Rightarrow> False | Some s \<Rightarrow> starts_with ''/'' s)
      then Some (Err InvalidPath, p)
      else let previous = bare_tree p in
        with_parents (parent to) p (\<lambda>p. let tree = bare_tree p in
          case map_get (tree_files tree) from of
            Some data \<Rightarrow> commit D previous (p\<lparr>bare_tree := tree\<lparr>
              tree_files := map_insert to data (map_remove from (tree_files tree))\<rparr>\<rparr>)
          | None \<Rightarrow>
              if from \<notin> set (tree_directories tree) then Some (Err (NotFound from), p)
              else let pre = from @ ''/'';
                  moved_directories = filter (\<lambda>path. path = from \<or> starts_with pre path) (tree_directories tree);
                  moved_files = filter (\<lambda>entry. starts_with pre (fst entry)) (tree_files tree)
                in commit D previous (p\<lparr>bare_tree := tree\<lparr>
                  tree_directories := move_directories from to moved_directories (tree_directories tree),
                  tree_files := move_files from to moved_files (tree_files tree)\<rparr>\<rparr>)))"

definition bare_exists :: "('d, 'h) bare_metal \<Rightarrow> string \<Rightarrow> (('d, 'h) bare_metal, bool) outcome" where
  "bare_exists p path = Some (Ok (tree_exists (bare_tree p) path), p)"

section \<open>Console, clock, entropy and network\<close>

definition elapsed_millis :: "u64 \<Rightarrow> u64 \<Rightarrow> u64 \<Rightarrow> u64" where
  "elapsed_millis start frequency now = saturating_mul (saturating_sub now start) 1000 div frequency"

definition bare_clock :: "'h machine \<Rightarrow> ('d, 'h) bare_metal \<Rightarrow> 'h clock" where
  "bare_clock M p h = (case counter M h of
     (now, h) \<Rightarrow> (elapsed_millis (started p) (counter_frequency p) now, h))"

definition with_machine :: "('d, 'h) bare_metal \<Rightarrow> ('r \<times> 'h) option \<Rightarrow> ('r \<times> ('d, 'h) bare_metal) option" where
  "with_machine p m = on_field m (\<lambda>h. p\<lparr>bare_machine := h\<rparr>)"

definition bare_console_write ::
  "'h machine \<Rightarrow> ('d, 'h) bare_metal \<Rightarrow> string \<Rightarrow> (('d, 'h) bare_metal, unit) outcome" where
  "bare_console_write M p text =
     with_machine p (map_option (\<lambda>h. (Ok (), h)) (screen_write M (bare_machine p) text))"

definition bare_console_read_line ::
  "'h machine \<Rightarrow> ('d, 'h) bare_metal \<Rightarrow> string \<Rightarrow> bool \<Rightarrow> (('d, 'h) bare_metal, string) outcome" where
  "bare_console_read_line M p prompt secret =
     with_machine p (map_option (\<lambda>(line, h). (Ok line, h)) (screen_read_line M (bare_machine p) prompt secret))"

definition bare_console_clear :: "'h machine \<Rightarrow> ('d, 'h) bare_metal \<Rightarrow> (('d, 'h) bare_metal, unit) outcome" where
  "bare_console_clear M p =
     with_machine p (map_option (\<lambda>h. (Ok (), h)) (screen_clear M (bare_machine p)))"

definition bare_poll_cancel :: "'h machine \<Rightarrow> ('d, 'h) bare_metal \<Rightarrow> (bool \<times> ('d, 'h) bare_metal) option" where
  "bare_poll_cancel M p = with_machine p (Some (screen_poll_cancel M (bare_machine p)))"

definition bare_monotonic_millis :: "'h machine \<Rightarrow> ('d, 'h) bare_metal \<Rightarrow> u64 \<times> ('d, 'h) bare_metal" where
  "bare_monotonic_millis M p = (case bare_clock M p (bare_machine p) of (t, h) \<Rightarrow> (t, p\<lparr>bare_machine := h\<rparr>))"

definition bare_fill_random ::
  "'h machine \<Rightarrow> ('d, 'h) bare_metal \<Rightarrow> nat \<Rightarrow> (('d, 'h) bare_metal, bytes) outcome" where
  "bare_fill_random M p n =
     (if has_entropy p
      then with_machine p (map_option (\<lambda>(r, h). (map_err Io r, h)) (entropy_fill M (bare_machine p) n))
      else case fill_hardware_random M (bare_machine p) n of
          (Some bs, h) \<Rightarrow> Some (Ok bs, p\<lparr>bare_machine := h\<rparr>)
        | (None, h) \<Rightarrow> Some (Err (Unsupported ''no cryptographically secure entropy device is available''),
            p\<lparr>bare_machine := h\<rparr>))"

definition bare_system_info :: "'h machine \<Rightarrow> system_info" where
  "bare_system_info M = \<lparr>info_name = ''AFOS'', info_version = machine_version M,
     info_platform = ''Limine bare metal'', info_architecture = machine_architecture M\<rparr>"

definition bare_net_unavailable :: error where
  "bare_net_unavailable = Unsupported ''no network device is available''"

fun map_net_error :: "net_error \<Rightarrow> error" where
  "map_net_error NoLease = Io ''no DHCP lease was acquired''"
| "map_net_error (NameResolution message) = Io (''name resolution failed: '' @ message)"
| "map_net_error (Timeout message) = Io message"
| "map_net_error (Socket message) = Io message"
| "map_net_error Cancelled = Io ''network operation cancelled''"
| "map_net_error Closed = Io ''connection is closed''"

definition with_net ::
  "'h machine \<Rightarrow> ('d, 'h) bare_metal \<Rightarrow> ('h clock \<Rightarrow> 'h probe \<Rightarrow> 'h \<Rightarrow> ((net_error + 'a) \<times> 'h) option)
     \<Rightarrow> (('d, 'h) bare_metal, 'a) outcome" where
  "with_net M p operation =
     (if has_net p
      then with_machine p (map_option (\<lambda>(r, h). (map_err map_net_error r, h))
        (operation (bare_clock M p) (screen_poll_cancel M) (bare_machine p)))
      else Some (Err bare_net_unavailable, p))"

text \<open>The loop of \<^verbatim>\<open>net_status\<close>: poll until there is a lease, the user cancels or the deadline
  passes.\<close>

partial_function (option) await_lease ::
  "'h machine \<Rightarrow> 'h clock \<Rightarrow> 'h probe \<Rightarrow> u64 \<Rightarrow> 'h \<Rightarrow> 'h option" where
  "await_lease M clock probe deadline h =
     (if stack_is_configured M h then Some h
      else let (now, h) = clock h in (case stack_poll M h now of None \<Rightarrow> None | Some h \<Rightarrow>
        if stack_is_configured M h then Some h
        else let (cancelled, h) = probe h in
          if cancelled then Some h
          else let (now, h) = clock h in
            if now \<ge> deadline then Some h else await_lease M clock probe deadline h))"

definition bare_net_status :: "'h machine \<Rightarrow> ('d, 'h) bare_metal \<Rightarrow> (('d, 'h) bare_metal, net_status) outcome" where
  "bare_net_status M p = with_net M p (\<lambda>clock probe h.
     let (now, h) = clock h in
     map_option (\<lambda>h. (Inr (stack_status M h), h)) (await_lease M clock probe (saturating_add now 5000) h))"

definition bare_net_connect ::
  "'h machine \<Rightarrow> ('d, 'h) bare_metal \<Rightarrow> string \<Rightarrow> u16 \<Rightarrow> (('d, 'h) bare_metal, u64) outcome" where
  "bare_net_connect M p host port =
     with_net M p (\<lambda>clock probe h. stack_connect M clock probe h host port 30000)"

definition bare_net_send ::
  "'h machine \<Rightarrow> ('d, 'h) bare_metal \<Rightarrow> u64 \<Rightarrow> bytes \<Rightarrow> (('d, 'h) bare_metal, nat) outcome" where
  "bare_net_send M p handle data = with_net M p (\<lambda>clock probe h. stack_send M clock probe h handle data)"

definition bare_net_recv ::
  "'h machine \<Rightarrow> ('d, 'h) bare_metal \<Rightarrow> u64 \<Rightarrow> nat \<Rightarrow> (('d, 'h) bare_metal, nat \<times> bytes) outcome" where
  "bare_net_recv M p handle n = with_net M p (\<lambda>clock probe h. stack_recv M clock probe h handle n)"

definition bare_net_close ::
  "'h machine \<Rightarrow> ('d, 'h) bare_metal \<Rightarrow> u64 \<Rightarrow> (('d, 'h) bare_metal, unit) outcome" where
  "bare_net_close M p handle =
     with_net M p (\<lambda>clock probe h. map_option (Pair (Inr ())) (stack_close M clock h handle))"

definition bare_platform :: "'d block_device \<Rightarrow> 'h machine \<Rightarrow> ('d, 'h) bare_metal platform" where
  "bare_platform D M = \<lparr>
     console_write = bare_console_write M, console_read_line = bare_console_read_line M,
     console_clear = bare_console_clear M, storage_read = bare_read, storage_write = bare_write D,
     storage_list = bare_list, storage_create_dir_all = bare_create_dir_all D,
     storage_remove = bare_remove D, storage_rename = bare_rename D, storage_exists = bare_exists,
     monotonic_millis = bare_monotonic_millis M, fill_random = bare_fill_random M,
     platform_info = (\<lambda>_. bare_system_info M), poll_cancel = bare_poll_cancel M,
     net_status = bare_net_status M, net_connect = bare_net_connect M, net_send = bare_net_send M,
     net_recv = bare_net_recv M, net_close = bare_net_close M\<rparr>"

section \<open>Starting up\<close>

fun install_files :: "initial_file list \<Rightarrow> file_tree \<Rightarrow> unit res \<times> file_tree" where
  "install_files [] tree = (Ok (), tree)"
| "install_files (file # files) tree = (case add_parents (parent (initial_path file)) tree of
     (Inl e, tree) \<Rightarrow> (Err e, tree)
   | (Inr _, tree) \<Rightarrow> install_files files (tree\<lparr>tree_files :=
       map_insert (initial_path file) (initial_data file) (tree_files tree)\<rparr>))"

text \<open>\<^verbatim>\<open>BareMetalPlatform::new\<close>. Once the disk is open, the console and the network stack are set up and
  the counter is read: \<open>prepared\<close> is the machine state and the counter then, or \<open>None\<close> if that fails to
  return.\<close>

definition bare_new ::
  "'d block_device \<Rightarrow> ('h \<times> u64) option \<Rightarrow> u64 \<Rightarrow> initial_file list \<Rightarrow> 'd option \<Rightarrow> bool \<Rightarrow> bool
     \<Rightarrow> ('d, 'h) bare_metal res option" where
  "bare_new D prepared frequency initial_files block entropy net =
     (case (case block of None \<Rightarrow> Some (Ok (None, None))
            | Some device \<Rightarrow> map_option (\<lambda>r. and_then (map_err storage_error_io r)
                (\<lambda>(store, restored). Ok (Some store, restored))) (snapshot_open D device)) of
        None \<Rightarrow> None
      | Some (Inl e) \<Rightarrow> Some (Err e)
      | Some (Inr (store, restored)) \<Rightarrow> (case prepared of None \<Rightarrow> None | Some (h, start) \<Rightarrow>
          let p = \<lparr>bare_machine = h,
              bare_tree = (case restored of None \<Rightarrow> empty_tree | Some t \<Rightarrow> t),
              persistence = store, has_entropy = entropy, has_net = net,
              started = start, counter_frequency = frequency\<rparr>
          in if tree_files (bare_tree p) = [] \<and> tree_directories (bare_tree p) = []
            then case install_files initial_files (bare_tree p) of
                (Inl e, _) \<Rightarrow> Some (Err e)
              | (Inr _, tree) \<Rightarrow> (case persist D (p\<lparr>bare_tree := tree\<rparr>) of
                    None \<Rightarrow> None
                  | Some (Inl e, _) \<Rightarrow> Some (Err e)
                  | Some (Inr _, p) \<Rightarrow> Some (Ok p))
            else Some (Ok p)))"

section \<open>Creating directories\<close>

lemma parent_Nil: "slash \<notin> set path \<Longrightarrow> parent path = []"
  using rsplit_once_None_iff [of slash path] by (simp add: parent_def)

lemma parent_Some: "path = a @ slash # name \<Longrightarrow> slash \<notin> set name \<Longrightarrow> parent path = a"
  using rsplit_once_Some_iff [of slash path a name] by (simp add: parent_def)

lemma split_parent:
  assumes "storage_path path"
  shows "filter (\<lambda>c. c \<noteq> []) (split_on slash (parent path)) = butlast (split_on slash path)"
proof (cases "slash \<in> set path")
  case False
  then show ?thesis by (simp add: parent_Nil split_on_id)
next
  case True
  then obtain a name where eq: "path = a @ slash # name" "slash \<notin> set name"
    using split_list_last by metis
  then have "butlast (split_on slash path) = split_on slash a"
    by (simp add: split_on_append split_on_id)
  moreover have "[] \<notin> set (split_on slash a)"
    using assms by (simp add: storage_path_def eq split_on_append)
  then have "filter (\<lambda>c. c \<noteq> []) (split_on slash a) = split_on slash a"
    by (simp add: filter_id_conv) metis
  ultimately show ?thesis using parent_Some [OF eq] by simp
qed

text \<open>The directories that extend \<open>pre\<close> by a non-empty prefix of \<open>cs\<close>.\<close>

definition chain :: "string list \<Rightarrow> string list \<Rightarrow> string set" where
  "chain pre cs = (\<lambda>ds. join slash (pre @ ds)) ` {ds. ds \<noteq> [] \<and> prefix ds cs}"

lemma chain_Nil [simp]: "chain pre [] = {}"
  by (auto simp: chain_def)

lemma chain_Cons: "chain pre (c # cs) = insert (join slash (pre @ [c])) (chain (pre @ [c]) cs)"
proof -
  have "{ds. ds \<noteq> [] \<and> prefix ds (c # cs)} = insert [c] ((#) c ` {ds. ds \<noteq> [] \<and> prefix ds cs})"
    by (auto simp: prefix_Cons)
  then show ?thesis by (simp add: chain_def image_image)
qed

lemma extend_join:
  assumes "[] \<notin> set pre"
  shows "(if join slash pre \<noteq> [] then join slash pre @ ''/'' else join slash pre) @ c = join slash (pre @ [c])"
proof (cases pre)
  case (Cons a as)
  then have "join slash pre \<noteq> []" using assms by (cases as) auto
  then show ?thesis using join_append [of pre "[c]" slash] Cons by simp
qed simp

lemma add_parents_loop_Ok:
  assumes "[] \<notin> set pre" "[] \<notin> set cs"
    "add_parents_loop cs (join slash pre) tree = (Ok u, tree')"
  shows "tree_files tree' = tree_files tree
    \<and> set (tree_directories tree') = set (tree_directories tree) \<union> chain pre cs
    \<and> (oset (tree_directories tree) \<longrightarrow> oset (tree_directories tree'))
    \<and> (\<forall>a\<in>chain pre cs. \<not> contains_key (tree_files tree) a)"
  using assms
proof (induction cs arbitrary: pre tree)
  case (Cons c cs)
  note step = Cons.prems(3) [simplified add_parents_loop.simps Let_def extend_join [OF Cons.prems(1)]]
  let ?t = "tree\<lparr>tree_directories := set_insert (join slash (pre @ [c])) (tree_directories tree)\<rparr>"
  have free: "\<not> contains_key (tree_files tree) (join slash (pre @ [c]))"
    and rest: "add_parents_loop cs (join slash (pre @ [c])) ?t = (Ok u, tree')"
    using step by (auto split: if_splits)
  have "[] \<notin> set (pre @ [c])" "[] \<notin> set cs" using Cons.prems(1,2) by auto
  from Cons.IH [OF this rest] free show ?case by (auto simp: chain_Cons)
qed simp

lemma chain_above:
  assumes "f \<in> chain (pre @ [c]) cs"
  shows "join slash (pre @ [c]) \<in> above f"
proof -
  from assms obtain ds where "ds \<noteq> []" "f = join slash ((pre @ [c]) @ ds)" by (auto simp: chain_def)
  then have "f = join slash (pre @ [c]) @ slash # join slash ds" using join_append [of "pre @ [c]" ds] by simp
  then show ?thesis by (auto simp: above_def at_or_below_def starts_with_iff)
qed

lemma add_parents_loop_Err:
  assumes "[] \<notin> set pre" "[] \<notin> set cs"
    "add_parents_loop cs (join slash pre) tree = (Err e, tree')"
  shows "\<exists>f\<in>chain pre cs. contains_key (tree_files tree) f \<and> e = NotDirectory f
    \<and> tree_files tree' = tree_files tree
    \<and> set (tree_directories tree) \<subseteq> set (tree_directories tree')
    \<and> set (tree_directories tree') \<subseteq> set (tree_directories tree) \<union> above f
    \<and> (oset (tree_directories tree) \<longrightarrow> oset (tree_directories tree'))"
  using assms
proof (induction cs arbitrary: pre tree)
  case (Cons c cs)
  let ?cur = "join slash (pre @ [c])"
  let ?t = "tree\<lparr>tree_directories := set_insert ?cur (tree_directories tree)\<rparr>"
  note step = Cons.prems(3) [simplified add_parents_loop.simps Let_def extend_join [OF Cons.prems(1)]]
  show ?case
  proof (cases "contains_key (tree_files tree) ?cur")
    case True
    then show ?thesis using step by (auto simp: chain_Cons)
  next
    case False
    then have rest: "add_parents_loop cs (join slash (pre @ [c])) ?t = (Err e, tree')"
      using step by simp
    have "[] \<notin> set (pre @ [c])" "[] \<notin> set cs" using Cons.prems(1,2) by auto
    from Cons.IH [OF this rest] show ?thesis
      using chain_above [of _ pre c cs] by (fastforce simp: chain_Cons)
  qed
qed simp
lemma chain_split:
  assumes "\<forall>c\<in>set cs. slash \<notin> set c"
  shows "chain [] cs = {a. prefix (split_on slash a) cs}"
proof (intro equalityI subsetI)
  fix a assume "a \<in> chain [] cs"
  then obtain ds where ds: "ds \<noteq> []" "prefix ds cs" "a = join slash ds" by (auto simp: chain_def)
  then have "split_on slash a = ds" using assms by (auto intro!: split_on_join dest: set_mono_prefix)
  then show "a \<in> {a. prefix (split_on slash a) cs}" using ds by simp
next
  fix a assume "a \<in> {a. prefix (split_on slash a) cs}"
  then show "a \<in> chain [] cs"
    using image_eqI [of a "\<lambda>ds. join slash ([] @ ds)" "split_on slash a" "{ds. ds \<noteq> [] \<and> prefix ds cs}"]
    by (simp add: chain_def)
qed

lemma above_split: "above path = {a. prefix (split_on slash a) (butlast (split_on slash path))}"
proof -
  have "prefix xs (butlast ys) \<longleftrightarrow> prefix xs ys \<and> xs \<noteq> ys" if "ys \<noteq> []" for xs ys :: "string list"
    using that by (cases ys rule: rev_cases) (auto dest: prefix_length_le)
  then show ?thesis by (auto simp: above_def at_or_below_split)
qed

lemma chain_above_eq: "chain [] (butlast (split_on slash path)) = above path"
  using chain_split [of "butlast (split_on slash path)"] split_on_no_sep
  by (simp add: above_split) (meson in_set_butlastD)

lemma chain_full:
  assumes "cs \<noteq> []" "\<forall>c\<in>set cs. slash \<notin> set c"
  shows "chain [] cs = insert (join slash cs) (above (join slash cs))"
  using chain_split [OF assms(2)] split_on_join [OF assms]
  by (auto simp: above_def at_or_below_split)

section \<open>The tree invariant\<close>

definition tree_shape :: "file_tree \<Rightarrow> bool" where
  "tree_shape t \<longleftrightarrow> omap (tree_files t) \<and> oset (tree_directories t) \<and>
     shape (dom (map_of (tree_files t))) (set (tree_directories t))"

lemma tree_shape_above:
  "tree_shape t \<Longrightarrow> contains_key (tree_files t) f \<Longrightarrow> above f \<subseteq> set (tree_directories t)"
  by (auto simp: tree_shape_def shape_def contains_key_def above_def)

lemma tree_eqI:
  "tree_files s = tree_files t \<Longrightarrow> tree_directories s = tree_directories t \<Longrightarrow> s = (t :: file_tree)"
  by (cases s; cases t) simp

lemma add_parents_loop_shape_Err:
  assumes "tree_shape t" "[] \<notin> set cs" "add_parents_loop cs [] t = (Err e, t')"
  shows "t' = t \<and> (\<exists>f\<in>chain [] cs. contains_key (tree_files t) f \<and> e = NotDirectory f)"
proof -
  from add_parents_loop_Err [of "[]" cs t e t'] assms(2,3)
  obtain f where f: "f \<in> chain [] cs" "contains_key (tree_files t) f" "e = NotDirectory f"
    "tree_files t' = tree_files t" "set (tree_directories t) \<subseteq> set (tree_directories t')"
    "set (tree_directories t') \<subseteq> set (tree_directories t) \<union> above f"
    "oset (tree_directories t) \<longrightarrow> oset (tree_directories t')" by auto
  have "set (tree_directories t') = set (tree_directories t)"
    using f(5,6) tree_shape_above [OF assms(1) f(2)] by blast
  then have "tree_directories t' = tree_directories t"
    using f(7) assms(1) by (intro oset_eqI) (auto simp: tree_shape_def)
  with f show ?thesis by (auto intro: tree_eqI)
qed

lemma add_parents_parent:
  assumes "tree_shape t" "storage_path path" "add_parents (parent path) t = (r, t')"
  shows "case r of Inl e \<Rightarrow> t' = t
    | Inr u \<Rightarrow> tree_files t' = tree_files t \<and> above path \<inter> dom (map_of (tree_files t)) = {}
        \<and> set (tree_directories t') = set (tree_directories t) \<union> above path \<and> tree_shape t'"
proof -
  let ?cs = "butlast (split_on slash path)"
  have cs: "[] \<notin> set ?cs" using assms(2) by (auto simp: storage_path_def dest: in_set_butlastD)
  have run: "add_parents_loop ?cs [] t = (r, t')"
    using assms(3) by (simp add: add_parents_def split_parent [OF assms(2)])
  show ?thesis
  proof (cases r)
    case (Inl e)
    then show ?thesis using add_parents_loop_shape_Err [OF assms(1) cs] run by simp
  next
    case (Inr u)
    from add_parents_loop_Ok [of "[]" ?cs t u t'] run cs Inr
    have eff: "tree_files t' = tree_files t" "set (tree_directories t') = set (tree_directories t) \<union> above path"
      "oset (tree_directories t) \<longrightarrow> oset (tree_directories t')" "above path \<inter> dom (map_of (tree_files t)) = {}"
      by (auto simp: chain_above_eq contains_key_def)
    then have "tree_shape t'"
      using assms(1,2) by (simp add: tree_shape_def shape_add_directories Int_commute)
    with eff Inr show ?thesis by simp
  qed
qed

lemma add_parents_any:
  assumes "tree_shape t" "storage_path path" "add_parents path t = (r, t')"
  shows "tree_shape t' \<and> tree_files t' = tree_files t \<and> set (tree_directories t) \<subseteq> set (tree_directories t')
    \<and> (isl r \<longrightarrow> t' = t)"
proof -
  define cs where "cs = filter (\<lambda>c. c \<noteq> []) (split_on slash path)"
  have cs: "[] \<notin> set cs" "\<forall>c\<in>set cs. slash \<notin> set c" using split_on_no_sep by (auto simp: cs_def)
  have dots: "set cs \<inter> {[], ''.'', ''..''} = {}" using assms(2) by (auto simp: cs_def storage_path_def)
  have run: "add_parents_loop cs [] t = (r, t')" using assms(3) by (simp add: add_parents_def cs_def)
  show ?thesis
  proof (cases r)
    case (Inl e)
    then show ?thesis using add_parents_loop_shape_Err [OF assms(1) cs(1)] run assms(1) by simp
  next
    case (Inr u)
    from add_parents_loop_Ok [of "[]" cs t u t'] run cs Inr
    have eff: "tree_files t' = tree_files t" "set (tree_directories t') = set (tree_directories t) \<union> chain [] cs"
      "oset (tree_directories t) \<longrightarrow> oset (tree_directories t')" "chain [] cs \<inter> dom (map_of (tree_files t)) = {}"
      by (auto simp: contains_key_def)
    have "shape (dom (map_of (tree_files t))) (set (tree_directories t) \<union> chain [] cs)"
    proof (cases "cs = []")
      case False
      then have "storage_path (join slash cs)" using cs dots by (simp add: storage_path_def split_on_join)
      moreover have "chain [] cs = insert (join slash cs) (above (join slash cs))"
        by (rule chain_full [OF False cs(2)])
      ultimately show ?thesis
        using assms(1) eff(4) shape_add_directories [of _ _ "join slash cs"]
          shape_insert_directory [of _ "set (tree_directories t) \<union> above (join slash cs)" "join slash cs"]
        by (simp add: tree_shape_def Int_commute)
    qed (use assms(1) in \<open>simp add: tree_shape_def\<close>)
    with eff Inr assms(1) show ?thesis by (simp add: tree_shape_def)
  qed
qed
section \<open>Moving names\<close>

lemma rebased_append [simp]: "rebased (from @ s) from to = to @ s"
  by (simp add: rebased_def)

lemma move_directories_set:
  assumes "\<forall>k\<in>set ps. at_or_below from k" "\<And>q. at_or_below to q \<Longrightarrow> \<not> at_or_below from q"
  shows "set (move_directories from to ps ds)
      = (set ds - set ps) \<union> {to @ s |s. from @ s \<in> set ps}"
  using assms(1)
proof (induction ps arbitrary: ds)
  case (Cons k ps)
  from Cons.prems obtain s where k: "k = from @ s" "s = [] \<or> starts_with ''/'' s"
    by (auto elim: at_or_belowE)
  then have "at_or_below to (to @ s)" by (simp add: at_or_below_append)
  then have "to @ s \<notin> set ps" using assms(2) Cons.prems by auto
  moreover have "{to @ x |x. from @ x \<in> set (k # ps)} = insert (to @ s) {to @ x |x. from @ x \<in> set ps}"
    using k by auto
  ultimately show ?case
    using Cons.IH [of "set_insert (rebased k from to) (set_remove k ds)"] Cons.prems k by auto
qed simp

lemma oset_move_directories: "oset ds \<Longrightarrow> oset (move_directories from to ps ds)"
  by (induction "from" to ps ds rule: move_directories.induct) simp_all

lemma move_files_lookup:
  assumes "distinct (map fst ps)" "\<forall>k\<in>fst ` set ps. at_or_below from k"
    and apart: "\<And>q. at_or_below to q \<Longrightarrow> \<not> at_or_below from q"
  shows "map_of (move_files from to ps m) q =
     (if at_or_below to q then (case map_of ps (from @ drop (length to) q) of
          Some d \<Rightarrow> Some d | None \<Rightarrow> map_of m q)
      else if map_of ps q \<noteq> None then None else map_of m q)"
  using assms(1,2)
proof (induction ps arbitrary: m)
  case Nil
  then show ?case by simp
next
  case (Cons e ps)
  obtain k d where e: "e = (k, d)" by (cases e)
  from Cons.prems(2) e obtain s where k: "k = from @ s" "s = [] \<or> starts_with ''/'' s"
    by (auto elim: at_or_belowE)
  let ?m = "map_insert (to @ s) d (map_remove k m)"
  have fresh: "map_of ps k = None" using Cons.prems(1) e by (auto simp: map_of_eq_None_iff)
  have IH: "map_of (move_files from to (e # ps) m) q =
     (if at_or_below to q then (case map_of ps (from @ drop (length to) q) of
          Some d \<Rightarrow> Some d | None \<Rightarrow> map_of ?m q)
      else if map_of ps q \<noteq> None then None else map_of ?m q)"
    using Cons.IH [of ?m] Cons.prems e k by simp
  show ?case
  proof (cases "at_or_below to q")
    case True
    then obtain x where x: "q = to @ x" by (auto elim: at_or_belowE)
    have "q \<noteq> k" using apart [OF True] k by (auto simp: at_or_below_append)
    then show ?thesis
      unfolding IH using True x k(1) fresh e by (auto split: option.split)
  next
    case False
    then have "q \<noteq> to @ s" using k(2) by (auto simp: at_or_below_append)
    then show ?thesis unfolding IH using False e by auto
  qed
qed

lemma omap_move_files: "omap m \<Longrightarrow> omap (move_files from to ps m)"
  by (induction "from" to ps m rule: move_files.induct) simp_all

lemma omap_distinct: "omap m \<Longrightarrow> distinct (map fst m)"
  by (simp add: omap_def strict_sorted_iff)

text \<open>The files after a move, by path.\<close>

definition move_view :: "string \<Rightarrow> string \<Rightarrow> (string \<Rightarrow> 'a option) \<Rightarrow> string \<Rightarrow> 'a option" where
  "move_view from to f = (\<lambda>q. if at_or_below to q then f (from @ drop (length to) q)
     else if at_or_below from q then None else f q)"

lemma dom_move_view:
  assumes "\<And>q. at_or_below to q \<Longrightarrow> \<not> at_or_below from q" "\<And>q. at_or_below to q \<Longrightarrow> f q = None"
  shows "dom (move_view from to f) = relocated from to (dom f)"
proof (intro equalityI subsetI)
  fix q assume q: "q \<in> dom (move_view from to f)"
  show "q \<in> relocated from to (dom f)"
  proof (cases "at_or_below to q")
    case True
    then obtain s where "q = to @ s" "s = [] \<or> starts_with ''/'' s" by (rule at_or_belowE)
    then show ?thesis using q True by (auto simp: move_view_def intro: relocated_move)
  next
    case False
    then show ?thesis using q by (auto simp: move_view_def intro!: relocated_stay split: if_splits)
  qed
next
  fix q assume "q \<in> relocated from to (dom f)"
  then show "q \<in> dom (move_view from to f)"
    by (cases rule: relocatedE) (use assms in \<open>auto simp: move_view_def\<close>)
qed
section \<open>What the storage operations do\<close>

definition bare_files :: "('d, 'h) bare_metal \<Rightarrow> string \<Rightarrow> bytes option" where
  "bare_files p = map_of (tree_files (bare_tree p))"

definition bare_good :: "('d, 'h) bare_metal \<Rightarrow> bool" where
  "bare_good p \<longleftrightarrow> tree_shape (bare_tree p)"

lemma commit_tree:
  "commit D previous p = Some (r, p') \<Longrightarrow> bare_tree p' = (if isl r then previous else bare_tree p)"
  by (auto simp: commit_def persist_def map_err_def split: option.splits sum.splits)

lemma with_parents_SomeE:
  assumes "with_parents path p k = Some (r, p')"
  obtains (err) e t where "add_parents path (bare_tree p) = (Err e, t)" "r = Err e" "p' = p\<lparr>bare_tree := t\<rparr>"
  | (val) u t where "add_parents path (bare_tree p) = (Ok u, t)" "k (p\<lparr>bare_tree := t\<rparr>) = Some (r, p')"
  using assms by (cases "add_parents path (bare_tree p)") (auto simp: with_parents_def)

lemma tree_shape_put:
  assumes "tree_shape t" "storage_path path" "above path \<subseteq> set (tree_directories t)"
    "path \<notin> set (tree_directories t)"
  shows "tree_shape (t\<lparr>tree_files := map_insert path d (tree_files t)\<rparr>)"
  using assms shape_insert_file [of _ _ path] by (simp add: tree_shape_def)

lemma tree_shape_delete: "tree_shape t \<Longrightarrow> tree_shape (t\<lparr>tree_files := map_remove path (tree_files t)\<rparr>)"
  by (simp add: tree_shape_def shape_remove_file)

lemma bare_write_effect:
  assumes "bare_good p" "storage_path path" "bare_write D p path d = Some (r, p')"
  shows "bare_good p' \<and> (if isl r then bare_tree p' = bare_tree p
    else bare_files p' = (bare_files p)(path \<mapsto> d))"
proof (cases "path \<in> set (tree_directories (bare_tree p))")
  case True
  then show ?thesis using assms by (auto simp: bare_write_def)
next
  case False
  let ?k = "\<lambda>q. commit D (bare_tree p) (q\<lparr>bare_tree := bare_tree q\<lparr>tree_files :=
      map_insert path d (tree_files (bare_tree q))\<rparr>\<rparr>)"
  have run: "with_parents (parent path) p ?k = Some (r, p')"
    using assms(3) False by (simp add: bare_write_def Let_def)
  have shape: "tree_shape (bare_tree p)" using assms(1) by (simp add: bare_good_def)
  from run show ?thesis
  proof (cases rule: with_parents_SomeE)
    case (err e t)
    then show ?thesis using add_parents_parent [OF shape assms(2) err(1)] assms(1) by simp
  next
    case (val u t)
    from add_parents_parent [OF shape assms(2) val(1)]
    have t: "tree_files t = tree_files (bare_tree p)" "tree_shape t"
      "set (tree_directories t) = set (tree_directories (bare_tree p)) \<union> above path" by simp_all
    have "path \<notin> set (tree_directories t)" using False t(3) by (simp add: above_def)
    then have "tree_shape (t\<lparr>tree_files := map_insert path d (tree_files t)\<rparr>)"
      using t by (intro tree_shape_put assms(2)) auto
    then show ?thesis using commit_tree [OF val(2)] shape t(1) by (auto simp: bare_good_def bare_files_def)
  qed
qed

lemma bare_create_dir_all_effect:
  assumes "bare_good p" "storage_path path" "bare_create_dir_all D p path = Some (r, p')"
  shows "bare_good p' \<and> bare_files p' = bare_files p \<and> (isl r \<longrightarrow> bare_tree p' = bare_tree p)"
proof -
  have shape: "tree_shape (bare_tree p)" using assms(1) by (simp add: bare_good_def)
  from assms(3) have "with_parents path p (commit D (bare_tree p)) = Some (r, p')"
    by (simp add: bare_create_dir_all_def Let_def)
  then show ?thesis
  proof (cases rule: with_parents_SomeE)
    case (err e t)
    then show ?thesis using add_parents_any [OF shape assms(2) err(1)] assms(1) by simp
  next
    case (val u t)
    then show ?thesis using add_parents_any [OF shape assms(2) val(1)] commit_tree [OF val(2)] shape
      by (auto simp: bare_good_def bare_files_def)
  qed
qed

lemma bare_remove_effect:
  assumes "bare_good p" "bare_remove D p path = Some (r, p')"
  shows "bare_good p' \<and> (if isl r then bare_tree p' = bare_tree p
    else bare_files p' = (\<lambda>q. if at_or_below path q then None else bare_files p q))"
proof -
  let ?t = "bare_tree p"
  have shape: "tree_shape ?t" using assms(1) by (simp add: bare_good_def)
  show ?thesis
  proof (cases "contains_key (tree_files ?t) path")
    case True
    have "map_of (tree_files ?t) q = None" if "at_or_below path q" "q \<noteq> path" for q
      using shape_file_leaf [of _ _ path q] shape True that by (auto simp: tree_shape_def contains_key_def)
    then have "(map_of (tree_files ?t))(path := None)
        = (\<lambda>q. if at_or_below path q then None else map_of (tree_files ?t) q)"
      by (auto simp: fun_eq_iff)
    then show ?thesis
      using assms(2) True shape tree_shape_delete [OF shape, of path]
      by (auto simp: bare_remove_def Let_def bare_good_def bare_files_def dest!: commit_tree)
  next
    case nofile: False
    show ?thesis
    proof (cases "path \<in> set (tree_directories ?t)")
      case True
      let ?t' = "?t\<lparr>tree_files := map_retain (\<lambda>name _. \<not> starts_with (path @ ''/'') name) (tree_files ?t),
         tree_directories := filter (\<lambda>name. name \<noteq> path \<and> \<not> starts_with (path @ ''/'') name)
           (tree_directories ?t)\<rparr>"
      have view: "map_of (tree_files ?t') = (\<lambda>q. if at_or_below path q then None else map_of (tree_files ?t) q)"
        using nofile shape by (auto simp: fun_eq_iff tree_shape_def map_of_map_retain contains_key_def
            at_or_below_def split: option.split)
      then have "dom (map_of (tree_files ?t')) = {q \<in> dom (map_of (tree_files ?t)). \<not> at_or_below path q}"
        by (auto split: if_splits)
      moreover have "set (tree_directories ?t') = {q \<in> set (tree_directories ?t). \<not> at_or_below path q}"
        by (auto simp: at_or_below_def)
      ultimately have "tree_shape ?t'"
        using shape shape_remove_below by (simp add: tree_shape_def)
      then show ?thesis
        using assms(2) nofile True shape view
        by (auto simp: bare_remove_def Let_def bare_good_def bare_files_def dest!: commit_tree)
    next
      case False
      then show ?thesis using assms nofile by (auto simp: bare_remove_def Let_def)
    qed
  qed
qed
lemma tree_shape_move_file:
  assumes "tree_shape t" "storage_path to" "above to \<subseteq> set (tree_directories t)"
    "\<not> tree_exists t to" "map_of (tree_files t) from = Some d"
  shows "tree_shape (t\<lparr>tree_files := map_insert to d (map_remove from (tree_files t))\<rparr>)"
    and "(map_of (tree_files t))(from := None, to \<mapsto> d) = move_view from to (map_of (tree_files t))"
proof -
  let ?f = "map_of (tree_files t)" and ?D = "set (tree_directories t)"
  have shape: "shape (dom ?f) ?D" using assms(1) by (simp add: tree_shape_def)
  have to: "to \<notin> dom ?f \<union> ?D" using assms(4) by (simp add: tree_exists_def contains_key_def domIff)
  show "tree_shape (t\<lparr>tree_files := map_insert to d (map_remove from (tree_files t))\<rparr>)"
    using tree_shape_put [OF tree_shape_delete [OF assms(1), of "from"] assms(2)] assms(3) to by simp
  have free: "?f q = None" if "at_or_below to q" for q
    using shape_above [OF shape, of q to] to that by (cases "q \<in> dom ?f") (auto simp: domIff)
  have leaf: "?f q = None" if "at_or_below from q" "q \<noteq> from" for q
    using shape_file_leaf [OF shape, of "from" q] assms(5) that by (cases "q \<in> dom ?f") (auto simp: domIff)
  show "?f(from := None, to \<mapsto> d) = move_view from to ?f"
  proof
    fix q show "(?f(from := None, to \<mapsto> d)) q = move_view from to ?f q"
    proof (cases "at_or_below to q")
      case True
      then obtain s where s: "q = to @ s" "s = [] \<or> starts_with ''/'' s" by (rule at_or_belowE)
      have "q \<noteq> from" using free [OF True] assms(5) by auto
      moreover have "?f (from @ s) = None" if "s \<noteq> []"
        using leaf [of "from @ s"] s(2) that by (simp add: at_or_below_append)
      ultimately show ?thesis
        using True s(1) free [OF True] assms(5) by (cases "s = []") (simp_all add: move_view_def)
    next
      case False
      then have "q \<noteq> to" by auto
      then show ?thesis using False leaf [of q] by (auto simp: move_view_def)
    qed
  qed
qed

lemma tree_shape_move_directory:
  assumes shape: "tree_shape t" and to: "storage_path to" "above to \<subseteq> set (tree_directories t)" "\<not> tree_exists t to"
    and dir: "from \<in> set (tree_directories t)" and apart: "\<not> at_or_below from to"
  defines "t' \<equiv> t\<lparr>
     tree_directories := move_directories from to
       (filter (\<lambda>path. path = from \<or> starts_with (from @ ''/'') path) (tree_directories t)) (tree_directories t),
     tree_files := move_files from to
       (filter (\<lambda>entry. starts_with (from @ ''/'') (fst entry)) (tree_files t)) (tree_files t)\<rparr>"
  shows "tree_shape t' \<and> map_of (tree_files t') = move_view from to (map_of (tree_files t))"
proof -
  let ?f = "map_of (tree_files t)" and ?D = "set (tree_directories t)"
  have sh: "shape (dom ?f) ?D" and om: "omap (tree_files t)" and os: "oset (tree_directories t)"
    using shape by (simp_all add: tree_shape_def)
  have to': "to \<notin> dom ?f \<union> ?D" using to(3) by (simp add: tree_exists_def contains_key_def domIff)
  have free: "q \<notin> dom ?f \<union> ?D" if "at_or_below to q" for q
    using shape_above [OF sh, of q to] to' that by blast
  have disj: "\<not> at_or_below from q" if "at_or_below to q" for q
    using at_or_below_linear [OF that, of "from"] apart free [of "from"] dir by blast
  let ?ps = "filter (\<lambda>entry. starts_with (from @ ''/'') (fst entry)) (tree_files t)"
  have lookup: "map_of ?ps q = (if starts_with (from @ ''/'') q then ?f q else None)" for q
    using map_of_map_retain [OF om, of "\<lambda>k _. starts_with (from @ ''/'') k" q]
    by (simp add: map_retain_def split: option.splits)
  have nofile: "?f from = None" using sh dir by (auto simp: shape_def domIff)
  have files': "tree_files t' = move_files from to ?ps (tree_files t)" by (simp add: t'_def)
  have view: "map_of (tree_files t') = move_view from to ?f"
  proof
    fix q
    have "map_of (tree_files t') q = (if at_or_below to q then (case map_of ?ps (from @ drop (length to) q) of
          Some d \<Rightarrow> Some d | None \<Rightarrow> ?f q) else if map_of ?ps q \<noteq> None then None else ?f q)"
      unfolding files'
      by (rule move_files_lookup [OF omap_distinct [OF omap_filter [OF om]] _ disj]) (auto simp: at_or_below_def)
    also have "\<dots> = move_view from to ?f q"
    proof (cases "at_or_below to q")
      case True
      then obtain s where s: "q = to @ s" "s = [] \<or> starts_with ''/'' s" by (rule at_or_belowE)
      have "?f q = None" using free [OF True] by (simp add: domIff)
      moreover have "starts_with (from @ ''/'') (from @ s) \<longleftrightarrow> s \<noteq> []"
        using s(2) by (auto simp: starts_with_iff)
      ultimately show ?thesis
        using True s(1) nofile by (cases "s = []") (simp_all add: lookup move_view_def split: option.split)
    next
      case False
      then show ?thesis using nofile by (auto simp: lookup move_view_def at_or_below_def)
    qed
    finally show "map_of (tree_files t') q = move_view from to ?f q" .
  qed
  have "dom (map_of (tree_files t')) = relocated from to (dom ?f)"
    unfolding view using disj free by (intro dom_move_view) (auto simp: domIff)
  moreover have "set (tree_directories t') = relocated from to ?D"
    using move_directories_set [of "filter (\<lambda>path. path = from \<or> starts_with (from @ ''/'') path) (tree_directories t)"
        "from" to "tree_directories t"] disj
    unfolding t'_def by (auto simp: relocated_def at_or_below_def starts_with_iff)
  moreover have "omap (tree_files t')" "oset (tree_directories t')"
    using om os by (simp_all add: t'_def omap_move_files oset_move_directories)
  ultimately have "tree_shape t'"
    using shape_move [OF sh to(1,2) to' apart] by (simp add: tree_shape_def)
  with view show ?thesis by simp
qed
lemma strip_prefix_slash:
  "(case strip_prefix a q of None \<Rightarrow> False | Some s \<Rightarrow> starts_with ''/'' s) \<longleftrightarrow> at_or_below a q \<and> a \<noteq> q"
  by (auto simp: strip_prefix_Some_iff strip_prefix_None_iff at_or_below_def starts_with_iff split: option.splits)

lemma bare_rename_effect:
  assumes "bare_good p" "storage_path to" "bare_rename D p from to = Some (r, p')"
  shows "bare_good p' \<and> bare_files p' = (if isl r \<or> from = to then bare_files p
    else move_view from to (bare_files p))"
proof -
  let ?t = "bare_tree p"
  have shape: "tree_shape ?t" using assms(1) by (simp add: bare_good_def)
  show ?thesis
  proof (cases "from = to \<or> tree_exists ?t to \<or> at_or_below from to")
    case True
    then show ?thesis using assms by (auto simp: bare_rename_def strip_prefix_slash split: if_splits)
  next
    case False
    then have run: "with_parents (parent to) p (\<lambda>p. let tree = bare_tree p in
          case map_get (tree_files tree) from of
            Some data \<Rightarrow> commit D ?t (p\<lparr>bare_tree := tree\<lparr>
              tree_files := map_insert to data (map_remove from (tree_files tree))\<rparr>\<rparr>)
          | None \<Rightarrow>
              if from \<notin> set (tree_directories tree) then Some (Err (NotFound from), p)
              else let pre = from @ ''/'';
                  moved_directories = filter (\<lambda>path. path = from \<or> starts_with pre path) (tree_directories tree);
                  moved_files = filter (\<lambda>entry. starts_with pre (fst entry)) (tree_files tree)
                in commit D ?t (p\<lparr>bare_tree := tree\<lparr>
                  tree_directories := move_directories from to moved_directories (tree_directories tree),
                  tree_files := move_files from to moved_files (tree_files tree)\<rparr>\<rparr>)) = Some (r, p')"
      using assms(3) by (simp add: bare_rename_def strip_prefix_slash Let_def)
    from run show ?thesis
    proof (cases rule: with_parents_SomeE)
      case (err e t)
      then show ?thesis using add_parents_parent [OF shape assms(2) err(1)] assms(1) by (simp add: bare_files_def)
    next
      case (val u t)
      from add_parents_parent [OF shape assms(2) val(1)]
      have t: "tree_files t = tree_files ?t" "tree_shape t"
        "set (tree_directories t) = set (tree_directories ?t) \<union> above to" by simp_all
      have up: "above to \<subseteq> set (tree_directories t)" and free: "\<not> tree_exists t to"
        using t False by (auto simp: tree_exists_def above_def)
      show ?thesis
      proof (cases "map_get (tree_files t) from")
        case (Some d)
        note moved = tree_shape_move_file [OF t(2) assms(2) up free Some]
        show ?thesis
          using val(2) Some moved shape t(1) False
          by (auto simp: Let_def bare_good_def bare_files_def dest!: commit_tree)
      next
        case None
        show ?thesis
        proof (cases "from \<in> set (tree_directories t)")
          case True
          note moved = tree_shape_move_directory [OF t(2) assms(2) up free True]
          then show ?thesis
            using val(2) None True shape t(1) False
            by (auto simp: Let_def bare_good_def bare_files_def dest!: commit_tree)
        next
          case nodir: False
          then show ?thesis using val(2) None t(1,2) by (auto simp: bare_good_def bare_files_def)
        qed
      qed
    qed
  qed
qed

section \<open>The platform contract holds\<close>

lemma with_machine_keeps: "bare_good p \<Longrightarrow> keeps bare_good bare_files p (with_machine p m)"
  by (auto simp: confined_def with_machine_def bare_good_def bare_files_def)

lemma with_net_keeps: "bare_good p \<Longrightarrow> keeps bare_good bare_files p (with_net M p f)"
  by (simp add: with_net_def with_machine_keeps confined_return)

lemmas bare_console_defs = bare_console_write_def bare_console_read_line_def bare_console_clear_def
  bare_poll_cancel_def bare_net_status_def bare_net_connect_def bare_net_send_def bare_net_recv_def
  bare_net_close_def

lemma bare_storage_keeps:
  assumes "bare_good p"
  shows "keeps bare_good bare_files p (bare_read p path)" "keeps bare_good bare_files p (bare_list p path)"
    "keeps bare_good bare_files p (bare_exists p path)"
    "storage_path path \<Longrightarrow> keeps bare_good bare_files p (bare_create_dir_all D p path)"
    "keeps bare_good bare_files p (Some (bare_monotonic_millis M p))"
    "keeps bare_good bare_files p (bare_fill_random M p n)"
proof -
  show "keeps bare_good bare_files p (bare_create_dir_all D p path)" if "storage_path path"
    using that bare_create_dir_all_effect [OF assms] by (auto simp: confined_def)
  show "keeps bare_good bare_files p (Some (bare_monotonic_millis M p))"
    using assms by (auto simp: confined_def bare_monotonic_millis_def bare_good_def bare_files_def
        split: prod.splits)
  show "keeps bare_good bare_files p (bare_fill_random M p n)"
    using assms by (auto simp: bare_fill_random_def with_machine_keeps confined_def bare_good_def
        bare_files_def with_machine_def split: prod.splits option.splits)
qed (use assms in \<open>simp_all add: bare_read_def bare_list_def bare_exists_def confined_return Let_def\<close>)

lemma bare_reads:
  assumes "bare_good p"
  shows "bare_read p path = Some (Ok d, p') \<Longrightarrow> bare_files p path = Some d"
    "bare_files p path = Some d \<Longrightarrow> \<exists>p'. bare_read p path = Some (Ok d, p')"
    "bare_files p path = Some d \<Longrightarrow> \<exists>p'. bare_exists p path = Some (Ok True, p')"
  using assms by (auto simp: bare_read_def bare_files_def bare_exists_def tree_exists_def contains_key_def
      bare_good_def tree_shape_def shape_def split: if_splits)

lemma bare_updates:
  assumes "bare_good p"
  shows "storage_path path \<Longrightarrow> bare_write D p path d = Some (Ok u, p') \<Longrightarrow>
      bare_good p' \<and> bare_files p' = (bare_files p)(path \<mapsto> d)"
    "storage_path path \<Longrightarrow> bare_write D p path d = Some (Err e, p') \<Longrightarrow>
      bare_good p' \<and> bare_files p' = bare_files p"
    "bare_remove D p path = Some (Ok u, p') \<Longrightarrow>
      bare_good p' \<and> bare_files p' = (\<lambda>q. if at_or_below path q then None else bare_files p q)"
    "bare_remove D p path = Some (Err e, p') \<Longrightarrow> bare_good p' \<and> bare_files p' = bare_files p"
    "storage_path to \<Longrightarrow> bare_rename D p from to = Some (Ok u, p') \<Longrightarrow>
      bare_good p' \<and> bare_files p' = (if from = to then bare_files p else
        (\<lambda>q. if at_or_below to q then bare_files p (from @ drop (length to) q)
             else if at_or_below from q then None else bare_files p q))"
    "storage_path to \<Longrightarrow> bare_rename D p from to = Some (Err e, p') \<Longrightarrow>
      bare_good p' \<and> bare_files p' = bare_files p"
proof -
  show "bare_good p' \<and> bare_files p' = (bare_files p)(path \<mapsto> d)"
    if "storage_path path" "bare_write D p path d = Some (Ok u, p')"
    using bare_write_effect [OF assms that] by simp
  show "bare_good p' \<and> bare_files p' = bare_files p"
    if "storage_path path" "bare_write D p path d = Some (Err e, p')"
    using bare_write_effect [OF assms that] by (simp add: bare_files_def)
  show "bare_good p' \<and> bare_files p' = (\<lambda>q. if at_or_below path q then None else bare_files p q)"
    if "bare_remove D p path = Some (Ok u, p')"
    using bare_remove_effect [OF assms that] by simp
  show "bare_good p' \<and> bare_files p' = bare_files p" if "bare_remove D p path = Some (Err e, p')"
    using bare_remove_effect [OF assms that] by (simp add: bare_files_def)
  show "bare_good p' \<and> bare_files p' = (if from = to then bare_files p else
        (\<lambda>q. if at_or_below to q then bare_files p (from @ drop (length to) q)
             else if at_or_below from q then None else bare_files p q))"
    if "storage_path to" "bare_rename D p from to = Some (Ok u, p')"
    using bare_rename_effect [OF assms that] by (simp add: move_view_def)
  show "bare_good p' \<and> bare_files p' = bare_files p"
    if "storage_path to" "bare_rename D p from to = Some (Err e, p')"
    using bare_rename_effect [OF assms that] by simp
qed

interpretation bare: storage_platform "bare_platform D M" bare_files bare_good
  for D :: "'d block_device" and M :: "'h machine"
proof (unfold_locales, unfold bare_platform_def platform.simps)
  fix p :: "('d, 'h) bare_metal" and path "from" to d u e p'
  assume good: "bare_good p"
  show "bare_read p path = Some (Ok d, p') \<Longrightarrow> bare_files p path = Some d"
    "bare_files p path = Some d \<Longrightarrow> \<exists>p'. bare_read p path = Some (Ok d, p')"
    "bare_files p path = Some d \<Longrightarrow> \<exists>p'. bare_exists p path = Some (Ok True, p')"
    using bare_reads [OF good] by blast+
  assume path: "storage_path path"
  show "bare_write D p path d = Some (Ok u, p') \<Longrightarrow>
      bare_good p' \<and> bare_files p' = (bare_files p)(path \<mapsto> d)"
    "bare_write D p path d = Some (Err e, p') \<Longrightarrow> bare_good p' \<and> bare_files p' = bare_files p"
    using bare_updates(1,2) [OF good path] by blast+
  show "bare_remove D p path = Some (Ok u, p') \<Longrightarrow>
      bare_good p' \<and> bare_files p' = (\<lambda>q. if at_or_below path q then None else bare_files p q)"
    by (rule bare_updates(3) [OF good])
  show "bare_remove D p path = Some (Err e, p') \<Longrightarrow> bare_good p' \<and> bare_files p' = bare_files p"
    by (rule bare_updates(4) [OF good])
next
  fix p :: "('d, 'h) bare_metal" and "from" to u e p'
  assume good: "bare_good p" and to: "storage_path to"
  show "bare_rename D p from to = Some (Ok u, p') \<Longrightarrow>
      bare_good p' \<and> bare_files p' = (if from = to then bare_files p else
        (\<lambda>q. if at_or_below to q then bare_files p (from @ drop (length to) q)
             else if at_or_below from q then None else bare_files p q))"
    by (rule bare_updates(5) [OF good to])
  show "bare_rename D p from to = Some (Err e, p') \<Longrightarrow> bare_good p' \<and> bare_files p' = bare_files p"
    by (rule bare_updates(6) [OF good to])
qed (simp_all add: bare_console_defs with_machine_keeps with_net_keeps bare_storage_keeps)

section \<open>Listing\<close>

lemma direct_child_Some:
  "direct_child path pre = Some name \<longleftrightarrow> path = pre @ name \<and> name \<noteq> [] \<and> slash \<notin> set name"
  by (auto simp: direct_child_def strip_prefix_Some_iff split: option.splits if_splits)

abbreviation child_named :: "string \<Rightarrow> bool" where
  "child_named name \<equiv> name \<noteq> [] \<and> slash \<notin> set name"

definition directory_entry :: "string \<Rightarrow> storage_entry" where
  "directory_entry name = \<lparr>entry_name = name, entry_is_dir = True, entry_len = 0\<rparr>"

definition file_entry :: "string \<Rightarrow> bytes \<Rightarrow> storage_entry" where
  "file_entry name data = \<lparr>entry_name = name, entry_is_dir = False,
     entry_len = (if length data < 2 ^ 64 then word_of_nat (length data) else - 1)\<rparr>"

lemma entry_name_entries [simp]:
  "entry_name (directory_entry name) = name" "entry_name (file_entry name data) = name"
  by (simp_all add: directory_entry_def file_entry_def)

lemma insert_directories_lookup:
  "map_of (insert_directories pre ds m) name =
     (if child_named name \<and> pre @ name \<in> set ds then Some (directory_entry name) else map_of m name)"
proof (induction ds arbitrary: m)
  case (Cons d ds)
  show ?case
  proof (cases "direct_child d pre")
    case None
    then have "\<not> (child_named name \<and> pre @ name = d)" by (auto simp: direct_child_def)
    then show ?thesis using Cons.IH None by auto
  next
    case (Some n)
    then have "d = pre @ n" "child_named n" by (auto simp: direct_child_Some)
    then show ?thesis using Cons.IH Some by (auto simp: directory_entry_def)
  qed
qed simp

lemma insert_files_lookup:
  assumes "distinct (map fst fs)"
  shows "map_of (insert_files pre fs m) name =
     (case map_of fs (pre @ name) of Some d \<Rightarrow> if child_named name then Some (file_entry name d) else map_of m name
      | None \<Rightarrow> map_of m name)"
  using assms
proof (induction fs arbitrary: m)
  case (Cons e fs)
  obtain f d where e: "e = (f, d)" by (cases e)
  have fresh: "map_of fs f = None" using Cons.prems e by (auto simp: map_of_eq_None_iff)
  have dist: "distinct (map fst fs)" using Cons.prems by simp
  show ?case
  proof (cases "direct_child f pre")
    case None
    then have "\<not> (child_named name \<and> pre @ name = f)" by (auto simp: direct_child_def)
    then show ?thesis using Cons.IH [OF dist] None e fresh by (auto split: option.splits)
  next
    case (Some n)
    then have "f = pre @ n" "child_named n" by (auto simp: direct_child_Some)
    then show ?thesis using Cons.IH [OF dist] Some e fresh
      by (auto simp: file_entry_def split: option.splits)
  qed
qed simp

lemma omap_insert_entries:
  "omap m \<Longrightarrow> omap (insert_files pre fs m)" "omap m \<Longrightarrow> omap (insert_directories pre ds m)"
  by (induction pre fs m rule: insert_files.induct; simp split: option.split)
    (induction pre ds m rule: insert_directories.induct; simp split: option.split)

text \<open>C28: listing a directory returns its direct children, each once, in name order: the
  subdirectories with length zero and the files with their length.\<close>

theorem bare_list_exact:
  assumes "bare_good p" "path \<in> set (tree_directories (bare_tree p))"
  shows "\<exists>entries. bare_list p path = Some (Ok entries, p) \<and> sorted_wrt (<) (map entry_name entries) \<and>
    (\<forall>e. e \<in> set entries \<longleftrightarrow> (\<exists>name. name \<noteq> [] \<and> slash \<notin> set name \<and>
      (path @ ''/'' @ name \<in> set (tree_directories (bare_tree p)) \<and> e = directory_entry name
       \<or> (\<exists>d. bare_files p (path @ ''/'' @ name) = Some d \<and> e = file_entry name d))))"
proof -
  let ?t = "bare_tree p" and ?pre = "path @ ''/''"
  define m where "m = insert_files ?pre (tree_files ?t) (insert_directories ?pre (tree_directories ?t) [])"
  have shape: "shape (dom (map_of (tree_files ?t))) (set (tree_directories ?t))" "omap (tree_files ?t)"
    using assms(1) by (auto simp: bare_good_def tree_shape_def)
  have "path \<noteq> []" using shape_path [OF shape(1)] assms(2) storage_path_not_Nil by blast
  then have run: "bare_list p path = Some (Ok (map snd m), p)"
    using assms(2) by (simp add: bare_list_def m_def Let_def)
  have omap: "omap m" by (simp add: m_def omap_insert_entries)
  have lookup: "map_of m name = Some e \<longleftrightarrow> child_named name \<and>
      (path @ ''/'' @ name \<in> set (tree_directories ?t) \<and> e = directory_entry name
       \<or> (\<exists>d. bare_files p (path @ ''/'' @ name) = Some d \<and> e = file_entry name d))" for name e
    using shape(1) insert_files_lookup [OF omap_distinct [OF shape(2)]]
    by (auto simp: m_def insert_directories_lookup bare_files_def shape_def domIff split: option.splits)
  have mem: "(name, e) \<in> set m \<longleftrightarrow> map_of m name = Some e" for name e
    using omap_distinct [OF omap] by (simp add: map_of_eq_Some_iff)
  have "map entry_name (map snd m) = map fst m"
    using lookup mem by (auto simp: comp_def intro!: map_cong)
  then have "sorted_wrt (<) (map entry_name (map snd m))" using omap unfolding omap_def by (simp only:)
  moreover have "e \<in> set (map snd m) \<longleftrightarrow> (\<exists>name. map_of m name = Some e)" for e
    using mem by force
  ultimately show ?thesis using run lookup by auto
qed

section \<open>Updates refine a map\<close>

text \<open>C7: the storage operations refine updates of a finite map from storage paths to contents. An
  update that returns an error leaves every file as it was; a successful write binds its path, a
  successful removal unbinds the path and everything below it, a successful rename moves the path with
  everything below it; and every outcome keeps the shape of the tree.\<close>

theorem bare_storage_refines_map:
  assumes "bare_good p" "storage_path path" "storage_path to"
  shows "(\<forall>r p'. bare_write D p path d = Some (r, p') \<longrightarrow> bare_good p' \<and>
        bare_files p' = (if isl r then bare_files p else (bare_files p)(path \<mapsto> d)))
    \<and> (\<forall>r p'. bare_remove D p path = Some (r, p') \<longrightarrow> bare_good p' \<and>
        bare_files p' = (if isl r then bare_files p
          else (\<lambda>q. if at_or_below path q then None else bare_files p q)))
    \<and> (\<forall>r p'. bare_rename D p path to = Some (r, p') \<longrightarrow> bare_good p' \<and>
        bare_files p' = (if isl r \<or> path = to then bare_files p
          else (\<lambda>q. if at_or_below to q then bare_files p (path @ drop (length to) q)
                 else if at_or_below path q then None else bare_files p q)))
    \<and> (\<forall>r p'. bare_create_dir_all D p path = Some (r, p') \<longrightarrow> bare_good p' \<and>
        bare_files p' = bare_files p)"
proof (intro conjI allI impI)
  fix r p' assume "bare_write D p path d = Some (r, p')"
  from bare_write_effect [OF assms(1,2) this] show "bare_good p'"
    "bare_files p' = (if isl r then bare_files p else (bare_files p)(path \<mapsto> d))"
    by (simp_all add: bare_files_def split: if_splits)
next
  fix r p' assume "bare_remove D p path = Some (r, p')"
  from bare_remove_effect [OF assms(1) this] show "bare_good p'"
    "bare_files p' = (if isl r then bare_files p else (\<lambda>q. if at_or_below path q then None else bare_files p q))"
    by (simp_all add: bare_files_def split: if_splits)
next
  fix r p' assume "bare_rename D p path to = Some (r, p')"
  from bare_rename_effect [OF assms(1,3) this] show "bare_good p'"
    "bare_files p' = (if isl r \<or> path = to then bare_files p
        else (\<lambda>q. if at_or_below to q then bare_files p (path @ drop (length to) q)
                 else if at_or_below path q then None else bare_files p q))"
    by (simp_all add: move_view_def)
next
  fix r p' assume "bare_create_dir_all D p path = Some (r, p')"
  from bare_create_dir_all_effect [OF assms(1,2) this] show "bare_good p'" "bare_files p' = bare_files p" by simp_all
qed

section \<open>Durability\<close>

definition valid_names :: "file_tree \<Rightarrow> bool" where
  "valid_names t \<longleftrightarrow> list_all valid_utf8 (tree_directories t) \<and> list_all (valid_utf8 \<circ> fst) (tree_files t)"

lemma tree_rep_shape: "tree_shape t \<Longrightarrow> valid_names t \<Longrightarrow> tree_rep t"
  by (simp add: tree_rep_def tree_shape_def valid_names_def)

lemma commit_Ok:
  assumes "commit D previous p = Some (Ok u, p')" "persistence p = Some store"
  obtains store' where "snapshot_save D store (bare_tree p) = Some (Ok (), store')"
    "p' = p\<lparr>persistence := Some store'\<rparr>"
proof -
  from assms obtain store' r where "snapshot_save D store (bare_tree p) = Some (r, store')"
    "\<not> isl r" "p' = p\<lparr>persistence := Some store'\<rparr>"
    by (auto simp: commit_def persist_def map_err_def split: option.splits sum.splits)
  then show thesis by (cases r) (auto intro: that)
qed

lemma bare_write_commit:
  assumes "bare_write D p path d = Some (Ok u, p')"
  obtains q where "commit D (bare_tree p) q = Some (Ok u, p')" "persistence q = persistence p"
  using assms by (auto simp: bare_write_def Let_def split: if_splits elim!: with_parents_SomeE)

lemma reboot_restores:
  assumes "snapshot_open D device = Some (Ok (store, Some t))" "tree_files t \<noteq> []"
  shows "bare_new D (Some (h, start)) frequency initial_files (Some device) entropy net
    = Some (Ok \<lparr>bare_machine = h, bare_tree = t, persistence = Some store, has_entropy = entropy,
        has_net = net, started = start, counter_frequency = frequency\<rparr>)"
  using assms by (simp add: bare_new_def Let_def)

text \<open>C1: durability. When a write returns success on a machine whose disk keeps the block contract,
  the next boot from that disk restores the tree exactly and reads the written bytes back.\<close>

theorem write_survives_reboot:
  assumes "reliable_blocks D disk ready" "bare_good p" "storage_path path"
    and "persistence p = Some store" "store_inv D disk ready store t" "store_generation store \<noteq> - 1"
    and "bare_write D p path data = Some (Ok u, p')" "valid_names (bare_tree p')"
  shows "\<exists>store' q. persistence p' = Some store' \<and>
    bare_new D (Some (h, start)) frequency initial_files (Some (store_device store')) entropy net = Some (Ok q) \<and>
    bare_tree q = bare_tree p' \<and> bare_good q \<and> bare_read q path = Some (Ok data, q)"
proof -
  from bare_write_effect [OF assms(2,3,7)]
  have good: "bare_good p'" "bare_files p' = (bare_files p)(path \<mapsto> data)" by simp_all
  from assms(7) obtain q0 where q0: "commit D (bare_tree p) q0 = Some (Ok u, p')"
    "persistence q0 = Some store" using assms(4) by (auto elim: bare_write_commit)
  then obtain store' where s: "snapshot_save D store (bare_tree q0) = Some (Ok (), store')"
    "p' = q0\<lparr>persistence := Some store'\<rparr>" by (rule commit_Ok)
  then have tree: "bare_tree p' = bare_tree q0" by simp
  then have "tree_rep (bare_tree q0)"
    using tree_rep_shape [of "bare_tree p'"] good(1) assms(8) by (simp add: bare_good_def)
  from reliable_blocks.reopen_after_save [OF assms(1,5) this s(1) assms(6)]
  obtain d' where opened: "snapshot_open D (store_device store')
      = Some (Ok (store'\<lparr>store_device := d'\<rparr>, Some (bare_tree p')))" using tree by auto
  have key: "map_of (tree_files (bare_tree p')) path = Some data"
    using good(2) by (simp add: bare_files_def)
  then have "tree_files (bare_tree p') \<noteq> []" by auto
  note boot = reboot_restores [OF opened this, of h start frequency initial_files entropy net]
  have "path \<notin> set (tree_directories (bare_tree p'))"
    using good(1) key by (auto simp: bare_good_def tree_shape_def shape_def)
  then show ?thesis using boot s(2) good(1) key by (simp add: bare_good_def bare_read_def)
qed

section \<open>First boot\<close>

lemma add_parents_parent_free:
  assumes "tree_shape t" "storage_path path" "above path \<inter> dom (map_of (tree_files t)) = {}"
  shows "\<exists>t'. add_parents (parent path) t = (Ok (), t')"
proof (cases "add_parents (parent path) t")
  case (Pair r t')
  show ?thesis
  proof (cases r)
    case (Inl e)
    have cs: "[] \<notin> set (butlast (split_on slash path))"
      using assms(2) by (auto simp: storage_path_def dest: in_set_butlastD)
    have "add_parents_loop (butlast (split_on slash path)) [] t = (Err e, t')"
      using Pair Inl by (simp add: add_parents_def split_parent [OF assms(2)])
    from add_parents_loop_shape_Err [OF assms(1) cs this] assms(3) show ?thesis
      by (auto simp: chain_above_eq contains_key_def)
  qed (use Pair in auto)
qed

definition initial_entries :: "initial_file list \<Rightarrow> (string \<times> bytes) list" where
  "initial_entries fs = map (\<lambda>f. (initial_path f, initial_data f)) fs"

text \<open>Boot files that can be installed together: proper storage paths, none strictly above another.\<close>

definition installable :: "initial_file list \<Rightarrow> bool" where
  "installable fs \<longleftrightarrow> (\<forall>f\<in>set fs. storage_path (initial_path f) \<and>
     (\<forall>g\<in>set fs. initial_path g = initial_path f \<or> \<not> at_or_below (initial_path g) (initial_path f)))"

lemma install_files_ok:
  assumes "tree_shape t" "installable fs"
    "\<forall>f\<in>set fs. above (initial_path f) \<inter> dom (map_of (tree_files t)) = {}
       \<and> initial_path f \<notin> set (tree_directories t)"
  shows "\<exists>t'. install_files fs t = (Ok (), t') \<and> tree_shape t' \<and>
    map_of (tree_files t') = map_of (tree_files t) ++ map_of (rev (initial_entries fs))"
  using assms
proof (induction fs arbitrary: t)
  case (Cons f fs)
  let ?p = "initial_path f"
  have path: "storage_path ?p" using Cons.prems(2) by (simp add: installable_def)
  obtain t1 where run: "add_parents (parent ?p) t = (Ok (), t1)"
    using add_parents_parent_free [OF Cons.prems(1) path] Cons.prems(3) by auto
  from add_parents_parent [OF Cons.prems(1) path run]
  have t1: "tree_files t1 = tree_files t" "tree_shape t1"
    "set (tree_directories t1) = set (tree_directories t) \<union> above ?p" by simp_all
  let ?t2 = "t1\<lparr>tree_files := map_insert ?p (initial_data f) (tree_files t1)\<rparr>"
  have shape: "tree_shape ?t2"
    using Cons.prems(3) t1 by (intro tree_shape_put path) (auto simp: above_def)
  have rest: "installable fs" using Cons.prems(2) by (auto simp: installable_def)
  have "\<forall>g\<in>set fs. above (initial_path g) \<inter> dom (map_of (tree_files ?t2)) = {}
       \<and> initial_path g \<notin> set (tree_directories ?t2)"
    using Cons.prems(2,3) t1 by (auto simp: installable_def above_def)
  from Cons.IH [OF shape rest this] obtain t' where t': "install_files fs ?t2 = (Ok (), t')" "tree_shape t'"
    "map_of (tree_files t') = map_of (tree_files ?t2) ++ map_of (rev (initial_entries fs))" by blast
  have "map_of (tree_files ?t2) = map_of (tree_files t) ++ map_of [(?p, initial_data f)]"
    using t1(1) by simp
  then have "map_of (tree_files t') = map_of (tree_files t) ++ map_of (rev (initial_entries (f # fs)))"
    unfolding t'(3) by (simp only: initial_entries_def list.map rev.simps map_of_append map_add_assoc)
  then show ?case using run t'(1,2) by simp
qed (auto simp: initial_entries_def)

text \<open>A machine without a disk boots with the boot files installed: every file is there with its
  contents (the last one of a name wins), every directory above it exists, and the tree has its
  shape, provided no boot file lies below another one.\<close>

theorem first_boot_installs_files:
  assumes "installable fs"
  shows "\<exists>q. bare_new D (Some (h, start)) frequency fs None entropy net = Some (Ok q) \<and> bare_good q \<and>
    bare_files q = map_of (rev (initial_entries fs))"
proof -
  have "tree_shape empty_tree" by (simp add: empty_tree_def tree_shape_def shape_def)
  from install_files_ok [OF this assms] obtain t where "install_files fs empty_tree = (Ok (), t)"
    "tree_shape t" "map_of (tree_files t) = map_of (rev (initial_entries fs))"
    by (auto simp: empty_tree_def)
  then show ?thesis
    by (simp add: bare_new_def Let_def persist_def bare_good_def bare_files_def)
      (simp add: empty_tree_def)
qed

theorem first_boot_installs_files_witness:
  "installable [\<lparr>initial_path = ''user/a'', initial_data = [7]\<rparr>] \<and>
   (\<exists>q. bare_new memory_device (Some ((), 0)) 1 [\<lparr>initial_path = ''user/a'', initial_data = [7]\<rparr>] None False False
       = Some (Ok q) \<and> bare_files q ''user/a'' = Some [7])"
proof -
  have ok: "installable [\<lparr>initial_path = ''user/a'', initial_data = [7]\<rparr>]"
    by (simp add: installable_def storage_path_def)
  from first_boot_installs_files [OF ok, of memory_device "()" 0 1 False False] ok show ?thesis
    by (auto simp: initial_entries_def)
qed

section \<open>Concrete instances\<close>

definition sample_platform :: "bytes snapshot_store option \<Rightarrow> (bytes, unit) bare_metal" where
  "sample_platform store = \<lparr>bare_machine = (), bare_tree = \<lparr>tree_files = [(''user/a'', [7])],
     tree_directories = [''user'']\<rparr>, persistence = store, has_entropy = False, has_net = False,
     started = 0, counter_frequency = 1\<rparr>"

lemma sample_above: "above ''user/a'' = {''user''}"
proof -
  have "split_on slash a = [''user''] \<longleftrightarrow> a = ''user''" for a
    using split_on_inject [of slash a "''user''"] by simp
  then show ?thesis by (auto simp: above_split prefix_Cons)
qed

lemma sample_good: "bare_good (sample_platform store)"
proof -
  have "above ''user'' = {}" by (auto simp: above_split)
  then have "shape {''user/a''} {''user''}"
    using sample_above by (auto simp: shape_def above_def storage_path_def)
  then show ?thesis by (simp add: bare_good_def sample_platform_def tree_shape_def omap_def oset_def)
qed

theorem bare_list_exact_witness:
  "bare_good (sample_platform None) \<and> bare_list (sample_platform None) ''user''
     = Some (Ok [file_entry ''a'' [7]], sample_platform None)
   \<and> (\<exists>entries. bare_list (sample_platform None) ''user'' = Some (Ok entries, sample_platform None)
        \<and> sorted_wrt (<) (map entry_name entries))"
proof -
  have "''user'' \<in> set (tree_directories (bare_tree (sample_platform None)))"
    by (simp add: sample_platform_def)
  from bare_list_exact [OF sample_good this] show ?thesis
    using sample_good by (auto simp: bare_list_def sample_platform_def direct_child_def strip_prefix_def file_entry_def)
qed

theorem bare_storage_refines_map_witness:
  "bare_good (sample_platform None) \<and> storage_path ''user/a'' \<and> storage_path ''user/b'' \<and>
   (\<exists>p'. bare_write memory_device (sample_platform None) ''user/a'' [8] = Some (Ok (), p') \<and>
     bare_files p' = (bare_files (sample_platform None))(''user/a'' \<mapsto> [8]))"
proof -
  have paths: "storage_path ''user/a''" "storage_path ''user/b''" by (simp_all add: storage_path_def)
  have run: "\<exists>p'. bare_write memory_device (sample_platform None) ''user/a'' [8] = Some (Ok (), p')"
    by (simp add: bare_write_def with_parents_def add_parents_def parent_def rsplit_once_def split_once_def
        sample_platform_def commit_def persist_def contains_key_def Let_def)
  from bare_storage_refines_map [OF sample_good paths, where D = memory_device and d = "[8]"] run paths sample_good
  show ?thesis by fastforce
qed

definition rewritten_tree :: file_tree where
  "rewritten_tree = \<lparr>tree_files = [(''user/a'', [8])], tree_directories = [''user'']\<rparr>"

lemma sample_write:
  obtains p' where "bare_write memory_device (sample_platform (Some blank_store)) ''user/a'' [8] = Some (Ok (), p')"
    "bare_tree p' = rewritten_tree"
proof -
  have "save_fits blank_store rewritten_tree"
    by (simp add: save_fits_def within_limits_def tree_bytes_def blank_store_def rewritten_tree_def
        string_bytes_def file_bytes_def div_ceil_def)
  from memory_save_completes [OF blank_store_inv this]
  obtain store' where "snapshot_save memory_device blank_store rewritten_tree = Some (Ok (), store')" by blast
  then have "\<exists>p'. bare_write memory_device (sample_platform (Some blank_store)) ''user/a'' [8] = Some (Ok (), p')
      \<and> bare_tree p' = rewritten_tree"
    by (simp add: bare_write_def with_parents_def add_parents_def parent_def rsplit_once_def split_once_def
        sample_platform_def commit_def persist_def contains_key_def Let_def rewritten_tree_def)
  then show thesis using that by blast
qed

theorem write_survives_reboot_witness:
  "\<exists>p' store' q.
     bare_write memory_device (sample_platform (Some blank_store)) ''user/a'' [8] = Some (Ok (), p') \<and>
     persistence p' = Some store' \<and>
     bare_new memory_device (Some ((), 0)) 1 [] (Some (store_device store')) False False = Some (Ok q) \<and>
     bare_read q ''user/a'' = Some (Ok [8], q)"
proof -
  obtain p' where p': "bare_write memory_device (sample_platform (Some blank_store)) ''user/a'' [8] = Some (Ok (), p')"
    "bare_tree p' = rewritten_tree" by (rule sample_write)
  have path: "storage_path ''user/a''" by (simp add: storage_path_def)
  have store: "persistence (sample_platform (Some blank_store)) = Some blank_store"
    by (simp add: sample_platform_def)
  have gen: "store_generation blank_store \<noteq> - 1" by (simp add: blank_store_def)
  have names: "valid_names (bare_tree p')" unfolding p'(2) by code_simp
  from write_survives_reboot [OF mem.reliable_blocks_axioms sample_good path store blank_store_inv gen
      p'(1) names, of "()" 0 1 "[]" False False] p'(1)
  show ?thesis by blast
qed

section \<open>What a failed update leaves behind\<close>

text \<open>An update that fails rolls the tree back: after an error from writing, creating directories
  or removing, the whole tree (directories included) is the one before the call, whether the error
  came from a check, from a path that runs into a file, or from the disk.\<close>

theorem failed_update_rolls_back:
  assumes "bare_good p" "storage_path path"
  shows "(\<forall>e p'. bare_write D p path d = Some (Err e, p') \<longrightarrow> bare_tree p' = bare_tree p)
    \<and> (\<forall>e p'. bare_create_dir_all D p path = Some (Err e, p') \<longrightarrow> bare_tree p' = bare_tree p)
    \<and> (\<forall>e p'. bare_remove D p path = Some (Err e, p') \<longrightarrow> bare_tree p' = bare_tree p)"
  using bare_write_effect [OF assms] bare_create_dir_all_effect [OF assms] bare_remove_effect [OF assms(1)]
  by fastforce

theorem failed_update_rolls_back_witness:
  "bare_good (sample_platform None) \<and> storage_path ''user/a/b'' \<and>
   (\<exists>p'. bare_write memory_device (sample_platform None) ''user/a/b'' [] = Some (Err (NotDirectory ''user/a''), p')
     \<and> bare_tree p' = bare_tree (sample_platform None))"
proof -
  have path: "storage_path ''user/a/b''" by (simp add: storage_path_def)
  have "\<exists>p'. bare_write memory_device (sample_platform None) ''user/a/b'' [] = Some (Err (NotDirectory ''user/a''), p')"
    by (simp add: bare_write_def with_parents_def add_parents_def parent_def rsplit_once_def split_once_def
        sample_platform_def contains_key_def Let_def)
  with failed_update_rolls_back [OF sample_good path, where D = memory_device and d = "[]"] path sample_good
  show ?thesis by blast
qed

text \<open>Renaming is the exception. When the source does not exist, \<^verbatim>\<open>storage_rename\<close> returns
  \<open>NotFound\<close> after it has created the directories above the target, and does not restore the previous
  tree: the new directories stay.\<close>

theorem rename_missing_leaves_directories:
  assumes "bare_good p" "storage_path to" "from \<noteq> to" "\<not> at_or_below from to"
    and "\<not> tree_exists (bare_tree p) to" "\<not> tree_exists (bare_tree p) from"
    and "above to \<inter> dom (bare_files p) = {}"
  shows "\<exists>p'. bare_rename D p from to = Some (Err (NotFound from), p') \<and>
    set (tree_directories (bare_tree p')) = set (tree_directories (bare_tree p)) \<union> above to"
proof -
  have shape: "tree_shape (bare_tree p)" using assms(1) by (simp add: bare_good_def)
  obtain t where t: "add_parents (parent to) (bare_tree p) = (Ok (), t)"
    using add_parents_parent_free [OF shape assms(2)] assms(7) by (auto simp: bare_files_def)
  from add_parents_parent [OF shape assms(2) t] have eff: "tree_files t = tree_files (bare_tree p)"
    "set (tree_directories t) = set (tree_directories (bare_tree p)) \<union> above to" by simp_all
  have "from \<notin> set (tree_directories t)" "map_of (tree_files t) from = None"
    using assms(4,6) eff by (auto simp: tree_exists_def contains_key_def above_def)
  then show ?thesis
    using assms(3-5) t eff(2) by (simp add: bare_rename_def strip_prefix_slash with_parents_def Let_def)
qed

theorem rename_missing_leaves_directories_witness:
  "\<exists>p'. bare_rename memory_device (sample_platform None) ''user/x'' ''tmp/a'' = Some (Err (NotFound ''user/x''), p')
     \<and> set (tree_directories (bare_tree p')) = {''user''} \<union> above ''tmp/a''
     \<and> ''tmp'' \<in> set (tree_directories (bare_tree p'))"
proof -
  have path: "storage_path ''tmp/a''" by (simp add: storage_path_def)
  have "at_or_below a ''tmp/a'' \<Longrightarrow> a \<noteq> ''user/a''" for a
    by (auto simp: at_or_below_def starts_with_iff)
  then have "above ''tmp/a'' \<inter> dom (bare_files (sample_platform None)) = {}"
    by (auto simp: above_def bare_files_def sample_platform_def split: if_splits)
  moreover have "\<not> at_or_below ''user/x'' ''tmp/a''" "''tmp'' \<in> above ''tmp/a''"
    by (simp_all add: at_or_below_def above_def)
  moreover have "\<not> tree_exists (bare_tree (sample_platform None)) ''tmp/a''"
    "\<not> tree_exists (bare_tree (sample_platform None)) ''user/x''"
    "set (tree_directories (bare_tree (sample_platform None))) = {''user''}"
    by (simp_all add: tree_exists_def contains_key_def sample_platform_def)
  ultimately show ?thesis
    using rename_missing_leaves_directories [OF sample_good path, of "''user/x''" None memory_device] by auto
qed

end
