(* ===== verification/Demo.thy ===== *)
theory Demo
  imports Shell Rhai Bare_Platform
begin

text \<open>
  A small concrete machine, password hash and file tree. The properties of the core assume the
  platform contract and little else; this is the instance on which their hypotheses are shown to
  hold.
\<close>

text \<open>The instance on which hypotheses are discharged: the bare-metal platform without a disk, on a
  machine whose keyboard has prepared lines and whose clock advances five seconds per reading. The
  hash is a stand-in that keeps the password.\<close>

record demo =
  demo_time :: u64
  demo_keys :: "string list"

definition demo_machine :: "demo machine" where
  "demo_machine = \<lparr>screen_write = (\<lambda>h _. Some h),
     screen_read_line = (\<lambda>h _ _. case demo_keys h of [] \<Rightarrow> None | l # ls \<Rightarrow> Some (l, h\<lparr>demo_keys := ls\<rparr>)),
     screen_clear = Some, screen_poll_cancel = (\<lambda>h. (False, h)),
     counter = (\<lambda>h. (demo_time h, h\<lparr>demo_time := demo_time h + 5000\<rparr>)),
     entropy_fill = (\<lambda>h n. Some (Ok (replicate n 7), h)), fill_hardware_random = (\<lambda>h n. (Some (replicate n 7), h)),
     stack_poll = (\<lambda>h _. Some h), stack_is_configured = (\<lambda>_. False),
     stack_status = (\<lambda>_. \<lparr>link_up = False, mac = [], address = None, gateway = None\<rparr>),
     stack_connect = (\<lambda>_ _ h _ _ _. Some (Err NoLease, h)), stack_send = (\<lambda>_ _ h _ _. Some (Err NoLease, h)),
     stack_recv = (\<lambda>_ _ h _ _. Some (Err NoLease, h)), stack_close = (\<lambda>_ h _. Some h),
     machine_version = ''0.2.0'', machine_architecture = ''x86_64''\<rparr>"

abbreviation demo_platform :: "(bytes, demo) bare_metal platform" where
  "demo_platform \<equiv> bare_platform memory_device demo_machine"

definition demo_state :: "string list \<Rightarrow> (string \<times> bytes) list \<Rightarrow> (bytes, demo) bare_metal" where
  "demo_state keys fs = \<lparr>bare_machine = \<lparr>demo_time = 0, demo_keys = keys\<rparr>,
     bare_tree = \<lparr>tree_files = fs, tree_directories = [''user'', ''user/config'']\<rparr>, persistence = None,
     has_entropy = True, has_net = False, started = 0, counter_frequency = 1000\<rparr>"

definition demo_argon2 :: argon2 where
  "demo_argon2 = (\<lambda>_ _ _ _. Ok (\<lambda>password _. Ok (take 32 (password @ replicate 32 0))))"

lemma demo_hash_sized: "hash_sized demo_argon2"
  by (auto simp: hash_sized_def derive_def demo_argon2_def)

lemma demo_random_sized: "random_sized demo_platform"
  by (auto simp: random_sized_def bare_platform_def bare_fill_random_def demo_machine_def with_machine_def)

lemma demo_shape: "shape {} {''user'', ''user/config''}"
proof -
  have "split_on slash a = [''user''] \<longleftrightarrow> a = ''user''" for a
    using split_on_inject [of slash a "''user''"] by simp
  then have a: "above ''user/config'' = {''user''}" "above ''user'' = {}"
    by (auto simp: above_split prefix_Cons)
  have "(at_or_below a q \<and> a \<noteq> q \<longrightarrow> a \<in> D) \<longleftrightarrow> (a \<in> above q \<longrightarrow> a \<in> D)" for a q D
    by (simp add: above_def)
  then show ?thesis by (simp only: shape_def) (simp add: a storage_path_def)
qed

lemma demo_good: "bare_good (demo_state keys [])"
  using demo_shape by (simp add: bare_good_def demo_state_def tree_shape_def omap_def oset_def)

definition demo_guard :: "string list \<Rightarrow> (bytes, demo) bare_metal guard" where
  "demo_guard keys = (security_new, vfs_new (demo_state keys []))"

lemma demo_guard_good: "guard_good bare_good [] (demo_guard keys)"
  by (simp add: demo_guard_def vfs_good_def vfs_new_def demo_good)

lemma demo_set: "\<exists>g. set_password demo_argon2 demo_platform (demo_guard []) ''pw'' = Some (Ok (), g)"
proof -
  have "(case set_password demo_argon2 demo_platform (demo_guard []) ''pw'' of Some (Inr _, _) \<Rightarrow> True | _ \<Rightarrow> False)"
    by code_simp
  then show ?thesis by (auto split: option.splits sum.splits)
qed

end
