(* ===== verification/Arch.thy ===== *)
theory Arch
  imports Rust_Str
begin

text \<open>
  \<^verbatim>\<open>platforms/bare-metal/src/arch.rs\<close> on \<^verbatim>\<open>x86_64\<close>: the serial port, the PS/2 keyboard, the
  time-stamp counter and the hardware random numbers. The processor is a parameter, a record of the
  instructions that the inline assembly executes on a hardware state \<open>'h\<close>; each wrapper function is
  the call of its instruction. A wait for the serial port is a \<open>partial_function\<close>: it may spin for ever.
\<close>

unbundle bit_operations_syntax

section \<open>Instructions\<close>

record 'h cpu =
  insn_in8 :: "u16 \<Rightarrow> 'h \<Rightarrow> u8 \<times> 'h"
  insn_in16 :: "u16 \<Rightarrow> 'h \<Rightarrow> u16 \<times> 'h"
  insn_in32 :: "u16 \<Rightarrow> 'h \<Rightarrow> u32 \<times> 'h"
  insn_out8 :: "u16 \<Rightarrow> u8 \<Rightarrow> 'h \<Rightarrow> 'h"
  insn_out16 :: "u16 \<Rightarrow> u16 \<Rightarrow> 'h \<Rightarrow> 'h"
  insn_out32 :: "u16 \<Rightarrow> u32 \<Rightarrow> 'h \<Rightarrow> 'h"
  rdtsc :: "'h \<Rightarrow> (u32 \<times> u32) \<times> 'h"
  cpuid1_ecx :: "'h \<Rightarrow> u32"
  rdrand :: "'h \<Rightarrow> (u64 \<times> bool) \<times> 'h"

definition outb :: "'h cpu \<Rightarrow> u16 \<Rightarrow> u8 \<Rightarrow> 'h \<Rightarrow> 'h" where
  "outb C port val h = insn_out8 C port val h"

definition inb :: "'h cpu \<Rightarrow> u16 \<Rightarrow> 'h \<Rightarrow> u8 \<times> 'h" where
  "inb C port h = insn_in8 C port h"

section \<open>The serial port\<close>

definition initialize_com1 :: "'h cpu \<Rightarrow> 'h \<Rightarrow> 'h" where
  "initialize_com1 C h =
     outb C (0x3f8 + 4) 0x0b (outb C (0x3f8 + 2) 0xc7 (outb C (0x3f8 + 3) 0x03 (outb C (0x3f8 + 1) 0x00
     (outb C 0x3f8 0x01 (outb C (0x3f8 + 3) 0x80 (outb C (0x3f8 + 1) 0x00 h))))))"

partial_function (option) write_byte :: "'h cpu \<Rightarrow> u8 \<Rightarrow> 'h \<Rightarrow> 'h option" where
  "write_byte C byte h = (case inb C (0x3f8 + 5) h of (status, h) \<Rightarrow>
     if status AND 0x20 = 0 then write_byte C byte h else Some (outb C 0x3f8 byte h))"

definition serial_read :: "'h cpu \<Rightarrow> 'h \<Rightarrow> u8 option \<times> 'h" where
  "serial_read C h = (case inb C (0x3f8 + 5) h of (status, h) \<Rightarrow>
     if status AND 1 = 0 then (None, h) else case inb C 0x3f8 h of (byte, h) \<Rightarrow> (Some byte, h))"

fun write_all_bytes :: "'h cpu \<Rightarrow> bytes \<Rightarrow> 'h \<Rightarrow> 'h option" where
  "write_all_bytes C [] h = Some h"
| "write_all_bytes C (byte # bs) h = (case write_byte C byte h of None \<Rightarrow> None
     | Some h \<Rightarrow> write_all_bytes C bs h)"

definition emergency_write :: "'h cpu \<Rightarrow> string \<Rightarrow> 'h \<Rightarrow> 'h option" where
  "emergency_write C text = write_all_bytes C (as_bytes text)"

section \<open>The keyboard\<close>

record arch_io =
  shift :: bool
  caps_lock :: bool

definition arch_new :: arch_io where
  "arch_new = \<lparr>shift = False, caps_lock = False\<rparr>"

definition letter_keys :: "(u8 \<times> char) list" where
  "letter_keys =
     [(0x1e, CHR ''a''), (0x30, CHR ''b''), (0x2e, CHR ''c''), (0x20, CHR ''d''), (0x12, CHR ''e''),
      (0x21, CHR ''f''), (0x22, CHR ''g''), (0x23, CHR ''h''), (0x17, CHR ''i''), (0x24, CHR ''j''),
      (0x25, CHR ''k''), (0x26, CHR ''l''), (0x32, CHR ''m''), (0x31, CHR ''n''), (0x18, CHR ''o''),
      (0x19, CHR ''p''), (0x10, CHR ''q''), (0x13, CHR ''r''), (0x1f, CHR ''s''), (0x14, CHR ''t''),
      (0x16, CHR ''u''), (0x2f, CHR ''v''), (0x11, CHR ''w''), (0x2d, CHR ''x''), (0x15, CHR ''y''),
      (0x2c, CHR ''z'')]"

definition other_keys :: "((u8 \<times> bool) \<times> u8) list" where
  "other_keys =
     [((0x02, False), byte_of CHR ''1''), ((0x03, False), byte_of CHR ''2''),
      ((0x04, False), byte_of CHR ''3''), ((0x05, False), byte_of CHR ''4''),
      ((0x06, False), byte_of CHR ''5''), ((0x07, False), byte_of CHR ''6''),
      ((0x08, False), byte_of CHR ''7''), ((0x09, False), byte_of CHR ''8''),
      ((0x0a, False), byte_of CHR ''9''), ((0x0b, False), byte_of CHR ''0''),
      ((0x02, True), byte_of CHR ''!''), ((0x03, True), byte_of CHR ''@''),
      ((0x04, True), byte_of CHR ''#''), ((0x05, True), byte_of CHR ''$''),
      ((0x06, True), byte_of CHR ''%''), ((0x07, True), byte_of CHR ''^''),
      ((0x08, True), byte_of CHR ''&''), ((0x09, True), byte_of CHR ''*''),
      ((0x0a, True), byte_of CHR ''(''), ((0x0b, True), byte_of CHR '')''),
      ((0x0c, False), byte_of CHR ''-''), ((0x0c, True), byte_of CHR ''_''),
      ((0x0d, False), byte_of CHR ''=''), ((0x0d, True), byte_of CHR ''+''),
      ((0x1a, False), byte_of CHR ''[''), ((0x1a, True), byte_of CHR ''{''),
      ((0x1b, False), byte_of CHR '']''), ((0x1b, True), byte_of CHR ''}''),
      ((0x27, False), byte_of CHR '';''), ((0x27, True), byte_of CHR '':''),
      ((0x28, False), byte_of CHR 0x27), ((0x28, True), byte_of CHR 0x22),
      ((0x29, False), byte_of CHR 0x60), ((0x29, True), byte_of CHR ''~''),
      ((0x2b, False), byte_of CHR 0x5C), ((0x2b, True), byte_of CHR ''|''),
      ((0x33, False), byte_of CHR '',''), ((0x33, True), byte_of CHR ''<''),
      ((0x34, False), byte_of CHR ''.''), ((0x34, True), byte_of CHR ''>''),
      ((0x35, False), byte_of CHR ''/''), ((0x35, True), byte_of CHR ''?''),
      ((0x39, False), byte_of CHR '' ''), ((0x39, True), byte_of CHR '' ''),
      ((0x1c, False), 10), ((0x1c, True), 10), ((0x0e, False), 8), ((0x0e, True), 8),
      ((0x0f, False), 9), ((0x0f, True), 9)]"

definition map_scan_code :: "u8 \<Rightarrow> bool \<Rightarrow> bool \<Rightarrow> u8 option" where
  "map_scan_code scan shifted caps = (case map_of letter_keys scan of
       Some letter \<Rightarrow> Some (byte_of (if shifted \<noteq> caps then to_ascii_uppercase letter else letter))
     | None \<Rightarrow> map_of other_keys (scan, shifted))"

definition keyboard_read :: "'h cpu \<Rightarrow> arch_io \<Rightarrow> 'h \<Rightarrow> u8 option \<times> arch_io \<times> 'h" where
  "keyboard_read C io h = (case inb C 0x64 h of (status, h) \<Rightarrow>
     if status AND 1 = 0 then (None, io, h)
     else case inb C 0x60 h of (scan, h) \<Rightarrow>
       if scan = 0x2a \<or> scan = 0x36 then (None, io\<lparr>shift := True\<rparr>, h)
       else if scan = 0xaa \<or> scan = 0xb6 then (None, io\<lparr>shift := False\<rparr>, h)
       else if scan = 0x3a then (None, io\<lparr>caps_lock := \<not> caps_lock io\<rparr>, h)
       else if scan AND 0x80 \<noteq> 0 then (None, io, h)
       else (map_scan_code scan (shift io) (caps_lock io), io, h))"

definition poll_byte :: "'h cpu \<Rightarrow> arch_io \<Rightarrow> 'h \<Rightarrow> u8 option \<times> arch_io \<times> 'h" where
  "poll_byte C io h = (case serial_read C h of
       (Some byte, h) \<Rightarrow> (Some byte, io, h)
     | (None, h) \<Rightarrow> keyboard_read C io h)"

section \<open>Counter and random numbers\<close>

definition arch_counter :: "'h cpu \<Rightarrow> 'h \<Rightarrow> u64 \<times> 'h" where
  "arch_counter C h = (case rdtsc C h of ((low, high), h) \<Rightarrow> (push_bit 32 (ucast high) OR ucast low, h))"

fun rdrand_attempts :: "'h cpu \<Rightarrow> nat \<Rightarrow> 'h \<Rightarrow> u64 option \<times> 'h" where
  "rdrand_attempts C 0 h = (None, h)"
| "rdrand_attempts C (Suc n) h = (case rdrand C h of ((val, ready), h) \<Rightarrow>
     if ready then (Some val, h) else rdrand_attempts C n h)"

text \<open>The loop over chunks of eight bytes, by the number of bytes still to fill.\<close>

fun fill_chunks :: "'h cpu \<Rightarrow> nat \<Rightarrow> 'h \<Rightarrow> bytes option \<times> 'h" where
  "fill_chunks C n h = (if n = 0 then (Some [], h)
     else case rdrand_attempts C 10 h of
         (None, h) \<Rightarrow> (None, h)
       | (Some val, h) \<Rightarrow> (case fill_chunks C (n - 8) h of
             (None, h) \<Rightarrow> (None, h)
           | (Some rest, h) \<Rightarrow> (Some (take n (le_bytes 8 (unat val)) @ rest), h)))"

definition arch_fill_hardware_random :: "'h cpu \<Rightarrow> bytes \<Rightarrow> 'h \<Rightarrow> (bool \<times> bytes) \<times> 'h" where
  "arch_fill_hardware_random C out h =
     (if cpuid1_ecx C h AND push_bit 30 1 = 0 then ((False, out), h)
      else case fill_chunks C (length out) h of
          (None, h) \<Rightarrow> ((False, replicate (length out) 0), h)
        | (Some bs, h) \<Rightarrow> ((True, bs), h))"

declare fill_chunks.simps [simp del]

section \<open>What the keyboard can type\<close>

definition printable :: "u8 \<Rightarrow> bool" where
  "printable b \<longleftrightarrow> 0x20 \<le> b \<and> b \<le> 0x7e"

definition typeable :: "u8 \<Rightarrow> bool" where
  "typeable b \<longleftrightarrow> printable b \<or> b \<in> {8, 9, 10}"

definition key_table :: "u8 list" where
  "key_table = map (byte_of \<circ> snd) letter_keys @ map (byte_of \<circ> to_ascii_uppercase \<circ> snd) letter_keys
     @ map snd other_keys"

lemma map_scan_code_table:
  assumes "map_scan_code scan s c = Some b"
  shows "b \<in> set key_table"
proof (cases "map_of letter_keys scan")
  case None
  then have "map_of other_keys (scan, s) = Some b" using assms by (simp add: map_scan_code_def)
  then have "b \<in> snd ` set other_keys" by (rule map_of_SomeD [THEN image_eqI [rotated]]) simp
  then show ?thesis by (simp add: key_table_def)
next
  case (Some letter)
  then have "letter \<in> snd ` set letter_keys" by (rule map_of_SomeD [THEN image_eqI [rotated]]) simp
  moreover have "b = byte_of letter \<or> b = byte_of (to_ascii_uppercase letter)"
    using assms Some by (auto simp: map_scan_code_def split: if_splits)
  ultimately show ?thesis by (auto simp: key_table_def)
qed

lemma keys_distinct: "distinct (map fst letter_keys)" "distinct (map fst other_keys)"
  by code_simp+

lemma keys_apart: "list_all (\<lambda>k. map_of letter_keys (fst (fst k)) = None) other_keys"
  by code_simp

lemma key_table_reached:
  assumes "b \<in> set key_table"
  shows "\<exists>scan s. map_scan_code scan s False = Some b"
proof -
  consider k letter where "(k, letter) \<in> set letter_keys" "b = byte_of letter \<or> b = byte_of (to_ascii_uppercase letter)"
    | k s where "((k, s), b) \<in> set other_keys"
    using assms by (auto simp: key_table_def)
  then show ?thesis
  proof cases
    case (1 k letter)
    then have "map_of letter_keys k = Some letter" using keys_distinct by simp
    then have "map_scan_code k False False = Some (byte_of letter)"
      "map_scan_code k True False = Some (byte_of (to_ascii_uppercase letter))"
      by (simp_all add: map_scan_code_def)
    then show ?thesis using 1(2) by blast
  next
    case (2 k s)
    then have "map_of other_keys (k, s) = Some b" using keys_distinct by simp
    moreover have "map_of letter_keys k = None" using keys_apart 2 by (auto simp: list_all_iff)
    ultimately have "map_scan_code k s False = Some b" by (simp add: map_scan_code_def)
    then show ?thesis by blast
  qed
qed

lemma key_table_eval:
  "key_table =
      [97, 98, 99, 100, 101, 102, 103, 104, 105, 106, 107, 108, 109, 110, 111, 112, 113, 114, 115,
       116, 117, 118, 119, 120, 121, 122, 65, 66, 67, 68, 69, 70, 71, 72, 73, 74, 75, 76, 77,
       78, 79, 80, 81, 82, 83, 84, 85, 86, 87, 88, 89, 90, 49, 50, 51, 52, 53, 54, 55, 56, 57,
       48, 33, 64, 35, 36, 37, 94, 38, 42, 40, 41, 45, 95, 61, 43, 91, 123, 93, 125, 59, 58,
       39, 34, 96, 126, 92, 124, 44, 60, 46, 62, 47, 63, 32, 32, 10, 10, 8, 8, 9, 9]"
  by (simp add: key_table_def letter_keys_def other_keys_def byte_of_def code_def to_ascii_uppercase_def)

lemma key_table_typeable: "list_all typeable key_table"
  by (simp add: key_table_eval typeable_def printable_def)

lemma typeable_in_table:
  assumes "typeable b"
  shows "b \<in> set key_table"
proof -
  have "uint b \<in> set ([8, 9, 10] @ [32..126])"
    using assms unfolding set_append set_upto by (auto simp: typeable_def printable_def word_le_def)
  moreover have "list_all (\<lambda>n. word_of_int n \<in> set key_table) ([8, 9, 10] @ [32..126])"
    unfolding key_table_eval by (simp add: upto.simps)
  ultimately have "word_of_int (uint b) \<in> set key_table" unfolding list_all_iff by (rule bspec [rotated])
  then show ?thesis by simp
qed

lemma keyboard_read_SomeD:
  assumes "keyboard_read C io h = (Some b, io', h')"
  shows "\<exists>scan. map_scan_code scan (shift io) (caps_lock io) = Some b \<and> io' = io"
proof -
  obtain status g where a: "inb C 0x64 h = (status, g)" by (cases "inb C 0x64 h")
  obtain scan k where b: "inb C 0x60 g = (scan, k)" by (cases "inb C 0x60 g")
  have "\<lbrakk>(if c1 then (None, io, g) else if c2 then (None, io2, k) else if c3 then (None, io3, k)
      else if c4 then (None, io4, k) else if c5 then (None, io, k) else (r, io, k)) = (Some b, io', h')\<rbrakk>
      \<Longrightarrow> r = Some b \<and> io' = io" for c1 c2 c3 c4 c5 io2 io3 io4 and r :: "u8 option"
    by (simp split: if_splits)
  from this [OF assms [unfolded keyboard_read_def a b prod.case]]
  show ?thesis by blast
qed

text \<open>C38: the keyboard types exactly printable ASCII, backspace, tab and line feed, in every
  state of the shift and caps-lock keys. In particular it never delivers the escape byte that
  cancels an operation: that byte can only arrive on the serial line.\<close>

theorem keyboard_range:
  "((\<exists>scan s c. map_scan_code scan s c = Some b) \<longleftrightarrow> typeable b)
   \<and> (keyboard_read C io h = (Some b, io', h') \<longrightarrow> typeable b \<and> b \<noteq> 0x1b \<and> io' = io)"
proof (rule conjI, goal_cases range read)
  case range
  have "typeable b \<longleftrightarrow> b \<in> set key_table"
    using key_table_typeable typeable_in_table [of b] unfolding list_all_iff by blast
  then show ?case using map_scan_code_table [of _ _ _ b] key_table_reached [of b] by blast
next
  case read
  show ?case
  proof (intro impI)
    assume "keyboard_read C io h = (Some b, io', h')"
    from keyboard_read_SomeD [OF this] obtain scan
      where scan: "map_scan_code scan (shift io) (caps_lock io) = Some b" and io: "io' = io" by blast
    have "typeable b" using map_scan_code_table [OF scan] key_table_typeable by (simp add: list_all_iff)
    then show "typeable b \<and> b \<noteq> 0x1b \<and> io' = io" using io by (auto simp: typeable_def printable_def)
  qed
qed

text \<open>A processor for examples: the hardware state is the list of scan codes still to be read, and
  the serial line is silent and always ready.\<close>

definition demo_cpu :: "u8 list cpu" where
  "demo_cpu = \<lparr>insn_in8 = (\<lambda>port keys.
       if port = 0x64 then (if keys = [] then 0 else 1, keys)
       else if port = 0x60 then (case keys of [] \<Rightarrow> (0, []) | k # ks \<Rightarrow> (k, ks))
       else if port = 0x3fd then (0x20, keys) else (0, keys)),
     insn_in16 = (\<lambda>_ keys. (0, keys)), insn_in32 = (\<lambda>_ keys. (0, keys)),
     insn_out8 = (\<lambda>_ _ keys. keys), insn_out16 = (\<lambda>_ _ keys. keys), insn_out32 = (\<lambda>_ _ keys. keys),
     rdtsc = (\<lambda>keys. ((0, 0), keys)), cpuid1_ecx = (\<lambda>_. 0), rdrand = (\<lambda>keys. ((0, False), keys))\<rparr>"

theorem keyboard_range_witness:
  "keyboard_read demo_cpu \<lparr>shift = True, caps_lock = False\<rparr> [0x1e, 0x01]
     = (Some (byte_of CHR ''A''), \<lparr>shift = True, caps_lock = False\<rparr>, [0x01]) \<and> typeable (byte_of CHR ''A'')"
proof -
  have run: "keyboard_read demo_cpu \<lparr>shift = True, caps_lock = False\<rparr> [0x1e, 0x01]
     = (Some (byte_of CHR ''A''), \<lparr>shift = True, caps_lock = False\<rparr>, [0x01])" by code_simp
  then show ?thesis using keyboard_range [THEN conjunct2, rule_format, OF run] by simp
qed

section \<open>Random bytes\<close>

lemma fill_chunks_length: "fill_chunks C n h = (Some bs, h') \<Longrightarrow> length bs = n"
proof (induction C n h arbitrary: bs h' rule: fill_chunks.induct)
  case (1 C n h)
  show ?case
  proof (cases "n = 0")
    case False
    then obtain val g rest where "rdrand_attempts C 10 h = (Some val, g)" "fill_chunks C (n - 8) g = (Some rest, h')"
      "bs = take n (le_bytes 8 (unat val)) @ rest"
      using 1(2) by (subst (asm) fill_chunks.simps) (auto split: prod.splits option.splits)
    moreover from this have "length rest = n - 8" by (intro "1.IH" [OF False]) auto
    ultimately show ?thesis by simp
  qed (use 1(2) in \<open>simp add: fill_chunks.simps\<close>)
qed

lemma fill_hardware_random_cases:
  assumes "arch_fill_hardware_random C out h = ((ok, bs), h')"
  shows "length bs = length out \<and> (ok \<longrightarrow> fill_chunks C (length out) h = (Some bs, h'))
    \<and> (\<not> ok \<longrightarrow> bs = out \<or> bs = replicate (length out) 0)"
  using assms fill_chunks_length
  by (auto simp: arch_fill_hardware_random_def split: if_splits prod.splits option.splits)

end
