(* ===== verification/Console.thy ===== *)
theory Console
  imports Arch
begin

text \<open>
  \<^verbatim>\<open>platforms/bare-metal/src/console.rs\<close>: text on a framebuffer and on the serial line, and the line
  editor. The framebuffer that the boot loader hands over is the record \<open>framebuffer\<close>; its memory is
  a list of bytes, and a raw pointer access outside of that memory (or, for a pixel, not aligned) is
  undefined behaviour, the outcome \<open>None\<close>. The font is a parameter: the width and the rows of the
  glyph of a character, if it has one. Shifts take their amount modulo 32, as in a release build.
\<close>

unbundle bit_operations_syntax

section \<open>The framebuffer\<close>

definition FONT_HEIGHT :: nat where "FONT_HEIGHT = 16"
definition LINE_HEIGHT :: nat where "LINE_HEIGHT = FONT_HEIGHT + 2"

record framebuffer =
  frame_memory :: bytes
  frame_width :: u64
  frame_height :: u64
  frame_pitch :: u64
  frame_bpp :: u16
  red_mask_shift :: u8
  green_mask_shift :: u8
  blue_mask_shift :: u8

type_synonym font = "string \<Rightarrow> (nat \<times> bytes list) option"

record fb_console =
  vram :: bytes
  width :: nat
  height :: nat
  pitch :: nat
  red_shift :: u8
  green_shift :: u8
  blue_shift :: u8
  cursor_x :: nat
  cursor_y :: nat

text \<open>\<^verbatim>\<open>ptr::copy\<close>, \<^verbatim>\<open>ptr::write_bytes\<close> and \<^verbatim>\<open>ptr::write_volatile\<close> of a 32-bit value, by offset.\<close>

definition ptr_copy :: "nat \<Rightarrow> nat \<Rightarrow> nat \<Rightarrow> bytes \<Rightarrow> bytes option" where
  "ptr_copy src dst count mem = (if src + count \<le> length mem \<and> dst + count \<le> length mem
     then Some (put_slice dst (take count (drop src mem)) mem) else None)"

definition ptr_write_bytes :: "nat \<Rightarrow> u8 \<Rightarrow> nat \<Rightarrow> bytes \<Rightarrow> bytes option" where
  "ptr_write_bytes dst val count mem = (if dst + count \<le> length mem
     then Some (put_slice dst (replicate count val) mem) else None)"

definition ptr_write_u32 :: "nat \<Rightarrow> u32 \<Rightarrow> bytes \<Rightarrow> bytes option" where
  "ptr_write_u32 dst val mem = (if dst + 4 \<le> length mem \<and> 4 dvd dst
     then Some (put_slice dst (le_bytes 4 (unat val)) mem) else None)"

definition on_vram :: "fb_console \<Rightarrow> bytes option \<Rightarrow> fb_console option" where
  "on_vram fb m = map_option (\<lambda>mem. fb\<lparr>vram := mem\<rparr>) m"

definition fb_clear :: "fb_console \<Rightarrow> fb_console option" where
  "fb_clear fb = map_option (\<lambda>fb. fb\<lparr>cursor_x := 0, cursor_y := 0\<rparr>)
     (on_vram fb (ptr_write_bytes 0 0 (height fb * pitch fb) (vram fb)))"

text \<open>\<^verbatim>\<open>FramebufferConsole::new\<close>: \<open>Some None\<close> when the framebuffer is unusable. On 64-bit targets the
  conversions to \<^verbatim>\<open>usize\<close> succeed.\<close>

definition fb_new :: "framebuffer \<Rightarrow> fb_console option option" where
  "fb_new f = (if frame_bpp f \<noteq> 32 \<or> frame_width f < 80 \<or> unat (frame_height f) < LINE_HEIGHT then Some None
     else map_option Some (fb_clear \<lparr>vram = frame_memory f, width = unat (frame_width f),
       height = unat (frame_height f), pitch = unat (frame_pitch f), red_shift = red_mask_shift f,
       green_shift = green_mask_shift f, blue_shift = blue_mask_shift f, cursor_x = 0, cursor_y = 0\<rparr>))"

definition ensure_visible :: "fb_console \<Rightarrow> fb_console option" where
  "ensure_visible fb =
     (if cursor_y fb + LINE_HEIGHT \<le> height fb then Some fb
      else let bytes_to_move = (height fb - LINE_HEIGHT) * pitch fb in
        case on_vram fb (ptr_copy (LINE_HEIGHT * pitch fb) 0 bytes_to_move (vram fb)) of None \<Rightarrow> None
        | Some fb \<Rightarrow> map_option (\<lambda>fb. fb\<lparr>cursor_y := height fb - LINE_HEIGHT\<rparr>)
            (on_vram fb (ptr_write_bytes bytes_to_move 0 (LINE_HEIGHT * pitch fb) (vram fb))))"

definition shl32 :: "u32 \<Rightarrow> u8 \<Rightarrow> u32" where
  "shl32 val amount = push_bit (unat amount mod 32) val"

definition pixel_color :: "fb_console \<Rightarrow> u8 \<Rightarrow> u32" where
  "pixel_color fb intensity = (let channel = ucast intensity in
     shl32 channel (red_shift fb) OR shl32 channel (green_shift fb) OR shl32 channel (blue_shift fb))"

definition write_pixel :: "fb_console \<Rightarrow> nat \<Rightarrow> nat \<Rightarrow> u32 \<Rightarrow> fb_console option" where
  "write_pixel fb x y color = (if x \<ge> width fb \<or> y \<ge> height fb then Some fb
     else on_vram fb (ptr_write_u32 (y * pitch fb + x * 4) color (vram fb)))"

fun draw_row :: "fb_console \<Rightarrow> nat \<Rightarrow> nat \<Rightarrow> bytes \<Rightarrow> fb_console option" where
  "draw_row fb x y [] = Some fb"
| "draw_row fb x y (intensity # row) =
     (case write_pixel fb (cursor_x fb + x) (cursor_y fb + y) (pixel_color fb intensity) of None \<Rightarrow> None
      | Some fb \<Rightarrow> draw_row fb (Suc x) y row)"

fun draw_rows :: "fb_console \<Rightarrow> nat \<Rightarrow> bytes list \<Rightarrow> fb_console option" where
  "draw_rows fb y [] = Some fb"
| "draw_rows fb y (row # rows) = (case draw_row fb 0 y row of None \<Rightarrow> None
     | Some fb \<Rightarrow> draw_rows fb (Suc y) rows)"

definition next_line :: "fb_console \<Rightarrow> fb_console option" where
  "next_line fb = ensure_visible (fb\<lparr>cursor_x := 0, cursor_y := cursor_y fb + LINE_HEIGHT\<rparr>)"

text \<open>\<^verbatim>\<open>char::is_control\<close>: \<^verbatim>\<open>U+0000\<close> to \<^verbatim>\<open>U+001F\<close> and \<^verbatim>\<open>U+007F\<close> to \<^verbatim>\<open>U+009F\<close>.\<close>

fun is_control :: "string \<Rightarrow> bool" where
  "is_control [a] \<longleftrightarrow> Prelude.code a < 0x20 \<or> Prelude.code a = 0x7F"
| "is_control [a, b] \<longleftrightarrow> Prelude.code a = 0xC2 \<and> Prelude.code b < 0xA0"
| "is_control _ \<longleftrightarrow> False"

definition put_char :: "font \<Rightarrow> fb_console \<Rightarrow> string \<Rightarrow> fb_console option" where
  "put_char get_raster fb character =
     (if character = [CHR 0x0A] then next_line fb
      else if character = [CHR 0x0D] then Some (fb\<lparr>cursor_x := 0\<rparr>)
      else if character = [CHR 0x08] then Some (fb\<lparr>cursor_x := cursor_x fb - 9\<rparr>)
      else if is_control character then Some fb
      else case (case get_raster character of None \<Rightarrow> get_raster ''?'' | Some glyph \<Rightarrow> Some glyph) of
          None \<Rightarrow> Some fb
        | Some (glyph_width, raster) \<Rightarrow>
            (case (if cursor_x fb + glyph_width + 1 \<ge> width fb then next_line fb else Some fb) of None \<Rightarrow> None
             | Some fb \<Rightarrow> map_option (\<lambda>fb. fb\<lparr>cursor_x := cursor_x fb + (glyph_width + 1)\<rparr>)
                 (draw_rows fb 0 raster)))"

fun put_chars :: "font \<Rightarrow> fb_console \<Rightarrow> string list \<Rightarrow> fb_console option" where
  "put_chars get_raster fb [] = Some fb"
| "put_chars get_raster fb (c # cs) = (case put_char get_raster fb c of None \<Rightarrow> None
     | Some fb \<Rightarrow> put_chars get_raster fb cs)"

definition fb_write :: "font \<Rightarrow> fb_console \<Rightarrow> string \<Rightarrow> fb_console option" where
  "fb_write get_raster fb text = put_chars get_raster fb (chars text)"

section \<open>The console\<close>

record 'h console =
  con_hardware :: 'h
  con_arch :: arch_io
  con_framebuffer :: "fb_console option"

text \<open>\<^verbatim>\<open>Console::new\<close>; on \<^verbatim>\<open>x86_64\<close> the state of the keyboard does not depend on the addresses.\<close>

definition con_new :: "'h \<Rightarrow> framebuffer option \<Rightarrow> 'h console option" where
  "con_new h f = map_option (\<lambda>fb. \<lparr>con_hardware = h, con_arch = arch_new, con_framebuffer = fb\<rparr>)
     (case f of None \<Rightarrow> Some None | Some f \<Rightarrow> fb_new f)"

definition con_write :: "'h cpu \<Rightarrow> font \<Rightarrow> 'h console \<Rightarrow> string \<Rightarrow> 'h console option" where
  "con_write C F con text = (case write_all_bytes C (as_bytes text) (con_hardware con) of None \<Rightarrow> None
     | Some h \<Rightarrow> (case con_framebuffer con of
           None \<Rightarrow> Some (con\<lparr>con_hardware := h\<rparr>)
         | Some fb \<Rightarrow> map_option (\<lambda>fb. con\<lparr>con_hardware := h, con_framebuffer := Some fb\<rparr>) (fb_write F fb text)))"

definition con_poll_byte :: "'h cpu \<Rightarrow> 'h console \<Rightarrow> u8 option \<times> 'h console" where
  "con_poll_byte C con = (case poll_byte C (con_arch con) (con_hardware con) of
     (byte, io, h) \<Rightarrow> (byte, con\<lparr>con_arch := io, con_hardware := h\<rparr>))"

definition is_ascii_graphic :: "u8 \<Rightarrow> bool" where
  "is_ascii_graphic b \<longleftrightarrow> 0x21 \<le> b \<and> b \<le> 0x7e"

text \<open>The loop of \<^verbatim>\<open>read_line\<close>. All characters of the line are ASCII, so popping one drops a byte.\<close>

partial_function (option) read_loop ::
  "'h cpu \<Rightarrow> font \<Rightarrow> bool \<Rightarrow> string \<Rightarrow> 'h console \<Rightarrow> (string \<times> 'h console) option" where
  "read_loop C F secret line con = (case con_poll_byte C con of
       (None, con) \<Rightarrow> read_loop C F secret line con
     | (Some byte, con) \<Rightarrow>
         if byte = 13 \<or> byte = 10
         then (case con_write C F con [CHR 0x0A] of None \<Rightarrow> None | Some con \<Rightarrow> Some (line, con))
         else if byte = 8 \<or> byte = 127
         then if line \<noteq> []
           then (case con_write C F con [CHR 0x08, CHR '' '', CHR 0x08] of None \<Rightarrow> None
             | Some con \<Rightarrow> read_loop C F secret (butlast line) con)
           else read_loop C F secret line con
         else if byte = 9
         then (case con_write C F con (if secret then ''*'' else '' '') of None \<Rightarrow> None
             | Some con \<Rightarrow> read_loop C F secret (line @ '' '') con)
         else if is_ascii_graphic byte \<or> byte = byte_of CHR '' ''
         then (case con_write C F con (if secret then ''*'' else [char_of_byte byte]) of None \<Rightarrow> None
             | Some con \<Rightarrow> read_loop C F secret (line @ [char_of_byte byte]) con)
         else read_loop C F secret line con)"

definition con_read_line :: "'h cpu \<Rightarrow> font \<Rightarrow> 'h console \<Rightarrow> string \<Rightarrow> bool \<Rightarrow> (string \<times> 'h console) option" where
  "con_read_line C F con prompt secret = (case con_write C F con prompt of None \<Rightarrow> None
     | Some con \<Rightarrow> read_loop C F secret [] con)"

definition con_clear :: "'h cpu \<Rightarrow> font \<Rightarrow> 'h console \<Rightarrow> 'h console option" where
  "con_clear C F con = (case con_write C F con ([CHR 0x1B] @ ''[2J'' @ [CHR 0x1B] @ ''[H'') of None \<Rightarrow> None
     | Some con \<Rightarrow> (case con_framebuffer con of None \<Rightarrow> Some con
         | Some fb \<Rightarrow> map_option (\<lambda>fb. con\<lparr>con_framebuffer := Some fb\<rparr>) (fb_clear fb)))"

definition con_poll_cancel :: "'h cpu \<Rightarrow> 'h console \<Rightarrow> bool \<times> 'h console" where
  "con_poll_cancel C con = (case con_poll_byte C con of (byte, con) \<Rightarrow> (byte = Some 0x1b, con))"

section \<open>The framebuffer is used within its bounds\<close>

lemmas line_defs = LINE_HEIGHT_def FONT_HEIGHT_def

text \<open>The memory holds \<open>height\<close> rows of \<open>pitch\<close> bytes, a row has room for \<open>width\<close> aligned pixels, and
  the cursor's line is visible.\<close>

definition fb_fits :: "fb_console \<Rightarrow> bool" where
  "fb_fits fb \<longleftrightarrow> LINE_HEIGHT \<le> height fb \<and> 4 * width fb \<le> pitch fb \<and> 4 dvd pitch fb
     \<and> length (vram fb) = height fb * pitch fb"

definition fb_inv :: "fb_console \<Rightarrow> bool" where
  "fb_inv fb \<longleftrightarrow> fb_fits fb \<and> cursor_y fb + LINE_HEIGHT \<le> height fb"

definition same_screen :: "fb_console \<Rightarrow> fb_console \<Rightarrow> bool" where
  "same_screen fb fb' \<longleftrightarrow> width fb' = width fb \<and> height fb' = height fb \<and> pitch fb' = pitch fb
     \<and> pixel_color fb' = pixel_color fb"

lemma same_screen_refl [simp]: "same_screen fb fb"
  by (simp add: same_screen_def)

lemma same_screen_trans: "same_screen a b \<Longrightarrow> same_screen b c \<Longrightarrow> same_screen a c"
  by (simp add: same_screen_def)

lemma same_screen_update [simp]:
  "same_screen fb (fb'\<lparr>vram := m\<rparr>) = same_screen fb fb'"
  "same_screen fb (fb'\<lparr>cursor_x := x\<rparr>) = same_screen fb fb'"
  "same_screen fb (fb'\<lparr>cursor_y := y\<rparr>) = same_screen fb fb'"
  "same_screen (fb\<lparr>cursor_x := x\<rparr>) fb' = same_screen fb fb'"
  "same_screen (fb\<lparr>cursor_y := y\<rparr>) fb' = same_screen fb fb'"
  by (simp_all add: same_screen_def pixel_color_def fun_eq_iff)

lemma fb_fits_update [simp]:
  "fb_fits (fb\<lparr>cursor_x := x\<rparr>) = fb_fits fb" "fb_fits (fb\<lparr>cursor_y := y\<rparr>) = fb_fits fb"
  "length m = length (vram fb) \<Longrightarrow> fb_fits (fb\<lparr>vram := m\<rparr>) = fb_fits fb"
  by (simp_all add: fb_fits_def)

text \<open>A pixel of the screen, as it is stored.\<close>

definition pixel_at :: "fb_console \<Rightarrow> nat \<Rightarrow> nat \<Rightarrow> bytes" where
  "pixel_at fb x y = take 4 (drop (y * pitch fb + x * 4) (vram fb))"

lemma pixel_offset_bound:
  assumes "fb_fits fb" "x < width fb" "y < height fb"
  shows "y * pitch fb + x * 4 + 4 \<le> length (vram fb)"
proof -
  have "y * pitch fb + x * 4 + 4 \<le> y * pitch fb + pitch fb"
    using assms by (simp add: fb_fits_def)
  also have "\<dots> = Suc y * pitch fb" by simp
  also have "\<dots> \<le> height fb * pitch fb" using assms(3) by (intro mult_le_mono1) simp
  finally show ?thesis using assms(1) by (simp add: fb_fits_def)
qed

lemma pixel_offsets_apart:
  assumes "fb_fits fb" "x < width fb" "x' < width fb" "(x, y) \<noteq> (x', y')"
  shows "y * pitch fb + x * 4 + 4 \<le> y' * pitch fb + x' * 4 \<or> y' * pitch fb + x' * 4 + 4 \<le> y * pitch fb + x * 4"
proof -
  have step: "b * pitch fb + u * 4 + 4 \<le> c * pitch fb" if "b < c" "u < width fb" for b c u
  proof -
    have "b * pitch fb + u * 4 + 4 \<le> Suc b * pitch fb" using that assms(1) by (simp add: fb_fits_def)
    also have "\<dots> \<le> c * pitch fb" using that by (intro mult_le_mono1) simp
    finally show ?thesis .
  qed
  show ?thesis
  proof (cases "y = y'")
    case True
    then show ?thesis using assms(4) by auto
  next
    case False
    then show ?thesis using step [of y y' x] step [of y' y x'] assms(2,3) by (cases "y < y'") auto
  qed
qed

lemma take_drop_put_slice:
  assumes "dst + length d \<le> length mem"
  shows "take (length d) (drop dst (put_slice dst d mem)) = d"
    and "src + n \<le> dst \<or> dst + length d \<le> src \<Longrightarrow> take n (drop src (put_slice dst d mem)) = take n (drop src mem)"
proof -
  show "take (length d) (drop dst (put_slice dst d mem)) = d"
    using assms by (simp add: put_slice_def)
  assume "src + n \<le> dst \<or> dst + length d \<le> src"
  then show "take n (drop src (put_slice dst d mem)) = take n (drop src mem)"
  proof
    assume "src + n \<le> dst"
    moreover from this have "take n (drop src (take dst mem)) = take n (drop src mem)"
      by (simp add: drop_take min_def)
    ultimately show ?thesis using assms by (simp add: put_slice_def)
  next
    assume "dst + length d \<le> src"
    moreover from this have "src - dst - length d + (dst + length d) = src" by simp
    ultimately show ?thesis using assms by (simp add: put_slice_def min_def)
  qed
qed

lemma write_pixel_effect:
  assumes "fb_fits fb"
  obtains mem where "write_pixel fb x y c = Some (fb\<lparr>vram := mem\<rparr>)" "length mem = length (vram fb)"
    "\<And>u v. u < width fb \<Longrightarrow> v < height fb \<Longrightarrow> pixel_at (fb\<lparr>vram := mem\<rparr>) u v
       = (if (u, v) = (x, y) then le_bytes 4 (unat c) else pixel_at fb u v)"
proof (cases "x < width fb \<and> y < height fb")
  case False
  then show thesis by (intro that [of "vram fb"]) (auto simp: write_pixel_def)
next
  case True
  let ?o = "y * pitch fb + x * 4" and ?d = "le_bytes 4 (unat c)"
  have b: "?o + length ?d \<le> length (vram fb)" using pixel_offset_bound [OF assms] True by simp
  have "4 dvd ?o" using assms by (simp add: fb_fits_def dvd_add)
  then have "write_pixel fb x y c = Some (fb\<lparr>vram := put_slice ?o ?d (vram fb)\<rparr>)"
    using True b by (simp add: write_pixel_def on_vram_def ptr_write_u32_def)
  moreover have "pixel_at (fb\<lparr>vram := put_slice ?o ?d (vram fb)\<rparr>) u v
       = (if (u, v) = (x, y) then ?d else pixel_at fb u v)" if "u < width fb" "v < height fb" for u v
    using take_drop_put_slice [OF b] pixel_offsets_apart [OF assms, of x u y v] True that
    by (auto simp: pixel_at_def)
  ultimately show thesis by (intro that [of "put_slice ?o ?d (vram fb)"]) (use b in \<open>simp_all add: length_put_slice\<close>)
qed

text \<open>Drawing a row, and all rows, of a glyph.\<close>

definition glyph_pixel :: "bytes list \<Rightarrow> nat \<Rightarrow> nat \<Rightarrow> u8 option" where
  "glyph_pixel raster x y = (if y < length raster \<and> x < length (raster ! y) then Some (raster ! y ! x) else None)"

definition drawn :: "fb_console \<Rightarrow> (nat \<Rightarrow> nat \<Rightarrow> u8 option) \<Rightarrow> fb_console \<Rightarrow> bool" where
  "drawn fb picture fb' \<longleftrightarrow> (\<forall>u v. u < width fb \<longrightarrow> v < height fb \<longrightarrow> pixel_at fb' u v =
     (case picture u v of None \<Rightarrow> pixel_at fb u v | Some i \<Rightarrow> le_bytes 4 (unat (pixel_color fb i))))"

lemma draw_row_effect:
  assumes "fb_fits fb"
  shows "\<exists>mem. draw_row fb x y row = Some (fb\<lparr>vram := mem\<rparr>) \<and> length mem = length (vram fb)
    \<and> drawn fb (\<lambda>u v. if v = cursor_y fb + y \<and> cursor_x fb + x \<le> u \<and> u - (cursor_x fb + x) < length row
        then Some (row ! (u - (cursor_x fb + x))) else None) (fb\<lparr>vram := mem\<rparr>)"
  using assms
proof (induction row arbitrary: fb x)
  case Nil
  then show ?case by (intro exI [of _ "vram fb"]) (simp add: drawn_def)
next
  case (Cons i row)
  obtain mem where m: "write_pixel fb (cursor_x fb + x) (cursor_y fb + y) (pixel_color fb i) = Some (fb\<lparr>vram := mem\<rparr>)"
    "length mem = length (vram fb)"
    and p: "\<And>u v. u < width fb \<Longrightarrow> v < height fb \<Longrightarrow> pixel_at (fb\<lparr>vram := mem\<rparr>) u v
       = (if (u, v) = (cursor_x fb + x, cursor_y fb + y) then le_bytes 4 (unat (pixel_color fb i)) else pixel_at fb u v)"
    using write_pixel_effect [OF Cons.prems] by metis
  let ?fb = "fb\<lparr>vram := mem\<rparr>"
  have "fb_fits ?fb" using Cons.prems m(2) by simp
  from Cons.IH [OF this, of "Suc x"] obtain mem' where
    m': "draw_row ?fb (Suc x) y row = Some (?fb\<lparr>vram := mem'\<rparr>)" "length mem' = length mem"
    and d: "drawn ?fb (\<lambda>u v. if v = cursor_y ?fb + y \<and> cursor_x ?fb + Suc x \<le> u \<and> u - (cursor_x ?fb + Suc x) < length row
        then Some (row ! (u - (cursor_x ?fb + Suc x))) else None) (?fb\<lparr>vram := mem'\<rparr>)" by auto
  have color: "pixel_color ?fb = pixel_color fb" by (simp add: pixel_color_def fun_eq_iff)
  have "pixel_at (fb\<lparr>vram := mem'\<rparr>) u v =
     (case (if v = cursor_y fb + y \<and> cursor_x fb + x \<le> u \<and> u - (cursor_x fb + x) < length (i # row)
        then Some ((i # row) ! (u - (cursor_x fb + x))) else None) of
      None \<Rightarrow> pixel_at fb u v | Some j \<Rightarrow> le_bytes 4 (unat (pixel_color fb j)))"
    if uv: "u < width fb" "v < height fb" for u v
  proof (cases "u = cursor_x fb + x")
    case True
    then show ?thesis using d p [OF uv] uv by (simp add: drawn_def color)
  next
    case False
    then have "u - (cursor_x fb + x) = Suc (u - (cursor_x fb + Suc x))" if "cursor_x fb + x \<le> u" using that by simp
    with False show ?thesis using d p [OF uv] uv by (cases "cursor_x fb + x \<le> u") (simp_all add: drawn_def color)
  qed
  then have "drawn fb (\<lambda>u v. if v = cursor_y fb + y \<and> cursor_x fb + x \<le> u \<and> u - (cursor_x fb + x) < length (i # row)
        then Some ((i # row) ! (u - (cursor_x fb + x))) else None) (fb\<lparr>vram := mem'\<rparr>)"
    unfolding drawn_def by blast
  then show ?case using m m' by (intro exI [of _ mem']) simp
qed

lemma draw_rows_effect:
  assumes "fb_fits fb"
  shows "\<exists>mem. draw_rows fb y raster = Some (fb\<lparr>vram := mem\<rparr>) \<and> length mem = length (vram fb)
    \<and> drawn fb (\<lambda>u v. if cursor_y fb + y \<le> v \<and> cursor_x fb \<le> u
        then glyph_pixel raster (u - cursor_x fb) (v - (cursor_y fb + y)) else None) (fb\<lparr>vram := mem\<rparr>)"
  using assms
proof (induction raster arbitrary: fb y)
  case Nil
  then show ?case by (intro exI [of _ "vram fb"]) (simp add: drawn_def glyph_pixel_def)
next
  case (Cons row rows)
  obtain mem where m: "draw_row fb 0 y row = Some (fb\<lparr>vram := mem\<rparr>)" "length mem = length (vram fb)"
    and p: "drawn fb (\<lambda>u v. if v = cursor_y fb + y \<and> cursor_x fb + 0 \<le> u \<and> u - (cursor_x fb + 0) < length row
        then Some (row ! (u - (cursor_x fb + 0))) else None) (fb\<lparr>vram := mem\<rparr>)"
    using draw_row_effect [OF Cons.prems, of 0 y row] by blast
  let ?fb = "fb\<lparr>vram := mem\<rparr>"
  have "fb_fits ?fb" using Cons.prems m(2) by simp
  from Cons.IH [OF this, of "Suc y"] obtain mem' where
    m': "draw_rows ?fb (Suc y) rows = Some (?fb\<lparr>vram := mem'\<rparr>)" "length mem' = length (vram ?fb)"
    and d: "drawn ?fb (\<lambda>u v. if cursor_y ?fb + Suc y \<le> v \<and> cursor_x ?fb \<le> u
        then glyph_pixel rows (u - cursor_x ?fb) (v - (cursor_y ?fb + Suc y)) else None) (?fb\<lparr>vram := mem'\<rparr>)"
    by blast
  have color: "pixel_color ?fb = pixel_color fb" by (simp add: pixel_color_def fun_eq_iff)
  have "pixel_at (fb\<lparr>vram := mem'\<rparr>) u v =
     (case (if cursor_y fb + y \<le> v \<and> cursor_x fb \<le> u
        then glyph_pixel (row # rows) (u - cursor_x fb) (v - (cursor_y fb + y)) else None) of
      None \<Rightarrow> pixel_at fb u v | Some j \<Rightarrow> le_bytes 4 (unat (pixel_color fb j)))"
    if uv: "u < width fb" "v < height fb" for u v
  proof (cases "v \<le> cursor_y fb + y")
    case True
    then show ?thesis using d p uv by (auto simp: drawn_def color glyph_pixel_def)
  next
    case False
    then have "v - (cursor_y fb + y) = Suc (v - (cursor_y fb + Suc y))" by simp
    with False show ?thesis using d p uv by (simp add: drawn_def color glyph_pixel_def)
  qed
  then have "drawn fb (\<lambda>u v. if cursor_y fb + y \<le> v \<and> cursor_x fb \<le> u
        then glyph_pixel (row # rows) (u - cursor_x fb) (v - (cursor_y fb + y)) else None) (fb\<lparr>vram := mem'\<rparr>)"
    unfolding drawn_def by blast
  then show ?case using m m' by (intro exI [of _ mem']) simp
qed

text \<open>Scrolling moves every row of pixels up by one line of text and blanks the last line.\<close>

lemma ensure_visible_effect:
  assumes "fb_fits fb"
  shows "\<exists>fb'. ensure_visible fb = Some fb' \<and> fb_inv fb' \<and> same_screen fb fb' \<and> cursor_x fb' = cursor_x fb
    \<and> (cursor_y fb + LINE_HEIGHT \<le> height fb \<longrightarrow> fb' = fb)
    \<and> (\<not> cursor_y fb + LINE_HEIGHT \<le> height fb \<longrightarrow> cursor_y fb' = height fb - LINE_HEIGHT
        \<and> vram fb' = drop (LINE_HEIGHT * pitch fb) (vram fb) @ replicate (LINE_HEIGHT * pitch fb) 0)"
proof (cases "cursor_y fb + LINE_HEIGHT \<le> height fb")
  case True
  then show ?thesis using assms by (simp add: ensure_visible_def fb_inv_def)
next
  case False
  let ?n = "(height fb - LINE_HEIGHT) * pitch fb" and ?l = "LINE_HEIGHT * pitch fb"
  have len: "length (vram fb) = ?n + ?l"
    using assms by (simp add: fb_fits_def diff_mult_distrib)
  let ?m = "put_slice 0 (take ?n (drop ?l (vram fb))) (vram fb)"
  have m: "?m = drop ?l (vram fb) @ drop ?n (vram fb)" using len by (simp add: put_slice_def min_def)
  have "put_slice ?n (replicate ?l 0) ?m = drop ?l (vram fb) @ replicate ?l 0"
    using len by (simp add: m put_slice_def)
  moreover have "length ?m = length (vram fb)" unfolding m using len by simp
  ultimately have "ensure_visible fb = Some (fb\<lparr>vram := drop ?l (vram fb) @ replicate ?l 0, cursor_y := height fb - LINE_HEIGHT\<rparr>)"
    using False len by (simp add: ensure_visible_def Let_def on_vram_def ptr_copy_def ptr_write_bytes_def)
  moreover have "length (drop ?l (vram fb) @ replicate ?l 0) = length (vram fb)" using len by simp
  ultimately show ?thesis using assms False by (simp add: fb_inv_def) (simp add: fb_fits_def)
qed

lemma next_line_effect:
  assumes "fb_fits fb"
  shows "\<exists>fb'. next_line fb = Some fb' \<and> fb_inv fb' \<and> same_screen fb fb' \<and> cursor_x fb' = 0"
  using ensure_visible_effect [of "fb\<lparr>cursor_x := 0, cursor_y := cursor_y fb + LINE_HEIGHT\<rparr>"] assms
  by (auto simp: next_line_def)

lemma put_char_safe:
  assumes "fb_inv fb"
  shows "\<exists>fb'. put_char F fb c = Some fb' \<and> fb_inv fb' \<and> same_screen fb fb'"
proof -
  have fits: "fb_fits fb" using assms by (simp add: fb_inv_def)
  have plain: "fb_inv (fb\<lparr>cursor_x := x\<rparr>)" for x using assms by (simp add: fb_inv_def)
  have glyph: "\<exists>fb'. (case (if cursor_x fb + w + 1 \<ge> width fb then next_line fb else Some fb) of None \<Rightarrow> None
             | Some fb \<Rightarrow> map_option (\<lambda>fb. fb\<lparr>cursor_x := cursor_x fb + (w + 1)\<rparr>) (draw_rows fb 0 raster)) = Some fb'
      \<and> fb_inv fb' \<and> same_screen fb fb'" for w raster
  proof -
    obtain g where g: "(if cursor_x fb + w + 1 \<ge> width fb then next_line fb else Some fb) = Some g"
      "fb_inv g" "same_screen fb g"
      using next_line_effect [OF fits] assms by (cases "cursor_x fb + w + 1 \<ge> width fb") auto
    then obtain mem where "draw_rows g 0 raster = Some (g\<lparr>vram := mem\<rparr>)" "length mem = length (vram g)"
      using draw_rows_effect [of g 0 raster] by (auto simp: fb_inv_def)
    then show ?thesis using g by (simp add: fb_inv_def)
  qed
  show ?thesis
    using next_line_effect [OF fits] plain assms glyph
    by (auto simp: put_char_def split: option.split)
qed

lemma put_chars_safe:
  assumes "fb_inv fb"
  shows "\<exists>fb'. put_chars F fb cs = Some fb' \<and> fb_inv fb' \<and> same_screen fb fb'"
  using assms
proof (induction cs arbitrary: fb)
  case (Cons c cs)
  then show ?case
    using put_char_safe [OF Cons.prems, of F c] same_screen_trans by fastforce
qed simp

section \<open>Properties of the screen\<close>

text \<open>C20: the framebuffer console never touches memory outside of the framebuffer. Setting it up on
  a framebuffer of \<open>height\<close> rows of \<open>pitch\<close> bytes, each with room for \<open>width\<close> aligned pixels, succeeds or
  leaves the framebuffer alone; from then on any text and any clearing is carried out, whatever the
  font, and the cursor's line stays on the screen.\<close>

theorem framebuffer_memory_safe:
  "(length (frame_memory f) = unat (frame_height f) * unat (frame_pitch f)
      \<and> 4 * unat (frame_width f) \<le> unat (frame_pitch f) \<and> 4 dvd unat (frame_pitch f)
      \<longrightarrow> (\<exists>r. fb_new f = Some r \<and> (\<forall>fb. r = Some fb \<longrightarrow> fb_inv fb)))
   \<and> (fb_inv fb \<longrightarrow> (\<exists>fb'. fb_write F fb text = Some fb' \<and> fb_inv fb' \<and> same_screen fb fb')
      \<and> (\<exists>fb'. fb_clear fb = Some fb' \<and> fb_inv fb' \<and> same_screen fb fb'))"
proof -
  have clear: "\<exists>c'. fb_clear c = Some c' \<and> fb_inv c' \<and> same_screen c c'" if "fb_fits c" for c
  proof -
    have "fb_clear c = Some (c\<lparr>vram := replicate (height c * pitch c) 0, cursor_x := 0, cursor_y := 0\<rparr>)"
      using that by (simp add: fb_clear_def on_vram_def ptr_write_bytes_def put_slice_def fb_fits_def)
    then show ?thesis using that by (simp add: fb_inv_def fb_fits_def)
  qed
  have new: "\<exists>r. fb_new f = Some r \<and> (\<forall>fb. r = Some fb \<longrightarrow> fb_inv fb)"
    if "length (frame_memory f) = unat (frame_height f) * unat (frame_pitch f)"
      "4 * unat (frame_width f) \<le> unat (frame_pitch f)" "4 dvd unat (frame_pitch f)"
  proof (cases "unat (frame_height f) < LINE_HEIGHT")
    case True
    then show ?thesis by (simp add: fb_new_def)
  next
    case False
    let ?c = "\<lparr>vram = frame_memory f, width = unat (frame_width f),
       height = unat (frame_height f), pitch = unat (frame_pitch f), red_shift = red_mask_shift f,
       green_shift = green_mask_shift f, blue_shift = blue_mask_shift f, cursor_x = 0, cursor_y = 0\<rparr>"
    have "fb_fits ?c" using that False by (simp add: fb_fits_def)
    from clear [OF this] show ?thesis by (auto simp: fb_new_def)
  qed
  show ?thesis using new clear put_chars_safe by (auto simp: fb_write_def fb_inv_def)
qed

definition demo_frame :: framebuffer where
  "demo_frame = \<lparr>frame_memory = replicate 5760 9, frame_width = 80, frame_height = 18, frame_pitch = 320,
     frame_bpp = 32, red_mask_shift = 16, green_mask_shift = 8, blue_mask_shift = 0\<rparr>"

definition demo_font :: font where
  "demo_font = (\<lambda>_. Some (1, [[255]]))"

theorem framebuffer_memory_safe_witness:
  "\<exists>fb fb'. fb_new demo_frame = Some (Some fb) \<and> fb_write demo_font fb (''hi'' @ [CHR 0x0A]) = Some fb' \<and> fb_inv fb'"
proof -
  have "length (frame_memory demo_frame) = unat (frame_height demo_frame) * unat (frame_pitch demo_frame)
      \<and> 4 * unat (frame_width demo_frame) \<le> unat (frame_pitch demo_frame) \<and> 4 dvd unat (frame_pitch demo_frame)"
    by (simp add: demo_frame_def)
  from framebuffer_memory_safe [THEN conjunct1, rule_format, OF this] obtain r
    where r: "fb_new demo_frame = Some r" "\<And>fb. r = Some fb \<Longrightarrow> fb_inv fb" by blast
  moreover have "fb_new demo_frame \<noteq> Some None"
    by (simp add: fb_new_def demo_frame_def line_defs word_less_def)
  ultimately obtain fb where "fb_new demo_frame = Some (Some fb)" "fb_inv fb" by (cases r) auto
  with framebuffer_memory_safe [of demo_frame fb demo_font] show ?thesis by blast
qed

text \<open>C21: what is on the screen. A glyph that fits on the line appears at the cursor, every other
  pixel keeps its colour, and the cursor advances by the width of the glyph and one pixel. A new line
  on the last line moves every row of pixels up by one line of text and blanks the last one.\<close>

theorem screen_contents:
  assumes "fb_inv fb"
  shows "(F c = Some (w, raster) \<and> \<not> is_control c \<and> cursor_x fb + w + 1 < width fb \<longrightarrow>
      (\<exists>fb'. put_char F fb c = Some fb' \<and> cursor_x fb' = cursor_x fb + w + 1 \<and> cursor_y fb' = cursor_y fb
        \<and> drawn fb (\<lambda>u v. if cursor_y fb \<le> v \<and> cursor_x fb \<le> u
            then glyph_pixel raster (u - cursor_x fb) (v - cursor_y fb) else None) fb'))
    \<and> (\<exists>fb'. put_char F fb [CHR 0x0A] = Some fb' \<and> cursor_x fb' = 0
        \<and> (if cursor_y fb + 2 * LINE_HEIGHT \<le> height fb
           then cursor_y fb' = cursor_y fb + LINE_HEIGHT \<and> vram fb' = vram fb
           else cursor_y fb' = height fb - LINE_HEIGHT
             \<and> vram fb' = drop (LINE_HEIGHT * pitch fb) (vram fb) @ replicate (LINE_HEIGHT * pitch fb) 0))"
proof (intro conjI impI)
  assume a: "F c = Some (w, raster) \<and> \<not> is_control c \<and> cursor_x fb + w + 1 < width fb"
  have fits: "fb_fits fb" using assms by (simp add: fb_inv_def)
  from draw_rows_effect [OF this, of 0 raster] obtain mem where
    m: "draw_rows fb 0 raster = Some (fb\<lparr>vram := mem\<rparr>)" "length mem = length (vram fb)"
    and d: "drawn fb (\<lambda>u v. if cursor_y fb + 0 \<le> v \<and> cursor_x fb \<le> u
        then glyph_pixel raster (u - cursor_x fb) (v - (cursor_y fb + 0)) else None) (fb\<lparr>vram := mem\<rparr>)"
    by blast
  have "c \<noteq> [CHR 0x0A]" "c \<noteq> [CHR 0x0D]" "c \<noteq> [CHR 0x08]" using a by (auto simp: code_def)
  then have "put_char F fb c = Some (fb\<lparr>vram := mem, cursor_x := cursor_x fb + (w + 1)\<rparr>)"
    using a m by (simp add: put_char_def)
  moreover have "pixel_at (g\<lparr>cursor_x := x\<rparr>) = pixel_at g" for g x by (simp add: pixel_at_def fun_eq_iff)
  then have "drawn fb p (fb\<lparr>vram := mem, cursor_x := x\<rparr>) = drawn fb p (fb\<lparr>vram := mem\<rparr>)" for p x
    by (simp add: drawn_def)
  ultimately show "\<exists>fb'. put_char F fb c = Some fb' \<and> cursor_x fb' = cursor_x fb + w + 1 \<and> cursor_y fb' = cursor_y fb
        \<and> drawn fb (\<lambda>u v. if cursor_y fb \<le> v \<and> cursor_x fb \<le> u
            then glyph_pixel raster (u - cursor_x fb) (v - cursor_y fb) else None) fb'"
    using d [unfolded add_0_right] by (intro exI [of _ "fb\<lparr>vram := mem, cursor_x := cursor_x fb + (w + 1)\<rparr>"]) simp
next
  show "\<exists>fb'. put_char F fb [CHR 0x0A] = Some fb' \<and> cursor_x fb' = 0
        \<and> (if cursor_y fb + 2 * LINE_HEIGHT \<le> height fb
           then cursor_y fb' = cursor_y fb + LINE_HEIGHT \<and> vram fb' = vram fb
           else cursor_y fb' = height fb - LINE_HEIGHT
             \<and> vram fb' = drop (LINE_HEIGHT * pitch fb) (vram fb) @ replicate (LINE_HEIGHT * pitch fb) 0)"
    using ensure_visible_effect [of "fb\<lparr>cursor_x := 0, cursor_y := cursor_y fb + LINE_HEIGHT\<rparr>"] assms
    by (auto simp: put_char_def next_line_def fb_inv_def)
qed

lemma le_bytes_4: "le_bytes 4 n = [word_of_nat (n mod 256), word_of_nat (n div 256 mod 256),
    word_of_nat (n div 256 div 256 mod 256), word_of_nat (n div 256 div 256 div 256 mod 256)]"
proof -
  have "(4 :: nat) = Suc (Suc (Suc (Suc 0)))" by simp
  then show ?thesis by (simp only: le_bytes.simps)
qed

theorem screen_contents_witness:
  "\<exists>fb fb'. fb_new demo_frame = Some (Some fb) \<and> put_char demo_font fb ''x'' = Some fb'
     \<and> pixel_at fb' 0 0 = [255, 255, 255, 0] \<and> pixel_at fb' 1 0 = pixel_at fb 1 0"
proof -
  let ?fb = "\<lparr>vram = replicate 5760 0, width = 80, height = 18, pitch = 320, red_shift = 16, green_shift = 8,
    blue_shift = 0, cursor_x = 0, cursor_y = 0\<rparr>"
  have new: "fb_new demo_frame = Some (Some ?fb)"
    by (simp add: fb_new_def demo_frame_def line_defs word_less_def fb_clear_def on_vram_def ptr_write_bytes_def put_slice_def)
  have inv: "fb_inv ?fb" by (simp add: fb_inv_def fb_fits_def line_defs)
  have glyph: "demo_font ''x'' = Some (1, [[255]]) \<and> \<not> is_control ''x'' \<and> cursor_x ?fb + 1 + 1 < width ?fb"
    by (simp add: demo_font_def code_def)
  obtain fb' where "put_char demo_font ?fb ''x'' = Some fb'"
    and d: "drawn ?fb (\<lambda>u v. if cursor_y ?fb \<le> v \<and> cursor_x ?fb \<le> u
            then glyph_pixel [[255]] (u - cursor_x ?fb) (v - cursor_y ?fb) else None) fb'"
    using screen_contents [OF inv, of demo_font "''x''" 1 "[[255]]", THEN conjunct1, rule_format, OF glyph] by blast
  moreover have "pixel_color ?fb 255 = 0xffffff"
    by (simp add: pixel_color_def shl32_def push_bit_eq_mult)
  moreover have "le_bytes 4 (unat (0xffffff :: u32)) = [255, 255, 255, 0]" by (simp add: le_bytes_4)
  ultimately have "pixel_at fb' 0 0 = [255, 255, 255, 0]" "pixel_at fb' 1 0 = pixel_at ?fb 1 0"
    "put_char demo_font ?fb ''x'' = Some fb'"
    using d by (simp_all add: drawn_def glyph_pixel_def)
  then show ?thesis using new by blast
qed

section \<open>Editing a line\<close>

text \<open>What the console sees during a call: polls of the input, with or without a byte, and texts that
  are written. \<open>performs\<close> replays such a sequence.\<close>

datatype event = Polled "u8 option" | Wrote string

fun performs :: "'h cpu \<Rightarrow> font \<Rightarrow> event list \<Rightarrow> 'h console \<Rightarrow> 'h console option" where
  "performs C F [] con = Some con"
| "performs C F (Polled b # es) con = (case con_poll_byte C con of (b', con) \<Rightarrow>
     if b' = b then performs C F es con else None)"
| "performs C F (Wrote text # es) con = (case con_write C F con text of None \<Rightarrow> None
     | Some con \<Rightarrow> performs C F es con)"

text \<open>The editor as a pure function: what a key does to the line, and what is echoed.\<close>

datatype key = Enter | Erase | Insert char | Nothing

definition key_of :: "u8 \<Rightarrow> key" where
  "key_of b = (if b = 13 \<or> b = 10 then Enter else if b = 8 \<or> b = 127 then Erase
     else if b = 9 then Insert CHR '' '' else if printable b then Insert (char_of_byte b) else Nothing)"

fun edit :: "key \<Rightarrow> string \<Rightarrow> string" where
  "edit Erase line = butlast line"
| "edit (Insert c) line = line @ [c]"
| "edit _ line = line"

fun echo :: "bool \<Rightarrow> key \<Rightarrow> string \<Rightarrow> event list" where
  "echo secret Erase line = (if line = [] then [] else [Wrote [CHR 0x08, CHR '' '', CHR 0x08]])"
| "echo secret (Insert c) line = [Wrote (if secret then ''*'' else [c])]"
| "echo secret _ line = []"

fun editing :: "bool \<Rightarrow> string \<Rightarrow> u8 option list \<Rightarrow> event list" where
  "editing secret line [] = []"
| "editing secret line (None # bs) = Polled None # editing secret line bs"
| "editing secret line (Some b # bs) =
     Polled (Some b) # echo secret (key_of b) line @ editing secret (edit (key_of b) line) bs"

fun edited :: "string \<Rightarrow> u8 option list \<Rightarrow> string" where
  "edited line [] = line"
| "edited line (None # bs) = edited line bs"
| "edited line (Some b # bs) = edited (edit (key_of b) line) bs"

definition no_enter :: "u8 option list \<Rightarrow> bool" where
  "no_enter bs \<longleftrightarrow> list_all (\<lambda>b. case b of None \<Rightarrow> True | Some b \<Rightarrow> key_of b \<noteq> Enter) bs"

text \<open>One step of the loop in these terms.\<close>

lemma printable_graphic: "is_ascii_graphic b \<or> b = byte_of CHR '' '' \<longleftrightarrow> printable b"
proof -
  have "byte_of CHR '' '' = 0x20" by (simp add: byte_of_def code_def)
  moreover have "0x21 \<le> b \<or> b = 0x20 \<longleftrightarrow> 0x20 \<le> b"
    by (simp add: word_le_def word_uint_eq_iff) linarith
  moreover have "0x20 \<le> (0x7e :: u8)" by simp
  ultimately show ?thesis by (auto simp: is_ascii_graphic_def printable_def)
qed

lemma read_body:
  "(case con_poll_byte C con of
       (None, con) \<Rightarrow> loop line con
     | (Some byte, con) \<Rightarrow>
         if byte = 13 \<or> byte = 10
         then (case con_write C F con [CHR 0x0A] of None \<Rightarrow> None | Some con \<Rightarrow> Some (line, con))
         else if byte = 8 \<or> byte = 127
         then if line \<noteq> []
           then (case con_write C F con [CHR 0x08, CHR '' '', CHR 0x08] of None \<Rightarrow> None
             | Some con \<Rightarrow> loop (butlast line) con)
           else loop line con
         else if byte = 9
         then (case con_write C F con (if secret then ''*'' else '' '') of None \<Rightarrow> None
             | Some con \<Rightarrow> loop (line @ '' '') con)
         else if is_ascii_graphic byte \<or> byte = byte_of CHR '' ''
         then (case con_write C F con (if secret then ''*'' else [char_of_byte byte]) of None \<Rightarrow> None
             | Some con \<Rightarrow> loop (line @ [char_of_byte byte]) con)
         else loop line con)
   = (case con_poll_byte C con of
       (None, con) \<Rightarrow> loop line con
     | (Some b, con) \<Rightarrow>
         if key_of b = Enter
         then (case con_write C F con [CHR 0x0A] of None \<Rightarrow> None | Some con \<Rightarrow> Some (line, con))
         else (case performs C F (echo secret (key_of b) line) con of None \<Rightarrow> None
           | Some con \<Rightarrow> loop (edit (key_of b) line) con))"
proof -
  obtain p g where p: "con_poll_byte C con = (p, g)" by (cases "con_poll_byte C con")
  show ?thesis
  proof (cases p)
    case (Some b)
    consider "b = 13 \<or> b = 10" | "b = 8 \<or> b = 127" | "b = 9" | "b \<notin> {13, 10, 8, 127, 9}" by blast
    then show ?thesis
      by cases (auto simp: p Some key_of_def printable_graphic printable_def split: option.split)
  qed (simp add: p)
qed

lemma read_loop_step:
  "read_loop C F secret line con = (case con_poll_byte C con of
       (None, con) \<Rightarrow> read_loop C F secret line con
     | (Some b, con) \<Rightarrow>
         if key_of b = Enter
         then (case con_write C F con [CHR 0x0A] of None \<Rightarrow> None | Some con \<Rightarrow> Some (line, con))
         else (case performs C F (echo secret (key_of b) line) con of None \<Rightarrow> None
           | Some con \<Rightarrow> read_loop C F secret (edit (key_of b) line) con))"
  by (subst read_loop.simps) (rule read_body)

lemma performs_append:
  "performs C F (es @ es') con = (case performs C F es con of None \<Rightarrow> None | Some con \<Rightarrow> performs C F es' con)"
  by (induction C F es con rule: performs.induct) (auto split: option.split prod.split)

lemma read_loop_returns:
  assumes "performs C F (editing secret line bs @ [Polled (Some b), Wrote [CHR 0x0A]]) con = Some con'"
    and "no_enter bs" "key_of b = Enter"
  shows "read_loop C F secret line con = Some (edited line bs, con')"
  using assms
proof (induction secret line bs arbitrary: con rule: editing.induct)
  case (1 secret line)
  then show ?case by (subst read_loop_step) (auto split: prod.splits option.splits if_splits)
next
  case (2 secret line bs)
  then show ?case by (subst read_loop_step) (auto simp: no_enter_def split: prod.splits if_splits)
next
  case (3 secret line k bs)
  then show ?case
    by (subst read_loop_step) (auto simp: no_enter_def performs_append split: prod.splits if_splits option.splits)
qed

lemma read_loop_traced:
  assumes "read_loop C F secret line con = Some (r, con')"
  shows "\<exists>bs b. performs C F (editing secret line bs @ [Polled (Some b), Wrote [CHR 0x0A]]) con = Some con'
    \<and> no_enter bs \<and> key_of b = Enter \<and> r = edited line bs"
proof -
  let ?goal = "\<lambda>C F secret line con y. \<exists>bs b.
      performs C F (editing secret line bs @ [Polled (Some b), Wrote [CHR 0x0A]]) con = Some (snd y)
      \<and> no_enter bs \<and> key_of b = Enter \<and> fst y = edited line bs"
  have "?goal C F secret line con (r, con')"
  proof (rule read_loop.raw_induct [OF _ assms, of ?goal], goal_cases)
    case (1 loop C F secret line con y)
    note IH = 1(1) and body = trans [OF read_body [symmetric, where loop = "loop C F secret"] 1(2)]
    obtain p g where p: "con_poll_byte C con = (p, g)" by (cases "con_poll_byte C con")
    show ?case
    proof (cases p)
      case None
      with body p have "loop C F secret line g = Some y" by simp
      from IH [OF this] obtain bs b where "performs C F (editing secret line bs @ [Polled (Some b), Wrote [CHR 0x0A]]) g = Some (snd y)"
        "no_enter bs" "key_of b = Enter" "fst y = edited line bs" by auto
      then show ?thesis using p None by (intro exI [of _ "None # bs"] exI [of _ b]) (simp add: no_enter_def)
    next
      case (Some k)
      show ?thesis
      proof (cases "key_of k = Enter")
        case True
        then show ?thesis using body p Some
          by (intro exI [of _ "[]"] exI [of _ k]) (auto simp: no_enter_def split: option.splits)
      next
        case False
        with body p Some obtain g' where e: "performs C F (echo secret (key_of k) line) g = Some g'"
          "loop C F secret (edit (key_of k) line) g' = Some y" by (auto split: option.splits)
        from IH [OF e(2)] obtain bs b where
          "performs C F (editing secret (edit (key_of k) line) bs @ [Polled (Some b), Wrote [CHR 0x0A]]) g' = Some (snd y)"
          "no_enter bs" "key_of b = Enter" "fst y = edited (edit (key_of k) line) bs" by auto
        then show ?thesis using p Some e(1) False
          by (intro exI [of _ "Some k # bs"] exI [of _ b]) (simp add: no_enter_def performs_append)
      qed
    qed
  qed
  then show ?thesis by simp
qed

lemma edited_printable:
  "list_all (\<lambda>c. printable (byte_of c)) line \<Longrightarrow> list_all (\<lambda>c. printable (byte_of c)) (edited line bs)"
proof (induction line bs rule: edited.induct)
  case (3 line b bs)
  have "printable (byte_of CHR '' '')" by (simp add: printable_def byte_of_def code_def)
  then have "list_all (\<lambda>c. printable (byte_of c)) (edit (key_of b) line)"
    using 3(2) by (auto simp: key_of_def list_all_iff dest: in_set_butlastD)
  with 3 show ?case by simp
qed simp_all

lemma printable_ascii: "printable (byte_of c) \<Longrightarrow> code c < 0x80"
proof -
  have "uint (byte_of c) = int (code c)"
    using code_less [of c] by (simp add: byte_of_def uint_nat unat_of_nat del: code_less)
  then show "printable (byte_of c) \<Longrightarrow> code c < 0x80"
    by (simp add: printable_def word_le_def)
qed

lemma read_loop_iff:
  "read_loop C F secret line con = Some (r, con') \<longleftrightarrow>
     (\<exists>bs b. performs C F (editing secret line bs @ [Polled (Some b), Wrote [CHR 0x0A]]) con = Some con'
       \<and> no_enter bs \<and> key_of b = Enter \<and> r = edited line bs)"
proof
  assume "\<exists>bs b. performs C F (editing secret line bs @ [Polled (Some b), Wrote [CHR 0x0A]]) con = Some con'
       \<and> no_enter bs \<and> key_of b = Enter \<and> r = edited line bs"
  then show "read_loop C F secret line con = Some (r, con')" using read_loop_returns by blast
qed (rule read_loop_traced)

text \<open>C22: reading a line returns exactly when the prompt can be written and, after some polls and
  keys other than Enter whose echoes are written, Enter arrives. The line is then the result of
  editing with these keys: printable characters are appended, a tab counts as a space, backspace
  takes one away, anything else is ignored. It is printable ASCII and therefore valid text.\<close>

theorem read_line_iff:
  "(con_read_line C F con prompt secret = Some (line, con') \<longleftrightarrow>
      (\<exists>bs b. performs C F (Wrote prompt # editing secret [] bs @ [Polled (Some b), Wrote [CHR 0x0A]]) con = Some con'
        \<and> no_enter bs \<and> key_of b = Enter \<and> line = edited [] bs))
   \<and> (con_read_line C F con prompt secret = Some (line, con') \<longrightarrow>
        list_all (\<lambda>c. printable (byte_of c)) line \<and> valid_utf8 line)"
proof (rule conjI)
  show iff: "con_read_line C F con prompt secret = Some (line, con') \<longleftrightarrow>
      (\<exists>bs b. performs C F (Wrote prompt # editing secret [] bs @ [Polled (Some b), Wrote [CHR 0x0A]]) con = Some con'
        \<and> no_enter bs \<and> key_of b = Enter \<and> line = edited [] bs)"
    by (cases "con_write C F con prompt") (simp_all add: con_read_line_def read_loop_iff)
  have "valid_utf8 l" if "list_all (\<lambda>c. printable (byte_of c)) l" for l
    using that printable_ascii by (intro valid_utf8_ascii) (auto simp: list_all_iff)
  then show "con_read_line C F con prompt secret = Some (line, con') \<longrightarrow>
        list_all (\<lambda>c. printable (byte_of c)) line \<and> valid_utf8 line"
    using iff edited_printable [of "[]"] by auto
qed

definition demo_console :: "u8 list \<Rightarrow> u8 list console" where
  "demo_console keys = \<lparr>con_hardware = keys, con_arch = arch_new, con_framebuffer = None\<rparr>"

text \<open>Shift, h, release, i, x, backspace, Enter.\<close>

definition demo_scan_codes :: "u8 list" where
  "demo_scan_codes = [0x2a, 0x23, 0xaa, 0x17, 0x2d, 0x0e, 0x1c]"

definition demo_bytes :: "u8 option list" where
  "demo_bytes = [None, Some 72, None, Some 105, Some 120, Some 8]"

lemma demo_write: "con_write demo_cpu F (demo_console keys\<lparr>con_arch := io\<rparr>) text = Some (demo_console keys\<lparr>con_arch := io\<rparr>)"
proof -
  have "write_byte demo_cpu b h = Some h" for b h
    by (subst write_byte.simps) (simp add: inb_def outb_def demo_cpu_def)
  then have "write_all_bytes demo_cpu bs h = Some h" for bs h by (induction bs) simp_all
  then show ?thesis by (simp add: con_write_def demo_console_def)
qed

lemma demo_poll:
  "con_poll_byte demo_cpu (demo_console (k # ks)\<lparr>con_arch := io\<rparr>)
     = (case keyboard_read demo_cpu io (k # ks) of (b, io, h) \<Rightarrow> (b, demo_console h\<lparr>con_arch := io\<rparr>))"
  by (simp add: con_poll_byte_def poll_byte_def serial_read_def inb_def demo_cpu_def demo_console_def split: prod.split)

lemma demo_keys:
  "keyboard_read demo_cpu \<lparr>shift = s, caps_lock = False\<rparr> (0x2a # ks) = (None, \<lparr>shift = True, caps_lock = False\<rparr>, ks)"
  "keyboard_read demo_cpu \<lparr>shift = s, caps_lock = False\<rparr> (0xaa # ks) = (None, \<lparr>shift = False, caps_lock = False\<rparr>, ks)"
  "keyboard_read demo_cpu \<lparr>shift = True, caps_lock = False\<rparr> (0x23 # ks) = (Some 72, \<lparr>shift = True, caps_lock = False\<rparr>, ks)"
  "keyboard_read demo_cpu \<lparr>shift = False, caps_lock = False\<rparr> (0x17 # ks) = (Some 105, \<lparr>shift = False, caps_lock = False\<rparr>, ks)"
  "keyboard_read demo_cpu \<lparr>shift = False, caps_lock = False\<rparr> (0x2d # ks) = (Some 120, \<lparr>shift = False, caps_lock = False\<rparr>, ks)"
  "keyboard_read demo_cpu \<lparr>shift = False, caps_lock = False\<rparr> (0x0e # ks) = (Some 8, \<lparr>shift = False, caps_lock = False\<rparr>, ks)"
  "keyboard_read demo_cpu \<lparr>shift = False, caps_lock = False\<rparr> (0x1c # ks) = (Some 10, \<lparr>shift = False, caps_lock = False\<rparr>, ks)"
  by (simp_all add: keyboard_read_def inb_def demo_cpu_def map_scan_code_def letter_keys_def other_keys_def
      byte_of_def code_def to_ascii_uppercase_def)

lemma demo_typing:
  "performs demo_cpu F (Wrote prompt # editing secret [] demo_bytes @ [Polled (Some 10), Wrote [CHR 0x0A]])
     (demo_console demo_scan_codes) = Some (demo_console [])"
proof -
  let ?io = "\<lambda>s. \<lparr>shift = s, caps_lock = False\<rparr>"
  have start: "demo_console ks = demo_console ks\<lparr>con_arch := ?io False\<rparr>" for ks
    by (simp add: demo_console_def arch_new_def)
  have keys: "key_of 72 = Insert CHR ''H''" "key_of 105 = Insert CHR ''i''" "key_of 120 = Insert CHR ''x''" "key_of 8 = Erase"
    by code_simp+
  have "performs demo_cpu F (Wrote prompt # editing secret [] demo_bytes @ [Polled (Some 10), Wrote [CHR 0x0A]])
     (demo_console demo_scan_codes\<lparr>con_arch := ?io False\<rparr>) = Some (demo_console []\<lparr>con_arch := ?io False\<rparr>)"
    by (simp add: demo_scan_codes_def demo_bytes_def keys demo_poll demo_write demo_keys)
  then show ?thesis by (simp only: start [symmetric])
qed

lemma demo_edited: "''Hi'' = edited [] demo_bytes" "no_enter demo_bytes" "key_of 10 = Enter"
  by code_simp+

theorem read_line_iff_witness:
  "con_read_line demo_cpu demo_font (demo_console demo_scan_codes) ''> '' False = Some (''Hi'', demo_console [])
   \<and> list_all (\<lambda>c. printable (byte_of c)) ''Hi''"
proof -
  have "con_read_line demo_cpu demo_font (demo_console demo_scan_codes) ''> '' False = Some (''Hi'', demo_console [])"
    using read_line_iff [of demo_cpu demo_font "demo_console demo_scan_codes" "''> ''" False "''Hi''" "demo_console []"]
      demo_typing demo_edited by blast
  then show ?thesis using read_line_iff by blast
qed

lemma con_read_line_returns:
  assumes "performs C F (Wrote prompt # editing secret [] bs @ [Polled (Some b), Wrote [CHR 0x0A]]) con = Some con'"
    and "no_enter bs" "key_of b = Enter"
  shows "con_read_line C F con prompt secret = Some (edited [] bs, con')"
  using assms read_loop_returns by (auto simp: con_read_line_def split: option.splits)

section \<open>Secret input\<close>

text \<open>The texts among the events, and what the keys look like to somebody who sees only their kind.\<close>

fun written :: "event list \<Rightarrow> string list" where
  "written [] = []"
| "written (Wrote text # es) = text # written es"
| "written (Polled b # es) = written es"

fun kind :: "key \<Rightarrow> key" where
  "kind (Insert c) = Insert CHR ''*''"
| "kind k = k"

fun kinds :: "u8 option list \<Rightarrow> key list" where
  "kinds [] = []"
| "kinds (None # bs) = kinds bs"
| "kinds (Some b # bs) = kind (key_of b) # kinds bs"

fun masked :: "nat \<Rightarrow> key list \<Rightarrow> string list" where
  "masked n [] = []"
| "masked n (Insert c # ks) = [c] # masked (Suc n) ks"
| "masked n (Erase # ks) = (if n = 0 then masked n ks else [CHR 0x08, CHR '' '', CHR 0x08] # masked (n - 1) ks)"
| "masked n (_ # ks) = masked n ks"

lemma written_append [simp]: "written (es @ es') = written es @ written es'"
  by (induction es rule: written.induct) simp_all

lemma written_editing: "written (editing True line bs) = masked (length line) (kinds bs)"
proof (induction True line bs rule: editing.induct)
  case (3 line b bs)
  then show ?case by (cases "key_of b") simp_all
qed simp_all

text \<open>C23: a password is not shown. The texts that reading a secret line writes, on the serial line
  and on the screen, are the prompt, then what the kinds of the keys determine (a star for a
  character, an erasure for a backspace), then a line feed: two passwords of the same length, typed
  alike, give the same output. The line itself is returned in full.\<close>

theorem secret_line_masked:
  assumes "con_read_line C F con prompt True = Some (line, con')"
  shows "\<exists>bs b. performs C F (Wrote prompt # editing True [] bs @ [Polled (Some b), Wrote [CHR 0x0A]]) con = Some con'
    \<and> line = edited [] bs
    \<and> written (Wrote prompt # editing True [] bs @ [Polled (Some b), Wrote [CHR 0x0A]])
        = prompt # masked 0 (kinds bs) @ [[CHR 0x0A]]
    \<and> (\<forall>text\<in>set (masked 0 (kinds bs)). text = ''*'' \<or> text = [CHR 0x08, CHR '' '', CHR 0x08])"
proof -
  obtain bs b where run: "performs C F (Wrote prompt # editing True [] bs @ [Polled (Some b), Wrote [CHR 0x0A]]) con = Some con'"
    "line = edited [] bs"
    using assms by (auto simp: con_read_line_def read_loop_iff split: option.splits)
  have "\<forall>text\<in>set (masked n (kinds bs)). text = ''*'' \<or> text = [CHR 0x08, CHR '' '', CHR 0x08]" for n
  proof (induction bs arbitrary: n rule: kinds.induct)
    case (3 b bs)
    then show ?case by (cases "key_of b") simp_all
  qed simp_all
  then show ?thesis using run by (intro exI [of _ bs] exI [of _ b]) (simp add: written_editing)
qed

theorem secret_line_masked_witness:
  "\<exists>con' bs b. con_read_line demo_cpu demo_font (demo_console demo_scan_codes) ''Password: '' True = Some (''Hi'', con')
    \<and> performs demo_cpu demo_font (Wrote ''Password: '' # editing True [] bs @ [Polled (Some b), Wrote [CHR 0x0A]])
        (demo_console demo_scan_codes) = Some con' \<and> ''Hi'' = edited [] bs"
proof -
  have run: "con_read_line demo_cpu demo_font (demo_console demo_scan_codes) ''Password: '' True = Some (''Hi'', demo_console [])"
    unfolding demo_edited(1) by (rule con_read_line_returns [OF demo_typing demo_edited(2,3)])
  obtain bs b where
    "performs demo_cpu demo_font (Wrote ''Password: '' # editing True [] bs @ [Polled (Some b), Wrote [CHR 0x0A]])
        (demo_console demo_scan_codes) = Some (demo_console [])" "''Hi'' = edited [] bs"
    using secret_line_masked [OF run] by (elim exE conjE)
  with run show ?thesis by (intro exI [of _ "demo_console []"] exI [of _ bs] exI [of _ b] conjI)
qed

end
