(* ===== verification/Devices.thy ===== *)
theory Devices imports Arch Storage Net begin

text \<open>
  \<^verbatim>\<open>platforms/bare-metal/src/devices.rs\<close> on \<^verbatim>\<open>x86_64\<close>: discovery of the VirtIO devices on the PCI bus,
  the legacy port transport, and the adapters from the VirtIO drivers to the kernel's block, entropy
  and network devices. The drivers and the PCI enumeration come from the \<^verbatim>\<open>virtio_drivers\<close> library: they
  are the records \<open>virtio\<close> and \<open>pci_root\<close>, with error texts for errors. Port instructions are those of the
  processor record of the architecture module.
\<close>

unbundle bit_operations_syntax

section \<open>Ports\<close>

definition out_u8 :: "'h cpu \<Rightarrow> u16 \<Rightarrow> u8 \<Rightarrow> 'h \<Rightarrow> 'h" where "out_u8 C port val h = insn_out8 C port val h"
definition in_u8 :: "'h cpu \<Rightarrow> u16 \<Rightarrow> 'h \<Rightarrow> u8 \<times> 'h" where "in_u8 C port h = insn_in8 C port h"
definition out_u16 :: "'h cpu \<Rightarrow> u16 \<Rightarrow> u16 \<Rightarrow> 'h \<Rightarrow> 'h" where "out_u16 C port val h = insn_out16 C port val h"
definition in_u16 :: "'h cpu \<Rightarrow> u16 \<Rightarrow> 'h \<Rightarrow> u16 \<times> 'h" where "in_u16 C port h = insn_in16 C port h"
definition out_u32 :: "'h cpu \<Rightarrow> u16 \<Rightarrow> u32 \<Rightarrow> 'h \<Rightarrow> 'h" where "out_u32 C port val h = insn_out32 C port val h"
definition in_u32 :: "'h cpu \<Rightarrow> u16 \<Rightarrow> 'h \<Rightarrow> u32 \<times> 'h" where "in_u32 C port h = insn_in32 C port h"

section \<open>The legacy transport\<close>

datatype device_type = BlockType | EntropyType | NetworkType | OtherType nat

record legacy_transport =
  transport_type :: device_type
  io_base :: u16

text \<open>Port arithmetic wraps, as in a release build.\<close>

definition transport_port :: "legacy_transport \<Rightarrow> u16 \<Rightarrow> u16" where
  "transport_port t offset = io_base t + offset"

definition DEVICE_FEATURES :: u16 where "DEVICE_FEATURES = 0x00"
definition DRIVER_FEATURES :: u16 where "DRIVER_FEATURES = 0x04"
definition QUEUE_PFN :: u16 where "QUEUE_PFN = 0x08"
definition QUEUE_SIZE :: u16 where "QUEUE_SIZE = 0x0c"
definition QUEUE_SELECT :: u16 where "QUEUE_SELECT = 0x0e"
definition QUEUE_NOTIFY :: u16 where "QUEUE_NOTIFY = 0x10"
definition DEVICE_STATUS :: u16 where "DEVICE_STATUS = 0x12"
definition ISR_STATUS :: u16 where "ISR_STATUS = 0x13"
definition DEVICE_CONFIG :: u16 where "DEVICE_CONFIG = 0x14"

definition select_queue :: "'h cpu \<Rightarrow> legacy_transport \<Rightarrow> u16 \<Rightarrow> 'h \<Rightarrow> 'h" where
  "select_queue C t queue h = out_u16 C (transport_port t QUEUE_SELECT) queue h"

definition read_device_features :: "'h cpu \<Rightarrow> legacy_transport \<Rightarrow> 'h \<Rightarrow> u64 \<times> 'h" where
  "read_device_features C t h = (case in_u32 C (transport_port t DEVICE_FEATURES) h of
     (features, h) \<Rightarrow> (ucast (features AND NOT (push_bit 28 1 OR push_bit 29 1)), h))"

definition write_driver_features :: "'h cpu \<Rightarrow> legacy_transport \<Rightarrow> u64 \<Rightarrow> 'h \<Rightarrow> 'h" where
  "write_driver_features C t features h =
     out_u32 C (transport_port t DRIVER_FEATURES) (ucast (features AND 0xffffffff)) h"

definition max_queue_size :: "'h cpu \<Rightarrow> legacy_transport \<Rightarrow> u16 \<Rightarrow> 'h \<Rightarrow> u32 \<times> 'h" where
  "max_queue_size C t queue h = (case in_u16 C (transport_port t QUEUE_SIZE) (select_queue C t queue h) of
     (n, h) \<Rightarrow> (ucast n, h))"

definition notify :: "'h cpu \<Rightarrow> legacy_transport \<Rightarrow> u16 \<Rightarrow> 'h \<Rightarrow> 'h" where
  "notify C t queue h = out_u16 C (transport_port t QUEUE_NOTIFY) queue h"

text \<open>\<^verbatim>\<open>from_bits_truncate\<close> keeps the bits that the library defines: \<open>status_bits\<close>, \<open>interrupt_bits\<close>.\<close>

definition get_status :: "'h cpu \<Rightarrow> u32 \<Rightarrow> legacy_transport \<Rightarrow> 'h \<Rightarrow> u32 \<times> 'h" where
  "get_status C status_bits t h = (case in_u8 C (transport_port t DEVICE_STATUS) h of
     (status, h) \<Rightarrow> (ucast status AND status_bits, h))"

definition legacy_status :: "u32 \<Rightarrow> u8" where
  "legacy_status status = (let bits = status AND NOT 0x08 in if bits \<le> 0xff then ucast bits else - 1)"

definition set_status :: "'h cpu \<Rightarrow> legacy_transport \<Rightarrow> u32 \<Rightarrow> 'h \<Rightarrow> 'h" where
  "set_status C t status h = out_u8 C (transport_port t DEVICE_STATUS) (legacy_status status) h"

definition queue_page_frame :: "u64 \<Rightarrow> u32" where
  "queue_page_frame descriptors = (let frame = descriptors div 4096 in if frame \<le> 0xffffffff then ucast frame else 0)"

definition queue_set :: "'h cpu \<Rightarrow> legacy_transport \<Rightarrow> u16 \<Rightarrow> u64 \<Rightarrow> 'h \<Rightarrow> 'h" where
  "queue_set C t queue descriptors h =
     out_u32 C (transport_port t QUEUE_PFN) (queue_page_frame descriptors) (select_queue C t queue h)"

definition queue_unset :: "'h cpu \<Rightarrow> legacy_transport \<Rightarrow> u16 \<Rightarrow> 'h \<Rightarrow> 'h" where
  "queue_unset C t queue h = out_u32 C (transport_port t QUEUE_PFN) 0 (select_queue C t queue h)"

definition queue_used :: "'h cpu \<Rightarrow> legacy_transport \<Rightarrow> u16 \<Rightarrow> 'h \<Rightarrow> bool \<times> 'h" where
  "queue_used C t queue h = (case in_u32 C (transport_port t QUEUE_PFN) (select_queue C t queue h) of
     (frame, h) \<Rightarrow> (frame \<noteq> 0, h))"

definition ack_interrupt :: "'h cpu \<Rightarrow> u32 \<Rightarrow> legacy_transport \<Rightarrow> 'h \<Rightarrow> u32 \<times> 'h" where
  "ack_interrupt C interrupt_bits t h = (case in_u8 C (transport_port t ISR_STATUS) h of
     (status, h) \<Rightarrow> (ucast status AND interrupt_bits, h))"

text \<open>The configuration space, byte by byte: \<open>None\<close> is \<^verbatim>\<open>Error::InvalidParam\<close>.\<close>

fun read_config_space :: "'h cpu \<Rightarrow> legacy_transport \<Rightarrow> nat \<Rightarrow> nat \<Rightarrow> 'h \<Rightarrow> bytes option \<times> 'h" where
  "read_config_space C t offset 0 h = (Some [], h)"
| "read_config_space C t offset (Suc n) h =
     (if offset > 65535 then (None, h)
      else case in_u8 C (transport_port t (DEVICE_CONFIG + word_of_nat offset)) h of
        (byte, h) \<Rightarrow> (case read_config_space C t (Suc offset) n h of
            (None, h) \<Rightarrow> (None, h) | (Some bs, h) \<Rightarrow> (Some (byte # bs), h)))"

fun write_config_space :: "'h cpu \<Rightarrow> legacy_transport \<Rightarrow> nat \<Rightarrow> bytes \<Rightarrow> 'h \<Rightarrow> unit option \<times> 'h" where
  "write_config_space C t offset [] h = (Some (), h)"
| "write_config_space C t offset (byte # bs) h =
     (if offset > 65535 then (None, h)
      else write_config_space C t (Suc offset) bs
        (out_u8 C (transport_port t (DEVICE_CONFIG + word_of_nat offset)) byte h))"

section \<open>PCI configuration\<close>

record device_function =
  pci_bus :: u8
  pci_device :: u8
  pci_function :: u8

definition pci_address :: "device_function \<Rightarrow> u8 \<Rightarrow> u32" where
  "pci_address f register_offset = 0x80000000 OR push_bit 16 (ucast (pci_bus f)) OR push_bit 11 (ucast (pci_device f))
     OR push_bit 8 (ucast (pci_function f)) OR ucast (register_offset AND 0xfc)"

definition pci_read_word :: "'h cpu \<Rightarrow> device_function \<Rightarrow> u8 \<Rightarrow> 'h \<Rightarrow> u32 \<times> 'h" where
  "pci_read_word C f register_offset h = in_u32 C 0x0cfc (out_u32 C 0x0cf8 (pci_address f register_offset) h)"

definition pci_write_word :: "'h cpu \<Rightarrow> device_function \<Rightarrow> u8 \<Rightarrow> u32 \<Rightarrow> 'h \<Rightarrow> 'h" where
  "pci_write_word C f register_offset data h =
     out_u32 C 0x0cfc data (out_u32 C 0x0cf8 (pci_address f register_offset) h)"

section \<open>Drivers and devices\<close>

definition NET_QUEUE_SIZE :: nat where "NET_QUEUE_SIZE = 256"
definition NET_BUFFER_LEN :: nat where "NET_BUFFER_LEN = 2048"

record ('b, 'r, 'k) virtio =
  blk_new :: "legacy_transport \<Rightarrow> string + 'b"
  blk_readonly :: "'b \<Rightarrow> bool"
  blk_capacity :: "'b \<Rightarrow> u64"
  blk_read_blocks :: "nat \<Rightarrow> nat \<Rightarrow> 'b \<Rightarrow> (string + bytes) \<times> 'b"
  blk_write_blocks :: "nat \<Rightarrow> bytes \<Rightarrow> 'b \<Rightarrow> (string + unit) \<times> 'b"
  blk_flush :: "'b \<Rightarrow> (string + unit) \<times> 'b"
  rng_new :: "legacy_transport \<Rightarrow> string + 'r"
  request_entropy :: "bytes \<Rightarrow> 'r \<Rightarrow> (string + nat \<times> bytes) \<times> 'r"
  vnet_new :: "nat \<Rightarrow> nat \<Rightarrow> legacy_transport \<Rightarrow> string + 'k"
  vnet_mac_address :: "'k \<Rightarrow> bytes"
  vnet_can_send :: "'k \<Rightarrow> bool"
  vnet_can_recv :: "'k \<Rightarrow> bool"
  vnet_receive :: "'k \<Rightarrow> (string + bytes) \<times> 'k"
  vnet_recycle_rx_buffer :: "bytes \<Rightarrow> 'k \<Rightarrow> 'k"
  vnet_send :: "bytes \<Rightarrow> 'k \<Rightarrow> 'k"

definition virtio_read_blocks :: "('b, 'r, 'k) virtio \<Rightarrow> 'b \<Rightarrow> u64 \<Rightarrow> nat \<Rightarrow> (bytes sres \<times> 'b) option" where
  "virtio_read_blocks V b first_block n =
     (if n = 0 \<or> n mod BLOCK_SIZE \<noteq> 0 then Some (Err (Device ''unaligned VirtIO block read''), b)
      else case blk_read_blocks V (unat first_block) n b of
        (r, b) \<Rightarrow> Some (map_err (\<lambda>e. Device (''VirtIO read: '' @ e)) r, b))"

definition virtio_write_blocks :: "('b, 'r, 'k) virtio \<Rightarrow> 'b \<Rightarrow> u64 \<Rightarrow> bytes \<Rightarrow> (unit sres \<times> 'b) option" where
  "virtio_write_blocks V b first_block data =
     (if data = [] \<or> length data mod BLOCK_SIZE \<noteq> 0 then Some (Err (Device ''unaligned VirtIO block write''), b)
      else case blk_write_blocks V (unat first_block) data b of
        (r, b) \<Rightarrow> Some (map_err (\<lambda>e. Device (''VirtIO write: '' @ e)) r, b))"

definition virtio_flush :: "('b, 'r, 'k) virtio \<Rightarrow> 'b \<Rightarrow> (unit sres \<times> 'b) option" where
  "virtio_flush V b = (case blk_flush V b of (r, b) \<Rightarrow> Some (map_err (\<lambda>e. Device (''VirtIO flush: '' @ e)) r, b))"

definition virtio_block :: "('b, 'r, 'k) virtio \<Rightarrow> 'b block_device" where
  "virtio_block V = \<lparr>block_count = blk_capacity V, read_blocks = virtio_read_blocks V,
     write_blocks = virtio_write_blocks V, flush = virtio_flush V\<rparr>"

definition virtio_net_receive :: "('b, 'r, 'k) virtio \<Rightarrow> 'k \<Rightarrow> bytes option \<times> 'k" where
  "virtio_net_receive V k =
     (if \<not> vnet_can_recv V k then (None, k)
      else case vnet_receive V k of
          (Inl _, k) \<Rightarrow> (None, k)
        | (Inr buffer, k) \<Rightarrow> (Some buffer, vnet_recycle_rx_buffer V buffer k))"

definition virtio_net :: "('b, 'r, 'k) virtio \<Rightarrow> 'k net_device" where
  "virtio_net V = \<lparr>nic_mac = vnet_mac_address V, nic_can_send = vnet_can_send V,
     nic_receive = virtio_net_receive V, nic_transmit = (\<lambda>k frame. vnet_send V frame k)\<rparr>"

text \<open>\<^verbatim>\<open>VirtioEntropy::fill\<close>: the driver fills the rest of the buffer from \<open>offset\<close> and reports how much of it.\<close>

function entropy_loop :: "('b, 'r, 'k) virtio \<Rightarrow> nat \<Rightarrow> nat \<Rightarrow> bytes \<Rightarrow> 'r \<Rightarrow> (string + bytes) \<times> 'r" where
  "entropy_loop V n offset out r =
     (if offset \<ge> n then (Ok out, r)
      else case request_entropy V (drop offset out) r of
          (Inl e, r) \<Rightarrow> (Err (''VirtIO entropy: '' @ e), r)
        | (Inr (count, rest), r) \<Rightarrow>
            if count = 0 then (Err ''VirtIO entropy device returned no bytes'', r)
            else entropy_loop V n (offset + min count (n - offset)) (take offset out @ rest) r)"
  by pat_completeness auto
termination
  by (relation "measure (\<lambda>(V, n, offset, out, r). n - offset)") auto

declare entropy_loop.simps [simp del]

definition virtio_entropy_fill :: "('b, 'r, 'k) virtio \<Rightarrow> bytes \<Rightarrow> 'r \<Rightarrow> (string + bytes) \<times> 'r" where
  "virtio_entropy_fill V out r = entropy_loop V (length out) 0 out r"

section \<open>Discovery\<close>

record ('b, 'r, 'k) device_set =
  set_block :: "'b option"
  set_entropy :: "'r option"
  set_net :: "'k option"

definition devices_empty :: "('b, 'r, 'k) device_set" where
  "devices_empty = \<lparr>set_block = None, set_entropy = None, set_net = None\<rparr>"

definition devices_complete :: "('b, 'r, 'k) device_set \<Rightarrow> bool" where
  "devices_complete ds \<longleftrightarrow> set_block ds \<noteq> None \<and> set_entropy ds \<noteq> None \<and> set_net ds \<noteq> None"

definition add_transport :: "('b, 'r, 'k) virtio \<Rightarrow> legacy_transport \<Rightarrow> ('b, 'r, 'k) device_set
    \<Rightarrow> (string + unit) \<times> ('b, 'r, 'k) device_set" where
  "add_transport V t ds =
     (if transport_type t = BlockType \<and> set_block ds = None
      then (case blk_new V t of
            Inl e \<Rightarrow> (Err (''VirtIO block initialization: '' @ e), ds)
          | Inr driver \<Rightarrow> if blk_readonly V driver then (Err ''AFOS VirtIO data disk is read-only'', ds)
              else (Ok (), ds\<lparr>set_block := Some driver\<rparr>))
      else if transport_type t = EntropyType \<and> set_entropy ds = None
      then (case rng_new V t of
            Inl e \<Rightarrow> (Err (''VirtIO entropy initialization: '' @ e), ds)
          | Inr driver \<Rightarrow> (Ok (), ds\<lparr>set_entropy := Some driver\<rparr>))
      else if transport_type t = NetworkType \<and> set_net ds = None
      then (case vnet_new V NET_QUEUE_SIZE NET_BUFFER_LEN t of
            Inl e \<Rightarrow> (Err (''VirtIO network initialization: '' @ e), ds)
          | Inr driver \<Rightarrow> (Ok (), ds\<lparr>set_net := Some driver\<rparr>))
      else (Ok (), ds))"

datatype bar_info = IoBar u32 | MemoryBar

record ('h, 'i) pci_root =
  enumerate_bus :: "u8 \<Rightarrow> 'h \<Rightarrow> (device_function \<times> 'i) list \<times> 'h"
  virtio_device_type :: "'i \<Rightarrow> device_type option"
  get_command :: "device_function \<Rightarrow> 'h \<Rightarrow> u16 \<times> 'h"
  set_command :: "device_function \<Rightarrow> u16 \<Rightarrow> 'h \<Rightarrow> 'h"
  get_bar_info :: "device_function \<Rightarrow> u8 \<Rightarrow> 'h \<Rightarrow> (unit + bar_info option) \<times> 'h"
  io_space :: u16
  bus_master :: u16

fun probe_candidates :: "('h, 'i) pci_root \<Rightarrow> ('b, 'r, 'k) virtio \<Rightarrow> (device_function \<times> 'i) list
    \<Rightarrow> ('b, 'r, 'k) device_set \<Rightarrow> 'h \<Rightarrow> ('b, 'r, 'k) device_set \<times> 'h" where
  "probe_candidates R V [] ds h = (ds, h)"
| "probe_candidates R V ((f, information) # candidates) ds h = (case virtio_device_type R information of
       None \<Rightarrow> probe_candidates R V candidates ds h
     | Some device_type \<Rightarrow>
         if device_type \<notin> {BlockType, EntropyType, NetworkType} then probe_candidates R V candidates ds h
         else let (command, h) = get_command R f h;
                  h = set_command R f (command OR io_space R OR bus_master R) h;
                  (bar, h) = get_bar_info R f 0 h
           in (case bar of
                Inr (Some (IoBar addr)) \<Rightarrow>
                  (let h = set_command R f (command OR io_space R OR bus_master R) h in
                   if addr > 0xffff then probe_candidates R V candidates ds h
                   else let ds = snd (add_transport V \<lparr>transport_type = device_type, io_base = ucast addr\<rparr> ds)
                     in if devices_complete ds then (ds, h) else probe_candidates R V candidates ds h)
              | _ \<Rightarrow> probe_candidates R V candidates ds h))"

definition discover_pci :: "('h, 'i) pci_root \<Rightarrow> ('b, 'r, 'k) virtio \<Rightarrow> 'h \<Rightarrow> ('b, 'r, 'k) device_set \<times> 'h" where
  "discover_pci R V h = (case enumerate_bus R 0 h of (candidates, h) \<Rightarrow>
     probe_candidates R V candidates devices_empty h)"


section \<open>Block devices\<close>

text \<open>What is assumed of the block driver: it serves sectors of a disk, a successful write replaces the
  range, a failed one leaves anything in the range and nothing elsewhere, reading and flushing change
  no byte.\<close>

definition blk_laws :: "('b, 'r, 'k) virtio \<Rightarrow> ('b \<Rightarrow> bytes) \<Rightarrow> ('b \<Rightarrow> bool) \<Rightarrow> bool" where
  "blk_laws V disk ready \<longleftrightarrow> (\<forall>b. ready b \<longrightarrow>
     length (disk b) = unat (blk_capacity V b) * BLOCK_SIZE \<and> length (disk b) < 2 ^ 64
     \<and> (\<forall>s n r b'. blk_read_blocks V s n b = (r, b') \<longrightarrow>
          ready b' \<and> disk b' = disk b \<and> blk_capacity V b' = blk_capacity V b
          \<and> (0 < n \<and> BLOCK_SIZE dvd n \<and> s * BLOCK_SIZE + n \<le> length (disk b) \<longrightarrow>
               r = Ok (take n (drop (s * BLOCK_SIZE) (disk b)))))
     \<and> (\<forall>s d r b'. blk_write_blocks V s d b = (r, b') \<and> s * BLOCK_SIZE + length d \<le> length (disk b) \<longrightarrow>
          ready b' \<and> blk_capacity V b' = blk_capacity V b
          \<and> (\<exists>d'. length d' = length d \<and> disk b' = put_slice (s * BLOCK_SIZE) d' (disk b) \<and> (r = Ok () \<longrightarrow> d' = d)))
     \<and> (\<forall>r b'. blk_flush V b = (r, b') \<longrightarrow>
          ready b' \<and> disk b' = disk b \<and> blk_capacity V b' = blk_capacity V b))"

text \<open>C30: the VirtIO adapter keeps the contract of the snapshot store. A driver that serves the sectors
  of a disk, used through the adapter, is a reliable block device, so that everything proved of the
  snapshot store and of the bare-metal file tree on such a device holds on a VirtIO disk. Empty and
  unaligned requests are refused before they reach the driver.\<close>

theorem virtio_block_reliable:
  "(blk_laws V disk ready \<longrightarrow> reliable_blocks (virtio_block V) disk ready)
   \<and> (n = 0 \<or> \<not> BLOCK_SIZE dvd n \<longrightarrow> (\<exists>e. read_blocks (virtio_block V) b first n = Some (Err (Device e), b)))
   \<and> (data = [] \<or> \<not> BLOCK_SIZE dvd length data \<longrightarrow>
        (\<exists>e. write_blocks (virtio_block V) b first data = Some (Err (Device e), b)))"
proof (intro conjI impI)
  assume "blk_laws V disk ready"
  then have size: "ready b \<Longrightarrow> length (disk b) = unat (blk_capacity V b) * BLOCK_SIZE"
      "ready b \<Longrightarrow> length (disk b) < 2 ^ 64"
    and read: "ready b \<Longrightarrow> blk_read_blocks V s n b = (r, b') \<Longrightarrow>
        ready b' \<and> disk b' = disk b \<and> blk_capacity V b' = blk_capacity V b
        \<and> (0 < n \<and> BLOCK_SIZE dvd n \<and> s * BLOCK_SIZE + n \<le> length (disk b) \<longrightarrow>
             r = Ok (take n (drop (s * BLOCK_SIZE) (disk b))))"
    and writes: "ready b \<Longrightarrow> blk_write_blocks V s d b = (q, b') \<Longrightarrow> s * BLOCK_SIZE + length d \<le> length (disk b) \<Longrightarrow>
        ready b' \<and> blk_capacity V b' = blk_capacity V b
        \<and> (\<exists>d'. length d' = length d \<and> disk b' = put_slice (s * BLOCK_SIZE) d' (disk b) \<and> (q = Ok () \<longrightarrow> d' = d))"
    and flushes: "ready b \<Longrightarrow> blk_flush V b = (q, b') \<Longrightarrow>
        ready b' \<and> disk b' = disk b \<and> blk_capacity V b' = blk_capacity V b"
    for b b' s n d r q unfolding blk_laws_def by blast+
  show "reliable_blocks (virtio_block V) disk ready"
  proof
    fix d d' :: 'a and b :: u64 and n and bs data :: bytes and r and q :: "unit sres" and e u
    show "length (disk d) = unat (block_count (virtio_block V) d) * BLOCK_SIZE" if "ready d"
      using size(1) [OF that] by (simp add: virtio_block_def)
    show "length (disk d) < 2 ^ 64" if "ready d" using size(2) [OF that] .
    show "ready d' \<and> disk d' = disk d \<and> block_count (virtio_block V) d' = block_count (virtio_block V) d"
      if "ready d" "read_blocks (virtio_block V) d b n = Some (r, d')"
      using that read by (auto simp: virtio_block_def virtio_read_blocks_def split: if_splits prod.splits)
    show "bs = take n (drop (unat b * BLOCK_SIZE) (disk d))"
      if "ready d" "0 < n" "BLOCK_SIZE dvd n" "unat b * BLOCK_SIZE + n \<le> length (disk d)"
        "read_blocks (virtio_block V) d b n = Some (Ok bs, d')"
      using that read [OF that(1), of "unat b" n]
      by (auto simp: virtio_block_def virtio_read_blocks_def split: if_splits prod.splits)
    show "\<exists>bs d'. read_blocks (virtio_block V) d b n = Some (Ok bs, d')"
      if "ready d" "0 < n" "BLOCK_SIZE dvd n" "unat b * BLOCK_SIZE + n \<le> length (disk d)"
      using that read [OF that(1), of "unat b" n]
      by (auto simp: virtio_block_def virtio_read_blocks_def dvd_eq_mod_eq_0 split: prod.splits)
    show "ready d' \<and> disk d' = disk d \<and> block_count (virtio_block V) d' = block_count (virtio_block V) d"
      if "ready d" "flush (virtio_block V) d = Some (q, d')"
      using that flushes by (auto simp: virtio_block_def virtio_flush_def split: prod.splits)
    show "ready d' \<and> disk d' = put_slice (unat b * BLOCK_SIZE) data (disk d)
        \<and> block_count (virtio_block V) d' = block_count (virtio_block V) d"
      if "ready d" "data \<noteq> []" "BLOCK_SIZE dvd length data" "unat b * BLOCK_SIZE + length data \<le> length (disk d)"
        "write_blocks (virtio_block V) d b data = Some (Ok u, d')"
      using that writes [OF that(1), of "unat b" data]
      by (auto simp: virtio_block_def virtio_write_blocks_def split: if_splits prod.splits)
    show "ready d' \<and> block_count (virtio_block V) d' = block_count (virtio_block V) d
        \<and> (\<exists>torn. length torn = length data \<and> disk d' = put_slice (unat b * BLOCK_SIZE) torn (disk d))"
      if "ready d" "data \<noteq> []" "BLOCK_SIZE dvd length data" "unat b * BLOCK_SIZE + length data \<le> length (disk d)"
        "write_blocks (virtio_block V) d b data = Some (Err e, d')"
      using that writes [OF that(1), of "unat b" data]
      by (auto simp: virtio_block_def virtio_write_blocks_def split: if_splits prod.splits)
  qed
qed (auto simp: virtio_block_def virtio_read_blocks_def virtio_write_blocks_def dvd_eq_mod_eq_0)


text \<open>Drivers for examples: the disk is a list of bytes, the entropy device delivers at most three bytes
  at a time, there is no network card.\<close>

definition demo_virtio :: "(bytes, u8, unit) virtio" where
  "demo_virtio = \<lparr>blk_new = (\<lambda>_. Ok (replicate 2048 0)), blk_readonly = (\<lambda>_. False), blk_capacity = memory_block_count,
     blk_read_blocks = (\<lambda>s n b. (if s * BLOCK_SIZE + n \<le> length b then Ok (take n (drop (s * BLOCK_SIZE) b)) else Err ''range'', b)),
     blk_write_blocks = (\<lambda>s d b. if s * BLOCK_SIZE + length d \<le> length b then (Ok (), put_slice (s * BLOCK_SIZE) d b) else (Err ''range'', b)),
     blk_flush = (\<lambda>b. (Ok (), b)), rng_new = (\<lambda>_. Ok 5),
     request_entropy = (\<lambda>buf r. (Ok (min 3 (length buf), replicate (min 3 (length buf)) r @ drop 3 buf), r + 1)),
     vnet_new = (\<lambda>_ _ _. Err ''none''), vnet_mac_address = (\<lambda>_. []), vnet_can_send = (\<lambda>_. False), vnet_can_recv = (\<lambda>_. False),
     vnet_receive = (\<lambda>k. (Err ''none'', k)), vnet_recycle_rx_buffer = (\<lambda>_ k. k), vnet_send = (\<lambda>_ k. k)\<rparr>"

lemma demo_blk_laws: "blk_laws demo_virtio (\<lambda>d. d) memory_ready"
proof -
  have "memory_ready (put_slice o' d' b) \<and> memory_block_count (put_slice o' d' b) = memory_block_count b"
    if "memory_ready b" "o' + length d' \<le> length b" for o' d' b
    using that by (simp add: memory_ready_def memory_block_count_def put_slice_def)
  then show ?thesis
    using memory_block_count_size
    by (auto simp: blk_laws_def demo_virtio_def memory_ready_def memory_device_def split: if_splits)
qed

theorem virtio_block_reliable_witness:
  "reliable_blocks (virtio_block demo_virtio) (\<lambda>d. d) memory_ready
   \<and> (\<exists>e. read_blocks (virtio_block demo_virtio) [] 0 100 = Some (Err (Device e), []))"
proof -
  have "\<not> BLOCK_SIZE dvd 100" by simp
  then show ?thesis
    using virtio_block_reliable [of demo_virtio "\<lambda>d. d" memory_ready 100 "[]" 0] demo_blk_laws by blast
qed

section \<open>Entropy\<close>

text \<open>A sequence of answers of the driver, each with at least one byte.\<close>

inductive served :: "('b, 'r, 'k) virtio \<Rightarrow> 'r \<Rightarrow> bytes list \<Rightarrow> 'r \<Rightarrow> bool" for V where
  served_Nil: "served V r [] r"
| served_Cons: "request_entropy V buf r = (Ok (count, answer), r1) \<Longrightarrow> 0 < count \<Longrightarrow> served V r1 chunks r'
    \<Longrightarrow> served V r (take count answer # chunks) r'"

definition entropy_sized :: "('b, 'r, 'k) virtio \<Rightarrow> bool" where
  "entropy_sized V \<longleftrightarrow> (\<forall>buf r count answer r'. request_entropy V buf r = (Ok (count, answer), r') \<longrightarrow> length answer = length buf)"

lemma entropy_sizedD:
  "entropy_sized V \<Longrightarrow> request_entropy V buf r = (Ok (count, answer), r') \<Longrightarrow> length answer = length buf"
  unfolding entropy_sized_def by blast

lemma entropy_loop_served:
  assumes "entropy_sized V" "length out = n" "offset \<le> n" "entropy_loop V n offset out r = (Ok out', r')"
  shows "length out' = n \<and> (\<exists>chunks. served V r chunks r' \<and> out' = take offset out @ concat chunks)"
  using assms
proof (induction V n offset out r rule: entropy_loop.induct)
  case (1 V n offset out r)
  show ?case
  proof (cases "offset \<ge> n")
    case True
    then have "out' = out" "r' = r" using 1(5) by (subst (asm) entropy_loop.simps, simp)+
    then show ?thesis using True 1(3,4) by (auto intro!: exI [of _ "[]"] served_Nil)
  next
    case False
    then obtain count answer r1 where q: "request_entropy V (drop offset out) r = (Ok (count, answer), r1)" "0 < count"
      and rec: "entropy_loop V n (offset + min count (n - offset)) (take offset out @ answer) r1 = (Ok out', r')"
      using 1(5) by (subst (asm) entropy_loop.simps) (auto split: prod.splits sum.splits if_splits)
    have len: "length answer = n - offset" using entropy_sizedD [OF 1(2) q(1)] 1(3) by simp
    have "length out' = n \<and> (\<exists>chunks. served V r1 chunks r'
        \<and> out' = take (offset + min count (n - offset)) (take offset out @ answer) @ concat chunks)"
      using False q rec len 1(2-4) by (intro "1.IH" [of "Ok (count, answer)" r1 "(count, answer)" count answer]) auto
    then obtain chunks where c: "length out' = n" "served V r1 chunks r'"
      "out' = take (offset + min count (n - offset)) (take offset out @ answer) @ concat chunks" by blast
    have "take (offset + min count (n - offset)) (take offset out @ answer) = take offset out @ take count answer"
      using 1(3,4) len by (auto simp: min_def)
    then show ?thesis using c q by (auto intro!: exI [of _ "take count answer # chunks"] served_Cons)
  qed
qed

lemma entropy_loop_succeeds:
  assumes "\<And>buf r. buf \<noteq> [] \<Longrightarrow> \<exists>count answer r'. request_entropy V buf r = (Ok (count, answer), r') \<and> 0 < count"
    and "entropy_sized V" "length out = n"
  shows "\<exists>out' r'. entropy_loop V n offset out r = (Ok out', r')"
  using assms
proof (induction V n offset out r rule: entropy_loop.induct)
  case (1 V n offset out r)
  show ?case
  proof (cases "offset \<ge> n")
    case True
    then show ?thesis by (subst entropy_loop.simps) simp
  next
    case False
    then have "drop offset out \<noteq> []" using 1(4) by simp
    then obtain count answer r1 where q: "request_entropy V (drop offset out) r = (Ok (count, answer), r1)" "0 < count"
      using 1(2) by blast
    have len: "length (take offset out @ answer) = n" using entropy_sizedD [OF 1(3) q(1)] 1(4) False by simp
    have "\<exists>out' r'. entropy_loop V n (offset + min count (n - offset)) (take offset out @ answer) r1 = (Ok out', r')"
      using False q len 1(2,3) by (intro "1.IH" [of "Ok (count, answer)" r1 "(count, answer)" count answer]) auto
    then show ?thesis using False q by (subst entropy_loop.simps) simp
  qed
qed

text \<open>Filling a buffer with entropy always ends. When it succeeds every byte of the buffer comes
  from an answer of the device, in order, so none of the initial content remains; it does succeed on a
  device that always delivers at least one byte.\<close>

theorem entropy_fill_served:
  assumes "entropy_sized V"
  shows "(virtio_entropy_fill V out r = (Ok out', r') \<longrightarrow>
      length out' = length out \<and> (\<exists>chunks. served V r chunks r' \<and> out' = concat chunks))
    \<and> ((\<forall>buf r. buf \<noteq> [] \<longrightarrow> (\<exists>count answer r'. request_entropy V buf r = (Ok (count, answer), r') \<and> 0 < count))
        \<longrightarrow> (\<exists>out' r'. virtio_entropy_fill V out r = (Ok out', r')))"
  using entropy_loop_served [OF assms refl, of 0] entropy_loop_succeeds [of V out "length out" 0 r] assms
  by (auto simp: virtio_entropy_fill_def)

theorem entropy_fill_served_witness:
  "virtio_entropy_fill demo_virtio [0, 0, 0, 0] 5 = (Ok [5, 5, 5, 6], 7) \<and> (\<exists>chunks. served demo_virtio 5 chunks 7 \<and> [5, 5, 5, 6] = concat chunks)"
proof -
  have sized: "entropy_sized demo_virtio" by (auto simp: entropy_sized_def demo_virtio_def)
  have run: "virtio_entropy_fill demo_virtio [0, 0, 0, 0] 5 = (Ok [5, 5, 5, 6], 7)"
    by (simp add: virtio_entropy_fill_def entropy_loop.simps demo_virtio_def)
  show ?thesis using run entropy_fill_served [OF sized, THEN conjunct1, rule_format, OF run] by blast
qed

section \<open>Transport and configuration space\<close>


text \<open>The fields of a PCI configuration address do not overlap: bits 16 to 23 are the bus, 11 to 15
  the device, 8 to 10 the function, and the low byte the register.\<close>

lemma bit_below: "bit (x :: 'a::len word) i \<Longrightarrow> x < 2 ^ n \<Longrightarrow> n < LENGTH('a) \<Longrightarrow> i < n"
  by (metis bit_take_bit_iff less_mask_eq take_bit_eq_mask)

lemma pci_address_bit:
  assumes "pci_device f < 32" "pci_function f < 8"
  shows "bit (pci_address f reg) i \<longleftrightarrow> i = 31 \<or> (16 \<le> i \<and> i < 24 \<and> bit (pci_bus f) (i - 16))
    \<or> (11 \<le> i \<and> i < 16 \<and> bit (pci_device f) (i - 11)) \<or> (8 \<le> i \<and> i < 11 \<and> bit (pci_function f) (i - 8))
    \<or> (2 \<le> i \<and> i < 8 \<and> bit reg i)"
proof -
  have range: "bit (pci_device f) j \<Longrightarrow> j < 5" "bit (pci_function f) j \<Longrightarrow> j < 3" for j
    using bit_below [of "pci_device f" j 5] bit_below [of "pci_function f" j 3] assms by simp_all
  have range8: "bit (b :: u8) j \<Longrightarrow> j < 8" for b j using bit_imp_le_length [of b j] by simp
  have mask: "bit (0xfc :: u8) i \<longleftrightarrow> 2 \<le> i \<and> i < 8"
  proof -
    have "(0xfc :: u8) = push_bit 2 (mask 6)" by (simp add: mask_eq_exp_minus_1)
    then show ?thesis by (simp only: bit_push_bit_iff bit_mask_iff) auto
  qed
  have "bit (0x80000000 :: u32) i \<longleftrightarrow> i = 31"
  proof -
    have "(0x80000000 :: u32) = push_bit 31 1" by simp
    then show ?thesis by (simp only: bit_push_bit_iff bit_1_iff) auto
  qed
  moreover have "bit (push_bit 16 (ucast (pci_bus f) :: u32)) i \<longleftrightarrow> 16 \<le> i \<and> i < 24 \<and> bit (pci_bus f) (i - 16)"
    using range8 [of "pci_bus f" "i - 16"] by (auto simp: bit_push_bit_iff bit_ucast_iff)
  moreover have "bit (push_bit 11 (ucast (pci_device f) :: u32)) i \<longleftrightarrow> 11 \<le> i \<and> i < 16 \<and> bit (pci_device f) (i - 11)"
    using range(1) [of "i - 11"] by (auto simp: bit_push_bit_iff bit_ucast_iff)
  moreover have "bit (push_bit 8 (ucast (pci_function f) :: u32)) i \<longleftrightarrow> 8 \<le> i \<and> i < 11 \<and> bit (pci_function f) (i - 8)"
    using range(2) [of "i - 8"] by (auto simp: bit_push_bit_iff bit_ucast_iff)
  moreover have "bit (ucast (reg AND 0xfc) :: u32) i \<longleftrightarrow> 2 \<le> i \<and> i < 8 \<and> bit reg i"
    using mask range8 [of reg i] by (auto simp: bit_ucast_iff bit_and_iff)
  ultimately show ?thesis
    unfolding pci_address_def by (simp only: bit_or_iff disj_assoc)
qed

lemma pci_address_inject:
  assumes "pci_device f < 32" "pci_function f < 8" "pci_device g < 32" "pci_function g < 8"
    and eq: "pci_address f r = pci_address g s"
  shows "pci_bus f = pci_bus g \<and> pci_device f = pci_device g \<and> pci_function f = pci_function g"
proof -
  note b = pci_address_bit [OF assms(1,2), of r] pci_address_bit [OF assms(3,4), of s, folded eq]
  have "bit (pci_bus f) j = bit (pci_bus g) j" if "j < 8" for j using b [of "j + 16"] that by auto
  moreover have "bit (pci_device f) j = bit (pci_device g) j" if "j < 5" for j using b [of "j + 11"] that by auto
  moreover have "bit (pci_function f) j = bit (pci_function g) j" if "j < 3" for j using b [of "j + 8"] that by auto
  moreover have "\<not> bit (pci_device x) j" if "5 \<le> j" "pci_device x < 32" for x :: device_function and j
    using bit_below [of "pci_device x" j 5] that by auto
  moreover have "\<not> bit (pci_function x) j" if "3 \<le> j" "pci_function x < 8" for x :: device_function and j
    using bit_below [of "pci_function x" j 3] that by auto
  ultimately show ?thesis
    using assms(1-4) by (auto intro!: bit_word_eqI) (metis not_le)+
qed

section \<open>Discovery is sound\<close>

text \<open>The transport \<open>t\<close> belongs to a candidate: its type is the candidate's, its port the candidate's
  first base address.\<close>

definition candidate_transport :: "('h, 'i) pci_root \<Rightarrow> (device_function \<times> 'i) list \<Rightarrow> legacy_transport \<Rightarrow> bool" where
  "candidate_transport R candidates t \<longleftrightarrow> (\<exists>f information port h h'.
     (f, information) \<in> set candidates \<and> virtio_device_type R information = Some (transport_type t)
     \<and> get_bar_info R f 0 h = (Ok (Some (IoBar port)), h') \<and> uint port = uint (io_base t))"

definition devices_sound :: "('h, 'i) pci_root \<Rightarrow> ('b, 'r, 'k) virtio \<Rightarrow> (device_function \<times> 'i) list
    \<Rightarrow> ('b, 'r, 'k) device_set \<Rightarrow> bool" where
  "devices_sound R V candidates ds \<longleftrightarrow>
     (\<forall>b. set_block ds = Some b \<longrightarrow> \<not> blk_readonly V b \<and> (\<exists>t. candidate_transport R candidates t
        \<and> transport_type t = BlockType \<and> blk_new V t = Ok b))
   \<and> (\<forall>r. set_entropy ds = Some r \<longrightarrow> (\<exists>t. candidate_transport R candidates t
        \<and> transport_type t = EntropyType \<and> rng_new V t = Ok r))
   \<and> (\<forall>k. set_net ds = Some k \<longrightarrow> (\<exists>t. candidate_transport R candidates t
        \<and> transport_type t = NetworkType \<and> vnet_new V NET_QUEUE_SIZE NET_BUFFER_LEN t = Ok k))"

lemma add_transport_sound:
  assumes "devices_sound R V candidates ds" "candidate_transport R candidates t"
  shows "devices_sound R V candidates (snd (add_transport V t ds))"
  using assms unfolding devices_sound_def add_transport_def by (auto split: sum.splits)

lemma probe_candidates_sound:
  assumes "set candidates \<subseteq> set all" "devices_sound R V all ds"
  shows "devices_sound R V all (fst (probe_candidates R V candidates ds h))"
  using assms
proof (induction candidates arbitrary: ds h)
  case (Cons c candidates)
  obtain f information where c: "c = (f, information)" by (cases c)
  have IH: "devices_sound R V all (fst (probe_candidates R V candidates ds' h'))" if "devices_sound R V all ds'" for ds' h'
    using Cons.IH that Cons.prems(1) by simp
  obtain command h1 where command: "get_command R f h = (command, h1)" by fastforce
  let ?h2 = "set_command R f (command OR io_space R OR bus_master R) h1"
  obtain bar h3 where bar: "get_bar_info R f 0 ?h2 = (bar, h3)" by fastforce
  have sound: "devices_sound R V all (snd (add_transport V \<lparr>transport_type = ty, io_base = ucast port\<rparr> ds))"
    if "virtio_device_type R information = Some ty" "bar = Ok (Some (IoBar port))" "\<not> 0xffff < port" for ty port
  proof (rule add_transport_sound [OF Cons.prems(2)])
    have "uint port \<le> 0xffff" using that(3) by (simp add: not_less word_le_def)
    then have "uint port = uint (ucast port :: u16)"
      by (simp add: unsigned_ucast_eq take_bit_int_eq_self)
    then show "candidate_transport R all \<lparr>transport_type = ty, io_base = ucast port\<rparr>"
      unfolding candidate_transport_def using that(1,2) bar Cons.prems(1) c by fastforce
  qed
  show ?case
    using IH sound Cons.prems(2)
    by (simp add: c command bar Let_def split: option.split sum.split bar_info.split)
qed simp

text \<open>C31: PCI discovery only takes what it may use. Each device it returns was initialised on a transport
  whose type and port are those of a candidate on the bus, as one of that kind; the disk is writable;
  the network card has the queue and buffer sizes of the kernel. Configuration accesses of different
  functions never share an address.\<close>

theorem discovered_devices_sound:
  "(enumerate_bus R 0 h = (candidates, h') \<longrightarrow> devices_sound R V candidates (fst (discover_pci R V h)))
   \<and> (pci_device f < 32 \<and> pci_function f < 8 \<and> pci_device g < 32 \<and> pci_function g < 8
        \<and> pci_address f r = pci_address g s \<longrightarrow> f = g)"
proof (intro conjI impI)
  show "devices_sound R V candidates (fst (discover_pci R V h))" if "enumerate_bus R 0 h = (candidates, h')"
    using probe_candidates_sound [of candidates candidates R V devices_empty h'] that
    by (simp add: discover_pci_def devices_sound_def devices_empty_def)
  show "f = g" if "pci_device f < 32 \<and> pci_function f < 8 \<and> pci_device g < 32 \<and> pci_function g < 8
      \<and> pci_address f r = pci_address g s"
    using pci_address_inject [of f g r s] that by simp
qed

text \<open>A bus with a read-only and a writable disk.\<close>

definition demo_root :: "(unit, device_type) pci_root" where
  "demo_root = \<lparr>enumerate_bus = (\<lambda>_ h. ([(\<lparr>pci_bus = 0, pci_device = 3, pci_function = 0\<rparr>, BlockType),
       (\<lparr>pci_bus = 0, pci_device = 4, pci_function = 0\<rparr>, BlockType)], h)),
     virtio_device_type = Some, get_command = (\<lambda>_ h. (0, h)), set_command = (\<lambda>_ _ h. h),
     get_bar_info = (\<lambda>f _ h. (Ok (Some (IoBar (if pci_device f = 3 then 0xc000 else 0xc040))), h)),
     io_space = 1, bus_master = 4\<rparr>"

definition demo_disks :: "(u16, u8, unit) virtio" where
  "demo_disks = \<lparr>blk_new = (\<lambda>t. Ok (io_base t)), blk_readonly = (\<lambda>b. b = 0xc000), blk_capacity = (\<lambda>_. 0),
     blk_read_blocks = (\<lambda>_ _ b. (Err ''none'', b)), blk_write_blocks = (\<lambda>_ _ b. (Err ''none'', b)),
     blk_flush = (\<lambda>b. (Ok (), b)), rng_new = (\<lambda>_. Err ''none''), request_entropy = (\<lambda>_ r. (Err ''none'', r)),
     vnet_new = (\<lambda>_ _ _. Err ''none''), vnet_mac_address = (\<lambda>_. []), vnet_can_send = (\<lambda>_. False), vnet_can_recv = (\<lambda>_. False),
     vnet_receive = (\<lambda>k. (Err ''none'', k)), vnet_recycle_rx_buffer = (\<lambda>_ k. k), vnet_send = (\<lambda>_ k. k)\<rparr>"

theorem discovered_devices_sound_witness:
  "set_block (fst (discover_pci demo_root demo_disks ())) = Some 0xc040
   \<and> \<not> blk_readonly demo_disks 0xc040"
proof -
  have run: "set_block (fst (discover_pci demo_root demo_disks ())) = Some 0xc040"
    by (simp add: discover_pci_def demo_root_def demo_disks_def add_transport_def devices_empty_def devices_complete_def)
  moreover have "enumerate_bus demo_root 0 () = (fst (enumerate_bus demo_root 0 ()), ())" by (simp add: demo_root_def)
  then have "devices_sound demo_root demo_disks (fst (enumerate_bus demo_root 0 ())) (fst (discover_pci demo_root demo_disks ()))"
    using discovered_devices_sound [of demo_root] by blast
  ultimately show ?thesis unfolding devices_sound_def by blast
qed

end
