(* ===== verification/Memory.thy ===== *)
theory Memory imports Arch begin

text \<open>
  \<^verbatim>\<open>platforms/bare-metal/src/memory.rs\<close>: the translation between physical and virtual addresses and
  the \<^verbatim>\<open>Hal\<close> that the VirtIO drivers allocate and share their buffers through. The three atomic
  statics are a record; the global allocator with the memory it manages is a parameter. A panic or an
  aborted allocation is the outcome \<open>None\<close>.
\<close>

section \<open>Addresses\<close>

record memory_map =
  hhdm_offset :: u64
  executable_physical :: u64
  executable_virtual :: u64

definition memory_static :: memory_map where
  "memory_static = \<lparr>hhdm_offset = 0, executable_physical = 0, executable_virtual = 0\<rparr>"

definition memory_initialize :: "u64 \<Rightarrow> (u64 \<times> u64) option \<Rightarrow> memory_map \<Rightarrow> memory_map" where
  "memory_initialize hhdm executable_address m = (let m = m\<lparr>hhdm_offset := hhdm\<rparr> in
     case executable_address of None \<Rightarrow> m
     | Some (physical, virtual) \<Rightarrow> m\<lparr>executable_physical := physical, executable_virtual := virtual\<rparr>)"

definition checked_add :: "'a::len word \<Rightarrow> 'a word \<Rightarrow> 'a word option" where
  "checked_add a b = (if uint a + uint b < 2 ^ LENGTH('a) then Some (a + b) else None)"

definition checked_sub :: "'a::len word \<Rightarrow> 'a word \<Rightarrow> 'a word option" where
  "checked_sub a b = (if b \<le> a then Some (a - b) else None)"

text \<open>\<^verbatim>\<open>usize\<close> has 64 bits, and \<^verbatim>\<open>NonNull::new\<close> refuses address zero.\<close>

definition phys_to_virt :: "memory_map \<Rightarrow> u64 \<Rightarrow> u64 option" where
  "phys_to_virt m addr = (case checked_add addr (hhdm_offset m) of
       None \<Rightarrow> None | Some v \<Rightarrow> if v = 0 then None else Some v)"

definition virt_to_phys :: "memory_map \<Rightarrow> u64 \<Rightarrow> u64 option" where
  "virt_to_phys m addr =
     (if executable_virtual m \<noteq> 0 \<and> addr \<ge> executable_virtual m
      then (case checked_sub addr (executable_virtual m) of None \<Rightarrow> None
        | Some offset \<Rightarrow> checked_add offset (executable_physical m))
      else checked_sub addr (hhdm_offset m))"

section \<open>Buffers for devices\<close>

record 'a allocator =
  alloc_zeroed :: "nat \<Rightarrow> nat \<Rightarrow> 'a \<Rightarrow> u64 option \<times> 'a"
  dealloc :: "u64 \<Rightarrow> nat \<Rightarrow> nat \<Rightarrow> 'a \<Rightarrow> 'a"
  load_bytes :: "u64 \<Rightarrow> nat \<Rightarrow> 'a \<Rightarrow> bytes"
  store_bytes :: "u64 \<Rightarrow> bytes \<Rightarrow> 'a \<Rightarrow> 'a"

datatype buffer_direction = DriverToDevice | DeviceToDriver | Both

definition VIRTIO_PAGE :: nat where "VIRTIO_PAGE = 4096"

text \<open>\<^verbatim>\<open>Layout::from_size_align\<close> fails when the size, rounded up to the alignment, exceeds
  \<^verbatim>\<open>isize::MAX\<close>.\<close>

definition layout_ok :: "nat \<Rightarrow> nat \<Rightarrow> bool" where
  "layout_ok amount align \<longleftrightarrow> amount + (align - 1) \<le> 2 ^ 63 - 1"

definition dangling :: u64 where "dangling = 1"

definition dma_alloc :: "'a allocator \<Rightarrow> memory_map \<Rightarrow> nat \<Rightarrow> 'a \<Rightarrow> (u64 \<times> u64) \<times> 'a" where
  "dma_alloc A m pages s =
     (if pages * VIRTIO_PAGE \<ge> 2 ^ 64 then ((0, dangling), s)
      else let amount = pages * VIRTIO_PAGE in
        if \<not> layout_ok amount VIRTIO_PAGE then ((0, dangling), s)
        else case alloc_zeroed A amount VIRTIO_PAGE s of
            (None, s) \<Rightarrow> ((0, dangling), s)
          | (Some pointer, s) \<Rightarrow> (case virt_to_phys m pointer of
                None \<Rightarrow> ((0, dangling), dealloc A pointer amount VIRTIO_PAGE s)
              | Some physical \<Rightarrow> ((physical, pointer), s)))"

definition dma_dealloc :: "'a allocator \<Rightarrow> u64 \<Rightarrow> nat \<Rightarrow> 'a \<Rightarrow> int \<times> 'a" where
  "dma_dealloc A vaddr pages s =
     (if pages * VIRTIO_PAGE \<ge> 2 ^ 64 then (- 1, s)
      else if \<not> layout_ok (pages * VIRTIO_PAGE) VIRTIO_PAGE then (- 1, s)
      else (0, dealloc A vaddr (pages * VIRTIO_PAGE) VIRTIO_PAGE s))"

definition mmio_phys_to_virt :: "memory_map \<Rightarrow> u64 \<Rightarrow> u64 option" where
  "mmio_phys_to_virt m paddr = phys_to_virt m paddr"

definition share :: "'a allocator \<Rightarrow> memory_map \<Rightarrow> u64 \<Rightarrow> nat \<Rightarrow> buffer_direction \<Rightarrow> 'a \<Rightarrow> (u64 \<times> 'a) option" where
  "share A m buffer len direction s =
     (if \<not> layout_ok len 16 then None
      else case alloc_zeroed A len 16 s of
          (None, s) \<Rightarrow> None
        | (Some bounce, s) \<Rightarrow>
            let s = (if direction = DriverToDevice \<or> direction = Both
                     then store_bytes A bounce (load_bytes A buffer len s) s else s)
            in map_option (\<lambda>paddr. (paddr, s)) (virt_to_phys m bounce))"

definition unshare :: "'a allocator \<Rightarrow> memory_map \<Rightarrow> u64 \<Rightarrow> u64 \<Rightarrow> nat \<Rightarrow> buffer_direction \<Rightarrow> 'a \<Rightarrow> 'a option" where
  "unshare A m paddr buffer len direction s = (case phys_to_virt m paddr of
       None \<Rightarrow> None
     | Some bounce \<Rightarrow>
         let s = (if direction = DeviceToDriver \<or> direction = Both
                  then store_bytes A buffer (load_bytes A bounce len s) s else s)
         in if \<not> layout_ok len 16 then None else Some (dealloc A bounce len 16 s))"

section \<open>Translation\<close>

lemma checked_add_Some: "checked_add a b = Some c \<Longrightarrow> c = a + b \<and> b \<le> c \<and> c - b = a"
  for a b :: "'a::len word"
  using no_olen_add [of b a] by (auto simp: checked_add_def add.commute split: if_splits)

text \<open>An address of the direct map, below the kernel image, translates back to where it came from,
  and so does an address of the image.\<close>

lemma virt_phys_heap:
  assumes "phys_to_virt m a = Some v" "executable_virtual m = 0 \<or> v < executable_virtual m"
  shows "virt_to_phys m v = Some a"
proof -
  have "checked_add a (hhdm_offset m) = Some v" using assms(1)
    by (auto simp: phys_to_virt_def split: option.splits if_splits)
  from checked_add_Some [OF this] show ?thesis
    using assms(2) by (auto simp: virt_to_phys_def checked_sub_def)
qed

lemma phys_virt_heap:
  assumes "virt_to_phys m v = Some a" "executable_virtual m = 0 \<or> v < executable_virtual m" "v \<noteq> 0"
  shows "phys_to_virt m a = Some v"
proof -
  have v: "hhdm_offset m \<le> v" "a = v - hhdm_offset m"
    using assms(1,2) by (auto simp: virt_to_phys_def checked_sub_def split: if_splits)
  then have "uint a + uint (hhdm_offset m) = uint v" by (simp add: uint_sub_lem [THEN iffD1] word_le_def)
  then show ?thesis using v assms(3) uint_lt2p [of v] by (simp add: phys_to_virt_def checked_add_def)
qed

lemma virt_phys_image:
  assumes "executable_virtual m \<noteq> 0" "executable_virtual m \<le> v"
    and "uint (v - executable_virtual m) + uint (executable_physical m) < 2 ^ 64"
  shows "virt_to_phys m v = Some (v - executable_virtual m + executable_physical m)"
  using assms by (simp add: virt_to_phys_def checked_sub_def checked_add_def)

section \<open>Bounce buffers\<close>

text \<open>What is assumed of the allocator: a store is what the next load reads, loads have the length
  asked for, a block it hands out lies in the direct map below the kernel image, and freeing a block
  does not change memory elsewhere.\<close>

definition apart :: "u64 \<Rightarrow> nat \<Rightarrow> u64 \<Rightarrow> nat \<Rightarrow> bool" where
  "apart p n q k \<longleftrightarrow> unat p + n \<le> unat q \<or> unat q + k \<le> unat p"

definition allocator_laws :: "'a allocator \<Rightarrow> memory_map \<Rightarrow> bool" where
  "allocator_laws A m \<longleftrightarrow>
     (\<forall>p n s. length (load_bytes A p n s) = n)
     \<and> (\<forall>p d s. load_bytes A p (length d) (store_bytes A p d s) = d)
     \<and> (\<forall>p n q k a s. apart p n q k \<longrightarrow> load_bytes A p n (dealloc A q k a s) = load_bytes A p n s)
     \<and> (\<forall>n a s p s'. alloc_zeroed A n a s = (Some p, s') \<longrightarrow>
          p \<noteq> 0 \<and> (executable_virtual m = 0 \<or> p < executable_virtual m) \<and> hhdm_offset m \<le> p)"


text \<open>An allocator for examples, over a memory that is a map from addresses to bytes: it hands out one
  block above the first mebibyte of the direct map.\<close>

definition demo_map :: memory_map where
  "demo_map = memory_initialize 0x1000 (Some (0x200000, 0xffffffff80000000)) memory_static"

definition demo_allocator :: "(nat \<Rightarrow> u8) allocator" where
  "demo_allocator = \<lparr>alloc_zeroed = (\<lambda>_ _ s. (Some 0x101000, s)), dealloc = (\<lambda>_ _ _ s. s),
     load_bytes = (\<lambda>p n s. map (\<lambda>i. s (unat p + i)) [0..<n]),
     store_bytes = (\<lambda>p d s x. if unat p \<le> x \<and> x < unat p + length d then d ! (x - unat p) else s x)\<rparr>"


end
