(* ===== verification/Kernel.thy ===== *)
theory Kernel
  imports Shell Rhai Bare_Platform Console Devices Memory
begin

text \<open>
  \<^verbatim>\<open>platforms/bare-metal/src/main.rs\<close>: the kernel entry point. It takes what the boot loader
  answered, chooses the heap, sorts the boot modules into the read-only system image and the initial
  files, discovers the devices and starts the shell on the bare-metal platform. Here the machine
  record of that platform is filled with the console, the processor, the VirtIO drivers and the
  network stack of the other theories. A call of \<^verbatim>\<open>fail\<close> is the outcome \<^term>\<open>Inl\<close> with its message; what
  it prints is \<open>kernel_fail\<close>.
\<close>

unbundle bit_operations_syntax

section \<open>The personal computer as a machine\<close>

record ('h, 'r, 'n) pc =
  pc_console :: "'h console"
  pc_entropy :: "'r option"
  pc_net :: "'n net_stack option"

definition pc_on_console :: "('h, 'r, 'n) pc \<Rightarrow> 'h console \<Rightarrow> ('h, 'r, 'n) pc" where
  "pc_on_console pc con = pc\<lparr>pc_console := con\<rparr>"

definition pc_counter :: "'h cpu \<Rightarrow> ('h, 'r, 'n) pc clock" where
  "pc_counter C pc = (case arch_counter C (con_hardware (pc_console pc)) of
     (now, h) \<Rightarrow> (now, pc_on_console pc ((pc_console pc)\<lparr>con_hardware := h\<rparr>)))"

definition pc_entropy_fill :: "('b, 'r, 'k) virtio \<Rightarrow> ('h, 'r, 'n) pc \<Rightarrow> nat \<Rightarrow> ((string + bytes) \<times> ('h, 'r, 'n) pc) option" where
  "pc_entropy_fill V pc n = map_option (\<lambda>r. case virtio_entropy_fill V (replicate n 0) r of
     (result, r) \<Rightarrow> (result, pc\<lparr>pc_entropy := Some r\<rparr>)) (pc_entropy pc)"

definition pc_hardware_random :: "'h cpu \<Rightarrow> ('h, 'r, 'n) pc \<Rightarrow> nat \<Rightarrow> bytes option \<times> ('h, 'r, 'n) pc" where
  "pc_hardware_random C pc n = (case arch_fill_hardware_random C (replicate n 0) (con_hardware (pc_console pc)) of
     ((ok, bs), h) \<Rightarrow> (if ok then Some bs else None, pc_on_console pc ((pc_console pc)\<lparr>con_hardware := h\<rparr>)))"

text \<open>A method of the network stack runs on the stack and on the rest of the machine, which its clock
  and its cancellation probe use.\<close>

definition pc_with_stack :: "('h, 'r, 'n) pc \<Rightarrow> ('n net_stack \<times> ('h, 'r, 'n) pc \<Rightarrow> ('a \<times> 'n net_stack \<times> ('h, 'r, 'n) pc) option)
    \<Rightarrow> ('a \<times> ('h, 'r, 'n) pc) option" where
  "pc_with_stack pc call = (case pc_net pc of None \<Rightarrow> None
     | Some st \<Rightarrow> map_option (\<lambda>(a, st, pc). (a, pc\<lparr>pc_net := Some st\<rparr>)) (call (st, pc)))"

definition pc_machine :: "'h cpu \<Rightarrow> font \<Rightarrow> ('b, 'r, 'k) virtio \<Rightarrow> 'n smoltcp \<Rightarrow> ('h, 'r, 'n) pc machine" where
  "pc_machine C F V N = \<lparr>
     screen_write = (\<lambda>pc text. map_option (pc_on_console pc) (con_write C F (pc_console pc) text)),
     screen_read_line = (\<lambda>pc prompt secret. map_option (\<lambda>(line, con). (line, pc_on_console pc con))
       (con_read_line C F (pc_console pc) prompt secret)),
     screen_clear = (\<lambda>pc. map_option (pc_on_console pc) (con_clear C F (pc_console pc))),
     screen_poll_cancel = (\<lambda>pc. case con_poll_cancel C (pc_console pc) of (b, con) \<Rightarrow> (b, pc_on_console pc con)),
     counter = pc_counter C, entropy_fill = pc_entropy_fill V, fill_hardware_random = pc_hardware_random C,
     stack_poll = (\<lambda>pc now. map_option snd (pc_with_stack pc (\<lambda>(st, pc). map_option (\<lambda>st. ((), st, pc)) (net_poll N now st)))),
     stack_is_configured = (\<lambda>pc. case pc_net pc of None \<Rightarrow> False | Some st \<Rightarrow> is_configured st),
     stack_status = (\<lambda>pc. net_status_of (the (pc_net pc))),
     stack_connect = (\<lambda>clock probe pc host port timeout. pc_with_stack pc (\<lambda>s. net_stack_connect N clock probe s host port timeout)),
     stack_send = (\<lambda>clock probe pc conn data. pc_with_stack pc (\<lambda>s. net_stack_send N clock probe s conn data)),
     stack_recv = (\<lambda>clock probe pc conn n. pc_with_stack pc (\<lambda>s. net_stack_recv N clock probe s conn n)),
     stack_close = (\<lambda>clock pc conn. map_option snd (pc_with_stack pc (\<lambda>s. map_option (Pair ()) (net_stack_close N clock s conn)))),
     machine_version = ''0.2.0'', machine_architecture = ''x86_64''\<rparr>"

section \<open>What the boot loader provides\<close>

record memmap_entry =
  region_base :: u64
  region_length :: u64
  region_usable :: bool

record boot_module =
  module_cmdline :: string
  module_data :: bytes

record boot_info =
  base_revision_supported :: bool
  hhdm_response :: "u64 option"
  executable_response :: "(u64 \<times> u64) option"
  memmap_response :: "memmap_entry list option"
  modules_response :: "boot_module list option"
  framebuffer_response :: "framebuffer list option"
  tsc_frequency_response :: "u64 option"

definition kernel_fail :: "'h cpu \<Rightarrow> string \<Rightarrow> 'h \<Rightarrow> 'h option" where
  "kernel_fail C message h = (case emergency_write C ([CHR 0x0A] @ ''AFOS kernel: '') h of None \<Rightarrow> None
     | Some h \<Rightarrow> (case emergency_write C message h of None \<Rightarrow> None
         | Some h \<Rightarrow> emergency_write C [CHR 0x0A] h))"

section \<open>The heap\<close>

definition MAX_HEAP_SIZE :: u64 where "MAX_HEAP_SIZE = 128 * 1024 * 1024"
definition MIN_HEAP_SIZE :: u64 where "MIN_HEAP_SIZE = 8 * 1024 * 1024"
definition PAGE_SIZE :: u64 where "PAGE_SIZE = 4096"

text \<open>\<^verbatim>\<open>Iterator::max_by_key\<close>: the last of the largest.\<close>

fun max_by_key :: "('a \<Rightarrow> 'k::linorder) \<Rightarrow> 'a list \<Rightarrow> 'a option" where
  "max_by_key key [] = None"
| "max_by_key key (x # xs) = (case max_by_key key xs of None \<Rightarrow> Some x
     | Some y \<Rightarrow> if key x \<le> key y then Some y else Some x)"

definition heap_region :: "memmap_entry \<Rightarrow> (u64 \<times> u64) option" where
  "heap_region e = (case checked_add (region_base e) (PAGE_SIZE - 1) of None \<Rightarrow> None
     | Some end_of_page \<Rightarrow> (let aligned = end_of_page AND NOT (PAGE_SIZE - 1) in
       case checked_sub aligned (region_base e) of None \<Rightarrow> None
     | Some skipped \<Rightarrow> (case checked_sub (region_length e) skipped of None \<Rightarrow> None
     | Some rest \<Rightarrow> (let available = rest AND NOT (PAGE_SIZE - 1) in
       if available \<ge> MIN_HEAP_SIZE then Some (aligned, min available MAX_HEAP_SIZE) else None))))"

definition initialize_heap :: "boot_info \<Rightarrow> string + (memory_map \<times> u64 \<times> u64)" where
  "initialize_heap B = (case hhdm_response B of
       None \<Rightarrow> Inl ''Limine did not provide a higher-half direct map''
     | Some hhdm \<Rightarrow> (let m = memory_initialize hhdm (executable_response B) memory_static in
       case memmap_response B of
         None \<Rightarrow> Inl ''Limine did not provide a memory map''
       | Some entries \<Rightarrow> (case max_by_key snd (List.map_filter heap_region (filter region_usable entries)) of
           None \<Rightarrow> Inl ''no suitable usable memory region exists for the heap''
         | Some (physical, len) \<Rightarrow> (case phys_to_virt m physical of
             None \<Rightarrow> Inl ''heap address is outside the higher-half direct map''
           | Some pointer \<Rightarrow> Inr (m, pointer, len)))))"

section \<open>Boot files\<close>

definition boot_path :: "string \<Rightarrow> bool" where
  "boot_path path \<longleftrightarrow> path = ''/sys'' \<or> starts_with ''/sys/'' path \<or> path = ''/apps'' \<or> starts_with ''/apps/'' path
     \<or> path = ''/user'' \<or> starts_with ''/user/'' path"

fun load_modules :: "boot_module list \<Rightarrow> embedded_file list \<Rightarrow> initial_file list
    \<Rightarrow> (embedded_file list \<times> initial_file list) option" where
  "load_modules [] system mutable = Some (system, mutable)"
| "load_modules (m # ms) system mutable = (case strip_prefix ''afos-file:'' (module_cmdline m) of
       None \<Rightarrow> load_modules ms system mutable
     | Some path \<Rightarrow>
         if \<not> boot_path path \<or> normalize_path ''/'' path \<noteq> Ok path then None
         else if path = ''/sys'' \<or> starts_with ''/sys/'' path
         then load_modules ms (system @ [\<lparr>file_path = path, file_data = module_data m\<rparr>]) mutable
         else (case strip_prefix ''/'' path of None \<Rightarrow> None
           | Some relative \<Rightarrow> load_modules ms system (mutable @ [\<lparr>initial_path = relative, initial_data = module_data m\<rparr>])))"

definition load_boot_files :: "boot_module list \<Rightarrow> (embedded_file list \<times> initial_file list) option" where
  "load_boot_files modules = (case load_modules modules [] [] of None \<Rightarrow> None
     | Some (system, mutable) \<Rightarrow> if system = [] then None else Some (system, mutable))"

section \<open>Starting\<close>

text \<open>The part of \<^verbatim>\<open>BareMetalPlatform::new\<close> that makes the network stack and the console and reads the
  counter. \<open>attach\<close> is the library's interface over the driver.\<close>

definition platform_setup :: "'h cpu \<Rightarrow> ('b, 'r, 'k) virtio \<Rightarrow> 'n smoltcp \<Rightarrow> ('k \<Rightarrow> 'n) \<Rightarrow> framebuffer option
    \<Rightarrow> ('b, 'r, 'k) device_set \<Rightarrow> 'h \<Rightarrow> (('h, 'r, 'n) pc \<times> u64) option" where
  "platform_setup C V N attach framebuffer devices h =
     (let (net, h) = (case set_net devices of None \<Rightarrow> (None, h)
            | Some k \<Rightarrow> (case arch_counter C h of (seed, h) \<Rightarrow>
                (Some (net_new N (vnet_mac_address V k) (attach k) 0 seed), h)))
      in case con_new h framebuffer of None \<Rightarrow> None
       | Some con \<Rightarrow> (case arch_counter C (con_hardware con) of (start, h) \<Rightarrow>
           Some (\<lparr>pc_console = con\<lparr>con_hardware := h\<rparr>, pc_entropy = set_entropy devices, pc_net = net\<rparr>, start)))"

definition tsc_frequency :: "boot_info \<Rightarrow> u64" where
  "tsc_frequency B = (case tsc_frequency_response B of None \<Rightarrow> 1000000 | Some frequency \<Rightarrow> max frequency 1)"

definition boot_framebuffer :: "boot_info \<Rightarrow> framebuffer option" where
  "boot_framebuffer B = (case framebuffer_response B of Some (f # _) \<Rightarrow> Some f | _ \<Rightarrow> None)"

text \<open>The middle of \<^verbatim>\<open>_start\<close>: the devices, the platform and the runtime.\<close>

definition boot_afos :: "'h cpu \<Rightarrow> ('b, 'r, 'k) virtio \<Rightarrow> ('h, 'i) pci_root \<Rightarrow> 'n smoltcp \<Rightarrow> ('k \<Rightarrow> 'n)
    \<Rightarrow> (string \<Rightarrow> script) \<Rightarrow> boot_info \<Rightarrow> embedded_file list \<Rightarrow> initial_file list \<Rightarrow> 'h
    \<Rightarrow> (string + ('b, ('h, 'r, 'n) pc) bare_metal afos) option" where
  "boot_afos C V R N attach engine B system mutable h =
     (let (devices, h) = discover_pci R V h
      in case bare_new (virtio_block V) (platform_setup C V N attach (boot_framebuffer B) devices h) (tsc_frequency B)
          mutable (set_block devices) (set_entropy devices \<noteq> None) (set_net devices \<noteq> None) of
        None \<Rightarrow> None
      | Some (Inl e) \<Rightarrow> Some (Inl (display_error e))
      | Some (Inr p) \<Rightarrow> (case register_runtime (rhai_runtime engine) (afos_with_system_files p system) of
          (Inl _, _) \<Rightarrow> Some (Inl ''failed to register Rhai'')
        | (Inr _, f) \<Rightarrow> Some (Inr f)))"

text \<open>\<^verbatim>\<open>_start\<close> up to the shell.\<close>

definition kernel_boot :: "'h cpu \<Rightarrow> ('b, 'r, 'k) virtio \<Rightarrow> ('h, 'i) pci_root \<Rightarrow> 'n smoltcp \<Rightarrow> ('k \<Rightarrow> 'n)
    \<Rightarrow> (string \<Rightarrow> script) \<Rightarrow> boot_info \<Rightarrow> 'h \<Rightarrow> (string + ('b, ('h, 'r, 'n) pc) bare_metal afos) option" where
  "kernel_boot C V R N attach engine B h = (let h = initialize_com1 C h in
     if \<not> base_revision_supported B then Some (Inl ''unsupported Limine boot protocol revision'')
     else case initialize_heap B of Inl message \<Rightarrow> Some (Inl message)
     | Inr _ \<Rightarrow> (case modules_response B of
         None \<Rightarrow> Some (Inl ''Limine did not provide the AFOS filesystem'')
       | Some modules \<Rightarrow> (case load_boot_files modules of
           None \<Rightarrow> Some (Inl ''Limine filesystem modules are invalid'')
         | Some (system, mutable) \<Rightarrow> boot_afos C V R N attach engine B system mutable h)))"

definition kernel_start :: "argon2 \<Rightarrow> 'h cpu \<Rightarrow> font \<Rightarrow> ('b, 'r, 'k) virtio \<Rightarrow> ('h, 'i) pci_root \<Rightarrow> 'n smoltcp \<Rightarrow> ('k \<Rightarrow> 'n)
    \<Rightarrow> (string \<Rightarrow> script) \<Rightarrow> boot_info \<Rightarrow> 'h \<Rightarrow> (string + ('b, ('h, 'r, 'n) pc) bare_metal afos) option" where
  "kernel_start A C F V R N attach engine B h = (case kernel_boot C V R N attach engine B h of
       None \<Rightarrow> None
     | Some (Inl message) \<Rightarrow> Some (Inl message)
     | Some (Inr f) \<Rightarrow> (case run_interactive A (bare_platform (virtio_block V) (pc_machine C F V N)) f
           \<lparr>interactive_setup = False, banner = True\<rparr> of
         None \<Rightarrow> None
       | Some (Inl _, f) \<Rightarrow> Some (Inl ''AFOS stopped after a platform error'')
       | Some (Inr _, f) \<Rightarrow> Some (Inr f)))"

section \<open>The heap lies in usable memory\<close>

lemma max_by_key_None: "max_by_key key xs = None \<longleftrightarrow> xs = []"
  by (cases xs) (auto split: option.split)

lemma max_by_key_Some:
  "max_by_key key xs = Some x \<Longrightarrow> x \<in> set xs \<and> (\<forall>y\<in>set xs. key y \<le> key x)"
proof (induction xs arbitrary: x)
  case (Cons a xs)
  show ?case
  proof (cases "max_by_key key xs")
    case None
    then show ?thesis using Cons.prems by (simp add: max_by_key_None)
  next
    case (Some y)
    then show ?thesis using Cons.prems Cons.IH [OF Some] by (auto split: if_splits intro: order_trans)
  qed
qed simp

lemma page_floor: "uint (w AND NOT (PAGE_SIZE - 1)) = uint w div 4096 * 4096"
proof -
  have "PAGE_SIZE - 1 = mask 12" by (simp add: PAGE_SIZE_def mask_eq_exp_minus_1)
  moreover have "w AND NOT (mask 12) = push_bit 12 (drop_bit 12 w)" by (rule bit_eqI) (auto simp: bit_simps)
  moreover have "uint (push_bit 12 (drop_bit 12 w)) = uint w div 4096 * 4096"
  proof -
    have "uint (w div 4096) * uint (4096 :: u64) < 2 ^ LENGTH(64)" using uint_lt2p [of w] by (simp add: uint_div)
    from uint_mult_lem [THEN iffD1, OF this] show ?thesis by (simp add: push_bit_eq_mult drop_bit_eq_div uint_div)
  qed
  ultimately show ?thesis by simp
qed

lemma heap_region_Some:
  assumes "heap_region e = Some (physical, len)"
  shows "4096 dvd uint physical" "4096 dvd uint len" "MIN_HEAP_SIZE \<le> len" "len \<le> MAX_HEAP_SIZE"
    "uint (region_base e) \<le> uint physical"
    "uint physical + uint len \<le> uint (region_base e) + uint (region_length e)"
proof -
  from assms obtain a skipped rest where
    a: "checked_add (region_base e) (PAGE_SIZE - 1) = Some a" "physical = a AND NOT (PAGE_SIZE - 1)"
    and s: "checked_sub physical (region_base e) = Some skipped" "checked_sub (region_length e) skipped = Some rest"
    and l: "MIN_HEAP_SIZE \<le> rest AND NOT (PAGE_SIZE - 1)" "len = min (rest AND NOT (PAGE_SIZE - 1)) MAX_HEAP_SIZE"
    by (auto simp: heap_region_def Let_def split: option.splits if_splits)
  show "4096 dvd uint physical" using a(2) page_floor [of a] by simp
  have rest: "uint (rest AND NOT (PAGE_SIZE - 1)) = uint rest div 4096 * 4096" by (rule page_floor)
  have max: "uint MAX_HEAP_SIZE = 4096 * 32768" by (simp add: MAX_HEAP_SIZE_def)
  show "4096 dvd uint len" using l(2) rest max by (auto simp: min_def)
  show "MIN_HEAP_SIZE \<le> len" using l by (simp add: MIN_HEAP_SIZE_def MAX_HEAP_SIZE_def)
  show "len \<le> MAX_HEAP_SIZE" using l by simp
  have base: "region_base e \<le> physical" "skipped = physical - region_base e"
    using s(1) by (auto simp: checked_sub_def split: if_splits)
  then show "uint (region_base e) \<le> uint physical" by (simp add: word_le_def)
  have "skipped \<le> region_length e" "rest = region_length e - skipped"
    using s(2) by (auto simp: checked_sub_def split: if_splits)
  then have "uint rest = uint (region_length e) - uint skipped" "uint skipped = uint physical - uint (region_base e)"
    using base by (simp_all add: uint_minus_simple_alt word_le_def)
  moreover have "uint len \<le> uint rest div 4096 * 4096"
    using l(2) rest by (simp add: min_def word_le_def split: if_splits)
  moreover have "uint rest div 4096 * 4096 \<le> uint rest" by simp
  ultimately show "uint physical + uint len \<le> uint (region_base e) + uint (region_length e)" by linarith
qed

lemma heap_candidates:
  "area \<in> set (List.map_filter heap_region (filter region_usable entries))
     \<longleftrightarrow> (\<exists>e\<in>set entries. region_usable e \<and> heap_region e = Some area)"
  by (induction entries) (auto simp: map_filter_simps split: option.split)

lemma initialize_heap_InrE:
  assumes "initialize_heap B = Inr (m, pointer, len)"
  obtains hhdm entries e physical where "hhdm_response B = Some hhdm" "memmap_response B = Some entries"
    "m = memory_initialize hhdm (executable_response B) memory_static" "phys_to_virt m physical = Some pointer"
    "e \<in> set entries" "region_usable e" "heap_region e = Some (physical, len)"
    "\<And>e' area. e' \<in> set entries \<Longrightarrow> region_usable e' \<Longrightarrow> heap_region e' = Some area \<Longrightarrow> snd area \<le> len"
proof -
  from assms obtain hhdm entries physical where B: "hhdm_response B = Some hhdm" "memmap_response B = Some entries"
    and m: "m = memory_initialize hhdm (executable_response B) memory_static"
    and max: "max_by_key snd (List.map_filter heap_region (filter region_usable entries)) = Some (physical, len)"
    and virt: "phys_to_virt m physical = Some pointer"
    by (auto simp: initialize_heap_def Let_def split: option.splits)
  from max_by_key_Some [OF max] obtain e where "e \<in> set entries" "region_usable e" "heap_region e = Some (physical, len)"
    by (auto simp: heap_candidates)
  moreover have "snd area \<le> len" if "e' \<in> set entries" "region_usable e'" "heap_region e' = Some area" for e' area
    using max_by_key_Some [OF max] that by (metis heap_candidates snd_conv)
  ultimately show thesis using B m virt that by blast
qed

lemma initialize_heap_Inl:
  assumes "initialize_heap B = Inl message" "hhdm_response B = Some hhdm" "memmap_response B = Some entries"
  shows "(\<forall>e\<in>set entries. region_usable e \<longrightarrow> heap_region e = None)
    \<or> (\<exists>e\<in>set entries. \<exists>area. region_usable e \<and> heap_region e = Some area
         \<and> phys_to_virt (memory_initialize hhdm (executable_response B) memory_static) (fst area) = None)"
proof (cases "max_by_key snd (List.map_filter heap_region (filter region_usable entries))")
  case None
  then have "heap_region e \<noteq> Some area" if "e \<in> set entries" "region_usable e" for e area
    using heap_candidates [of area entries] that by (auto simp: max_by_key_None)
  then show ?thesis by fastforce
next
  case (Some area)
  then have "phys_to_virt (memory_initialize hhdm (executable_response B) memory_static) (fst area) = None"
    using assms by (auto simp: initialize_heap_def Let_def split: option.splits prod.splits)
  moreover obtain e where "e \<in> set entries" "region_usable e" "heap_region e = Some area"
    using max_by_key_Some [OF Some] heap_candidates [of area entries] by auto
  ultimately show ?thesis by blast
qed


definition demo_boot :: boot_info where
  "demo_boot = \<lparr>base_revision_supported = True, hhdm_response = Some 0x1000000000, executable_response = None,
     memmap_response = Some [\<lparr>region_base = 0, region_length = 0x9fc00, region_usable = True\<rparr>,
       \<lparr>region_base = 0x100800, region_length = 0x1000000, region_usable = True\<rparr>],
     modules_response = Some [\<lparr>module_cmdline = ''afos-file:/sys/apps/w.rhai'', module_data = [1]\<rparr>,
       \<lparr>module_cmdline = ''afos-file:/user/a'', module_data = [7]\<rparr>],
     framebuffer_response = None, tsc_frequency_response = Some 3000000000\<rparr>"

lemma demo_heap:
  "initialize_heap demo_boot = Inr (\<lparr>hhdm_offset = 0x1000000000, executable_physical = 0, executable_virtual = 0\<rparr>,
      0x1000101000, 0xfff000)"
  by (simp add: initialize_heap_def demo_boot_def map_filter_def heap_region_def memory_initialize_def memory_static_def
      checked_add_def checked_sub_def phys_to_virt_def PAGE_SIZE_def MIN_HEAP_SIZE_def MAX_HEAP_SIZE_def)


section \<open>Boot files arrive in the file system\<close>

definition module_path :: "boot_module \<Rightarrow> string option" where
  "module_path m = strip_prefix ''afos-file:'' (module_cmdline m)"

lemma module_path_Some_iff: "module_path m = Some path \<longleftrightarrow> module_cmdline m = ''afos-file:'' @ path"
  by (simp add: module_path_def strip_prefix_Some_iff)

lemma boot_path_iff:
  "boot_path path \<longleftrightarrow> at_or_below ''/sys'' path \<or> at_or_below ''/apps'' path \<or> at_or_below ''/user'' path"
  by (auto simp: boot_path_def at_or_below_def)

lemma boot_path_slash: "boot_path path \<Longrightarrow> \<exists>q. path = slash # q"
  by (auto simp: boot_path_def starts_with_iff)

text \<open>What an accepted list of modules stands for: the system image below \<^verbatim>\<open>/sys\<close> and the other files,
  both in the order of the modules.\<close>

definition accepted_modules :: "boot_module list \<Rightarrow> bool" where
  "accepted_modules ms \<longleftrightarrow> (\<forall>m\<in>set ms. \<forall>path. module_path m = Some path \<longrightarrow> boot_path path \<and> canonical path)"

definition system_part :: "boot_module \<Rightarrow> embedded_file option" where
  "system_part m = (case module_path m of None \<Rightarrow> None
     | Some path \<Rightarrow> if at_or_below ''/sys'' path then Some \<lparr>file_path = path, file_data = module_data m\<rparr> else None)"

definition mutable_part :: "boot_module \<Rightarrow> initial_file option" where
  "mutable_part m = (case module_path m of None \<Rightarrow> None
     | Some path \<Rightarrow> if at_or_below ''/sys'' path then None else Some \<lparr>initial_path = tl path, initial_data = module_data m\<rparr>)"

lemma normalize_fixed_iff: "normalize_path ''/'' path = Ok path \<longleftrightarrow> canonical path"
  using normalize_root_canonical normalize_canonical by blast

lemma load_modules_eq:
  "load_modules ms system mutable = (if accepted_modules ms
     then Some (system @ List.map_filter system_part ms, mutable @ List.map_filter mutable_part ms) else None)"
proof (induction ms arbitrary: system mutable)
  case (Cons m ms)
  show ?case
  proof (cases "module_path m")
    case None
    then have "accepted_modules (m # ms) \<longleftrightarrow> accepted_modules ms" by (simp add: accepted_modules_def)
    then show ?thesis using None Cons.IH
      by (simp add: map_filter_simps system_part_def [of m] mutable_part_def [of m] flip: module_path_def)
  next
    case (Some path)
    then have acc: "accepted_modules (m # ms) \<longleftrightarrow> boot_path path \<and> canonical path \<and> accepted_modules ms"
      by (auto simp: accepted_modules_def)
    have sys: "path = ''/sys'' \<or> starts_with ''/sys/'' path \<longleftrightarrow> at_or_below ''/sys'' path"
      by (simp add: at_or_below_def)
    show ?thesis
    proof (cases "boot_path path \<and> canonical path")
      case True
      then obtain q where "path = slash # q" using boot_path_slash by blast
      then have strip: "strip_prefix ''/'' path = Some (tl path)" by (simp add: strip_prefix_Some_iff)
      show ?thesis using True acc strip Some Cons.IH
        by (simp add: map_filter_simps system_part_def [of m] mutable_part_def [of m] normalize_fixed_iff sys flip: module_path_def)
    next
      case False
      then show ?thesis using acc Some by (auto simp: normalize_fixed_iff simp flip: module_path_def)
    qed
  qed
qed (simp add: accepted_modules_def map_filter_simps)


lemma bare_new_fresh:
  assumes "installable fs" "bare_new D (Some (h, start)) frequency fs block entropy net = Some (Ok q)"
    and "case block of None \<Rightarrow> True | Some d \<Rightarrow> \<exists>store. snapshot_open D d = Some (Ok (store, None))"
  shows "bare_good q \<and> bare_files q = map_of (rev (initial_entries fs))"
proof -
  have "tree_shape empty_tree" by (simp add: empty_tree_def tree_shape_def shape_def)
  from install_files_ok [OF this assms(1)] obtain t where t: "install_files fs empty_tree = (Ok (), t)"
    "tree_shape t" "map_of (tree_files t) = map_of (rev (initial_entries fs))"
    by (auto simp: empty_tree_def)
  have "bare_tree q = t"
    using assms(2,3) t(1) by (auto simp: bare_new_def Let_def persist_def empty_tree_def
        split: option.splits sum.splits prod.splits if_splits)
  then show ?thesis using t(2,3) by (simp add: bare_good_def bare_files_def)
qed

text \<open>No file of the list lies below another one, and no path is given twice.\<close>

definition coherent_modules :: "boot_module list \<Rightarrow> bool" where
  "coherent_modules ms \<longleftrightarrow> (\<forall>m\<in>set ms. \<forall>m'\<in>set ms. \<forall>path path'. module_path m = Some path \<and> module_path m' = Some path'
     \<longrightarrow> (path = path' \<longrightarrow> m = m') \<and> (at_or_below path path' \<longrightarrow> path = path'))"

lemma map_filter_mem: "x \<in> set (List.map_filter f xs) \<longleftrightarrow> (\<exists>y\<in>set xs. f y = Some x)"
  by (induction xs) (auto simp: map_filter_simps split: option.split)

lemma system_part_Some_iff:
  "system_part m = Some f \<longleftrightarrow> module_path m = Some (file_path f) \<and> at_or_below ''/sys'' (file_path f) \<and> file_data f = module_data m"
  by (cases f) (auto simp: system_part_def split: option.split)

lemma mutable_part_Some_iff:
  assumes "\<And>path. module_path m = Some path \<Longrightarrow> boot_path path"
  shows "mutable_part m = Some f \<longleftrightarrow> module_path m = Some (slash # initial_path f)
     \<and> \<not> at_or_below ''/sys'' (slash # initial_path f) \<and> initial_data f = module_data m"
proof (cases "module_path m")
  case (Some path)
  then obtain q where "path = slash # q" using assms boot_path_slash by blast
  then show ?thesis using Some by (cases f) (auto simp: mutable_part_def)
qed (simp add: mutable_part_def)

lemma system_part_mem:
  "f \<in> set (List.map_filter system_part ms) \<longleftrightarrow> (\<exists>m\<in>set ms. module_path m = Some (file_path f)
     \<and> at_or_below ''/sys'' (file_path f) \<and> file_data f = module_data m)"
  by (simp only: map_filter_mem system_part_Some_iff)

lemma mutable_part_mem:
  assumes "accepted_modules ms"
  shows "f \<in> set (List.map_filter mutable_part ms) \<longleftrightarrow> (\<exists>m\<in>set ms. module_path m = Some (slash # initial_path f)
     \<and> \<not> at_or_below ''/sys'' (slash # initial_path f) \<and> initial_data f = module_data m)"
  using assms mutable_part_Some_iff by (simp add: map_filter_mem accepted_modules_def)

lemma mutable_mount_path:
  assumes "accepted_modules ms" "f \<in> set (List.map_filter mutable_part ms)"
  shows "mount_path (initial_path f)"
  using assms(1) assms(2) [unfolded mutable_part_mem [OF assms(1)]]
  by (auto simp: accepted_modules_def mount_path_def boot_path_iff is_path_prefix_iff at_or_below_def starts_with_def)

lemma modules_installable:
  assumes "accepted_modules ms" "coherent_modules ms"
  shows "installable (List.map_filter mutable_part ms)"
  unfolding installable_def
proof (intro ballI conjI)
  fix f g assume f: "f \<in> set (List.map_filter mutable_part ms)" and g: "g \<in> set (List.map_filter mutable_part ms)"
  show "storage_path (initial_path f)" using mount_storage_path [OF mutable_mount_path [OF assms(1) f]] .
  obtain m m' where "m \<in> set ms" "m' \<in> set ms" "module_path m = Some (slash # initial_path f)"
    "module_path m' = Some (slash # initial_path g)"
    using f g mutable_part_mem [OF assms(1)] by blast
  then have "at_or_below (slash # initial_path g) (slash # initial_path f) \<longrightarrow> slash # initial_path g = slash # initial_path f"
    using assms(2) unfolding coherent_modules_def by blast
  then show "initial_path g = initial_path f \<or> \<not> at_or_below (initial_path g) (initial_path f)"
    by (auto simp: at_or_below_def starts_with_def)
qed

lemma map_of_unique: "(k, v) \<in> set xs \<Longrightarrow> (\<And>v'. (k, v') \<in> set xs \<Longrightarrow> v' = v) \<Longrightarrow> map_of xs k = Some v"
  by (metis map_of_SomeD weak_map_of_SomeI)

text \<open>No disk was found, or the disk holds no snapshot yet.\<close>

definition fresh_disk :: "('b, 'r, 'k) virtio \<Rightarrow> 'b option \<Rightarrow> bool" where
  "fresh_disk V block \<longleftrightarrow> (case block of None \<Rightarrow> True | Some d \<Rightarrow> \<exists>store. snapshot_open (virtio_block V) d = Some (Ok (store, None)))"

lemma register_rhai:
  "register_runtime (rhai_runtime engine) (afos_with_system_files p system)
     = (Ok (), (afos_with_system_files p system)\<lparr>afos_runtimes := \<lparr>runtimes = [rhai_runtime engine]\<rparr>\<rparr>)"
  by (simp add: register_runtime_def afos_with_system_files_def registry_new_def register_def)

lemma bare_new_prepared: "bare_new D prepared frequency fs block entropy net = Some (Ok p) \<Longrightarrow> \<exists>s. prepared = Some s"
  by (cases prepared) (auto simp: bare_new_def split: option.split_asm sum.split_asm prod.split_asm)

lemma boot_afos_InrE:
  assumes "boot_afos C V R N attach engine B system mutable h = Some (Inr f)"
  obtains devices h' prepared p where "discover_pci R V h = (devices, h')"
    "bare_new (virtio_block V) (Some prepared) (tsc_frequency B) mutable (set_block devices)
      (set_entropy devices \<noteq> None) (set_net devices \<noteq> None) = Some (Ok p)"
    "f = (afos_with_system_files p system)\<lparr>afos_runtimes := \<lparr>runtimes = [rhai_runtime engine]\<rparr>\<rparr>"
proof -
  obtain devices h' where d: "discover_pci R V h = (devices, h')" by fastforce
  from assms obtain p where p: "bare_new (virtio_block V) (platform_setup C V N attach (boot_framebuffer B) devices h')
      (tsc_frequency B) mutable (set_block devices) (set_entropy devices \<noteq> None) (set_net devices \<noteq> None) = Some (Ok p)"
    "f = (afos_with_system_files p system)\<lparr>afos_runtimes := \<lparr>runtimes = [rhai_runtime engine]\<rparr>\<rparr>"
    unfolding boot_afos_def Let_def d prod.case register_rhai sum.case
    by (auto split: option.split_asm sum.split_asm)
  then show thesis using that d bare_new_prepared [OF p(1)] by metis
qed

lemma kernel_boot_InrE:
  assumes "kernel_boot C V R N attach engine B h = Some (Inr f)"
  obtains modules where "modules_response B = Some modules" "accepted_modules modules"
    "boot_afos C V R N attach engine B (List.map_filter system_part modules) (List.map_filter mutable_part modules)
       (initialize_com1 C h) = Some (Inr f)"
proof (cases "initialize_heap B")
  case (Inr heap)
  show thesis
  proof (cases "modules_response B")
    case (Some modules)
    then show thesis using that [of modules] assms Inr
      by (simp add: kernel_boot_def Let_def load_boot_files_def load_modules_eq split: if_split_asm)
  qed (use assms Inr in \<open>simp add: kernel_boot_def Let_def split: if_split_asm\<close>)
qed (use assms in \<open>simp add: kernel_boot_def Let_def split: if_split_asm\<close>)

lemma coherent_unique:
  "coherent_modules ms \<Longrightarrow> m \<in> set ms \<Longrightarrow> m' \<in> set ms \<Longrightarrow> module_path m = Some path \<Longrightarrow> module_path m' = Some path \<Longrightarrow> m' = m"
  by (auto simp: coherent_modules_def)

lemma system_module_found:
  assumes "coherent_modules ms" "m \<in> set ms" "module_path m = Some path" "at_or_below ''/sys'' path"
  shows "map_option file_data (find (\<lambda>f. file_path f = path) (List.map_filter system_part ms)) = Some (module_data m)"
proof (cases "find (\<lambda>f. file_path f = path) (List.map_filter system_part ms)")
  case None
  then show ?thesis
    using assms(2-4) system_part_mem [of "\<lparr>file_path = path, file_data = module_data m\<rparr>" ms] by (auto simp: find_None_iff)
next
  case (Some f)
  then have "f \<in> set (List.map_filter system_part ms)" "file_path f = path" by (auto simp: find_Some_iff)
  then show ?thesis using Some coherent_unique [OF assms(1,2)] assms(3) by (auto simp: system_part_mem)
qed

lemma mutable_module_found:
  assumes "coherent_modules ms" "accepted_modules ms" "m \<in> set ms" "module_path m = Some (slash # q)" "\<not> at_or_below ''/sys'' (slash # q)"
  shows "map_of (rev (initial_entries (List.map_filter mutable_part ms))) q = Some (module_data m)"
proof (rule map_of_unique)
  show "(q, module_data m) \<in> set (rev (initial_entries (List.map_filter mutable_part ms)))"
    using assms(3-5) mutable_part_mem [OF assms(2), of "\<lparr>initial_path = q, initial_data = module_data m\<rparr>"]
    by (force simp: initial_entries_def)
  show "d = module_data m" if "(q, d) \<in> set (rev (initial_entries (List.map_filter mutable_part ms)))" for d
    using that coherent_unique [OF assms(1,3) _ assms(4)] by (auto simp: initial_entries_def mutable_part_mem [OF assms(2)])
qed

lemma boot_file_readable:
  assumes "accepted_modules ms" "coherent_modules ms" "m \<in> set ms" "module_path m = Some path"
    and "bare_good p" "bare_files p = map_of (rev (initial_entries (List.map_filter mutable_part ms)))"
  shows "vfs_read (bare_platform D M) (vfs_with_system_files p (List.map_filter system_part ms)) path
    = Some (Ok (module_data m), vfs_with_system_files p (List.map_filter system_part ms))"
proof -
  have path: "boot_path path" "canonical path" using assms(1,3,4) by (auto simp: accepted_modules_def)
  then have norm: "normalize_path ''/'' path = Ok path" by (simp add: normalize_fixed_iff)
  show ?thesis
  proof (cases "at_or_below ''/sys'' path")
    case True
    then show ?thesis using system_module_found [OF assms(2-4) True] norm
      by (auto simp: vfs_read_def is_path_prefix_iff system_file_def vfs_with_system_files_def)
  next
    case False
    obtain q where q: "path = slash # q" using boot_path_slash [OF path(1)] by blast
    have "at_or_below ''apps'' q \<or> at_or_below ''user'' q"
      using path(1) False by (auto simp: q boot_path_iff at_or_below_def starts_with_def)
    then have "persistent_path path = Ok q"
      by (auto simp: persistent_path_def q is_path_prefix_iff strip_prefix_def starts_with_def at_or_below_def)
    moreover have "map_of (tree_files (bare_tree p)) q = Some (module_data m)"
      using mutable_module_found [OF assms(2,1,3)] assms(4,6) False by (simp add: q bare_files_def)
    moreover from this have "q \<notin> set (tree_directories (bare_tree p))"
      using assms(5) by (auto simp: bare_good_def tree_shape_def shape_def)
    ultimately show ?thesis using norm False
      by (simp add: vfs_read_def is_path_prefix_iff bare_platform_def bare_read_def on_platform_def vfs_with_system_files_def)
  qed
qed

text \<open>C4: a first boot makes every file available. When the kernel gets as far as the shell on a machine
  without a disk, or with a blank one, then each file module can be read, unchanged, at the path that its
  command line names; and the invariants on which the properties of the file system, the
  sessions and the shell rest are established.\<close>

theorem booted_system:
  assumes boot: "kernel_boot C V R N attach engine B h = Some (Inr f)"
    and modules: "modules_response B = Some modules" "coherent_modules modules"
    and fresh: "fresh_disk V (set_block (fst (discover_pci R V (initialize_com1 C h))))"
  shows "sys_good bare_good (List.map_filter system_part modules) (afos_system f) \<and> canonical (afos_cwd f)
    \<and> afos_runtimes f = \<lparr>runtimes = [rhai_runtime engine]\<rparr>
    \<and> (\<forall>m\<in>set modules. \<forall>path. module_cmdline m = ''afos-file:'' @ path \<longrightarrow>
         vfs_read (bare_platform (virtio_block V) M) (afos_vfs f) path = Some (Ok (module_data m), afos_vfs f))"
proof -
  from boot modules(1) have acc: "accepted_modules modules"
    and run: "boot_afos C V R N attach engine B (List.map_filter system_part modules) (List.map_filter mutable_part modules)
       (initialize_com1 C h) = Some (Inr f)"
    by (auto elim: kernel_boot_InrE)
  note installable = modules_installable [OF acc modules(2)]
  from run show ?thesis
  proof (cases rule: boot_afos_InrE)
    case (1 devices h' prepared p)
    obtain h0 start where prep: "prepared = (h0, start)" by (cases prepared)
    have good: "bare_good p" and files: "bare_files p = map_of (rev (initial_entries (List.map_filter mutable_part modules)))"
      using bare_new_fresh [OF installable 1(2) [unfolded prep]] fresh 1(1) by (simp_all add: fresh_disk_def)
    have "canonical ''/user''" using canonical_abs [of "[''user'']"] by (simp add: abs_path_def proper_def)
    then show ?thesis using good boot_file_readable [OF acc modules(2) _ _ good files] 1(3)
      by (simp add: afos_with_system_files_def system_with_vfs_def sys_good_def vfs_good_def module_path_Some_iff)
        (simp add: vfs_with_system_files_def)
  qed
qed

text \<open>A machine with an empty bus and no framebuffer, for examples.\<close>

definition demo_bus :: "(u8 list, device_type) pci_root" where
  "demo_bus = \<lparr>enumerate_bus = (\<lambda>_ h. ([], h)), virtio_device_type = Some, get_command = (\<lambda>_ h. (0, h)),
     set_command = (\<lambda>_ _ h. h), get_bar_info = (\<lambda>_ _ h. (Ok None, h)), io_space = 1, bus_master = 4\<rparr>"

abbreviation demo_kernel where
  "demo_kernel \<equiv> kernel_boot demo_cpu demo_disks demo_bus demo_smoltcp (\<lambda>_. []) (\<lambda>_. Finish (Inr DUnit)) demo_boot []"

lemma demo_modules: "modules_response demo_boot = Some [\<lparr>module_cmdline = ''afos-file:/sys/apps/w.rhai'', module_data = [1]\<rparr>,
       \<lparr>module_cmdline = ''afos-file:/user/a'', module_data = [7]\<rparr>]"
  by (simp add: demo_boot_def)

lemma demo_coherent: "coherent_modules [\<lparr>module_cmdline = ''afos-file:/sys/apps/w.rhai'', module_data = [1]\<rparr>,
       \<lparr>module_cmdline = ''afos-file:/user/a'', module_data = [7]\<rparr>]"
  by (auto simp: coherent_modules_def module_path_Some_iff at_or_below_def)

lemma demo_discovery: "set_block (fst (discover_pci demo_bus demo_disks h)) = None"
  by (simp add: discover_pci_def demo_bus_def devices_empty_def)

lemma demo_boots: "\<exists>f. demo_kernel = Some (Inr f)"
proof -
  have "map_option (map_sum id (\<lambda>_. ())) demo_kernel = Some (Inr ())"
    unfolding kernel_boot_def Let_def demo_heap
    by code_simp
  then obtain z where "demo_kernel = Some z" "map_sum id (\<lambda>_. ()) z = Inr ()" by auto
  then show ?thesis by (cases z) auto
qed

theorem booted_system_witness:
  "\<exists>f. demo_kernel = Some (Inr f) \<and> canonical (afos_cwd f)
    \<and> vfs_read (bare_platform (virtio_block demo_disks) (pc_machine demo_cpu demo_font demo_disks demo_smoltcp)) (afos_vfs f) ''/user/a''
        = Some (Ok [7], afos_vfs f)"
proof -
  obtain f where f: "demo_kernel = Some (Inr f)" using demo_boots by blast
  have "fresh_disk demo_disks (set_block (fst (discover_pci demo_bus demo_disks (initialize_com1 demo_cpu []))))"
    by (simp add: demo_discovery fresh_disk_def)
  from booted_system [OF f demo_modules demo_coherent this, of "pc_machine demo_cpu demo_font demo_disks demo_smoltcp"]
  show ?thesis using f by auto
qed

section \<open>The clock\<close>

lemma uint_elapsed:
  assumes "start \<le> now"
  shows "uint (elapsed_millis start frequency now)
    = min ((uint now - uint start) * 1000) (2 ^ 64 - 1) div uint frequency"
proof -
  have diff: "saturating_sub now start = now - start" "uint (now - start) = uint now - uint start"
    using assms by (simp_all add: saturating_sub_def uint_minus_simple_alt word_le_def)
  have "uint (saturating_mul (now - start) 1000) = min ((uint now - uint start) * 1000) (2 ^ 64 - 1)"
  proof (cases "uint (now - start) * uint (1000 :: u64) < 2 ^ LENGTH(64)")
    case True
    then show ?thesis using uint_mult_lem [THEN iffD1, OF True] diff(2) by (simp add: saturating_mul_def)
  next
    case False
    then show ?thesis using diff(2) by (simp add: saturating_mul_def unsigned_minus_1_eq_mask mask_eq_exp_minus_1)
  qed
  then show ?thesis by (simp add: elapsed_millis_def diff(1) uint_div)
qed

text \<open>C37: the bare-metal clock is exact for the first \<open>2\<^sup>6\<^sup>4 / 1000\<close> ticks of the counter and then stands
  still, since the multiplication saturates (71 days at 3 GHz). From then on no deadline is ever
  reached: a reading at any later time is below every deadline computed from the current one, so
  that network calls stop timing out and a running lockout never ends.\<close>

theorem clock_stops:
  assumes "start \<le> now" "now \<le> later" "2 \<le> frequency"
  shows "((uint now - uint start) * 1000 < 2 ^ 64 \<longrightarrow>
      uint (elapsed_millis start frequency now) = (uint now - uint start) * 1000 div uint frequency)
    \<and> (2 ^ 64 \<le> (uint now - uint start) * 1000 \<and> 0 < timeout \<longrightarrow>
      elapsed_millis start frequency later = elapsed_millis start frequency now
      \<and> elapsed_millis start frequency later < saturating_add (elapsed_millis start frequency now) timeout)"
proof (intro conjI impI)
  show "uint (elapsed_millis start frequency now) = (uint now - uint start) * 1000 div uint frequency"
    if "(uint now - uint start) * 1000 < 2 ^ 64"
    using that by (simp add: uint_elapsed [OF assms(1)] min_def)
  assume late: "2 ^ 64 \<le> (uint now - uint start) * 1000 \<and> 0 < timeout"
  have "uint now \<le> uint later" "2 \<le> uint frequency" using assms(2,3) by (simp_all add: word_le_def)
  then have later: "uint (elapsed_millis start frequency later) = (2 ^ 64 - 1) div uint frequency"
    and now: "uint (elapsed_millis start frequency now) = (2 ^ 64 - 1) div uint frequency"
    using late by (simp_all add: uint_elapsed assms(1) order_trans [OF assms(1,2)] min_def)
  show same: "elapsed_millis start frequency later = elapsed_millis start frequency now"
    by (simp only: word_uint_eq_iff later now)
  have "(2 ^ 64 - 1) div uint frequency < (2 ^ 64 - 1 :: int)"
    using \<open>2 \<le> uint frequency\<close> by (intro int_div_less_self) simp_all
  moreover have "0 < uint timeout" using late by (simp add: word_less_def)
  ultimately show "elapsed_millis start frequency later < saturating_add (elapsed_millis start frequency now) timeout"
    using now unfolding same
    by (simp add: saturating_add_def word_less_def uint_plus_if_size word_size unsigned_minus_1_eq_mask mask_eq_exp_minus_1)
qed

theorem clock_stops_witness:
  "elapsed_millis 0 3000000000 (- 1) < saturating_add (elapsed_millis 0 3000000000 (2 ^ 63)) 15000"
proof -
  have "(0 :: u64) \<le> 2 ^ 63" "(2 ^ 63 :: u64) \<le> - 1" "(2 :: u64) \<le> 3000000000" by simp_all
  note clock = clock_stops [OF this, of 15000]
  have "(2 :: int) ^ 64 \<le> (uint (2 ^ 63 :: u64) - uint (0 :: u64)) * 1000 \<and> (0 :: u64) < 15000" by simp
  then show ?thesis using clock by blast
qed

section \<open>Random bytes come from hardware\<close>

text \<open>A run of the random number instruction: the values that it delivered, with failures in between.\<close>

inductive rdrand_run :: "'h cpu \<Rightarrow> 'h \<Rightarrow> u64 list \<Rightarrow> 'h \<Rightarrow> bool" for C where
  rdrand_none: "rdrand_run C h [] h"
| rdrand_ready: "rdrand C h = ((v, True), h1) \<Longrightarrow> rdrand_run C h1 vs h' \<Longrightarrow> rdrand_run C h (v # vs) h'"
| rdrand_busy: "rdrand C h = ((v, False), h1) \<Longrightarrow> rdrand_run C h1 vs h' \<Longrightarrow> rdrand_run C h vs h'"

lemma rdrand_attempts_run:
  "rdrand_attempts C k h = (Some v, h1) \<Longrightarrow> rdrand_run C h1 vs h' \<Longrightarrow> rdrand_run C h (v # vs) h'"
  by (induction k arbitrary: h) (auto split: prod.splits if_splits intro: rdrand_run.intros)

lemma fill_chunks_run:
  "fill_chunks C n h = (Some bs, h') \<Longrightarrow> \<exists>vs. rdrand_run C h vs h' \<and> bs = take n (concat (map (\<lambda>v. le_bytes 8 (unat v)) vs))"
proof (induction C n h arbitrary: bs h' rule: fill_chunks.induct)
  case (1 C n h)
  show ?case
  proof (cases "n = 0")
    case False
    then obtain v g rest where v: "rdrand_attempts C 10 h = (Some v, g)" "fill_chunks C (n - 8) g = (Some rest, h')"
      "bs = take n (le_bytes 8 (unat v)) @ rest"
      using 1(2) by (subst (asm) fill_chunks.simps) (auto split: prod.splits option.splits)
    moreover from this obtain vs where "rdrand_run C g vs h'" "rest = take (n - 8) (concat (map (\<lambda>v. le_bytes 8 (unat v)) vs))"
      using "1.IH" [OF False] by metis
    ultimately show ?thesis by (intro exI [of _ "v # vs"]) (simp add: rdrand_attempts_run)
  qed (use 1(2) in \<open>auto simp: fill_chunks.simps intro!: exI [of _ "[]"] rdrand_none\<close>)
qed

text \<open>C29: random bytes are never made up. When the bare-metal platform fills a buffer successfully it is full,
  and every byte was delivered by the VirtIO entropy device if there is one, and otherwise by
  successful executions of the random number instruction.\<close>

theorem random_bytes_are_hardware:
  assumes "entropy_sized V" "fill_random (bare_platform D (pc_machine C F V N)) p n = Some (Ok bs, p')"
  shows "length bs = n \<and> (if has_entropy p
    then \<exists>r r' chunks. pc_entropy (bare_machine p) = Some r \<and> served V r chunks r' \<and> bs = concat chunks
    else \<exists>vs h'. rdrand_run C (con_hardware (pc_console (bare_machine p))) vs h'
      \<and> bs = take n (concat (map (\<lambda>v. le_bytes 8 (unat v)) vs)))"
proof (cases "has_entropy p")
  case True
  then obtain r r' where "pc_entropy (bare_machine p) = Some r" "virtio_entropy_fill V (replicate n 0) r = (Ok bs, r')"
    using assms(2) by (auto simp: bare_platform_def bare_fill_random_def pc_machine_def pc_entropy_fill_def with_machine_def
        on_field_def map_err_def split: option.splits prod.splits sum.splits)
  then show ?thesis
    using True entropy_loop_served [OF assms(1), of "replicate n 0" n 0 r bs r'] by (auto simp: virtio_entropy_fill_def)
next
  case False
  then obtain h' where c: "fill_chunks C n (con_hardware (pc_console (bare_machine p))) = (Some bs, h')"
    using assms(2) by (auto simp: bare_platform_def bare_fill_random_def pc_machine_def pc_hardware_random_def
        dest!: fill_hardware_random_cases split: option.splits prod.splits if_splits)
  from fill_chunks_run [OF c] obtain vs where
    "rdrand_run C (con_hardware (pc_console (bare_machine p))) vs h'" "bs = take n (concat (map (\<lambda>v. le_bytes 8 (unat v)) vs))"
    by blast
  then show ?thesis using False fill_chunks_length [OF c] by auto
qed

definition demo_pc :: "(bytes, (u8 list, u8, (handle \<times> socket_kind) list) pc) bare_metal" where
  "demo_pc = \<lparr>bare_machine = \<lparr>pc_console = demo_console [], pc_entropy = Some 5, pc_net = None\<rparr>, bare_tree = empty_tree,
     persistence = None, has_entropy = True, has_net = False, started = 0, counter_frequency = 1\<rparr>"

theorem random_bytes_are_hardware_witness:
  "\<exists>p'. fill_random (bare_platform memory_device (pc_machine demo_cpu demo_font demo_virtio demo_smoltcp)) demo_pc 4
       = Some (Ok [5, 5, 5, 6], p')
     \<and> (\<exists>r r' chunks. pc_entropy (bare_machine demo_pc) = Some r \<and> served demo_virtio r chunks r' \<and> [5, 5, 5, 6] = concat chunks)"
proof -
  have sized: "entropy_sized demo_virtio" by (auto simp: entropy_sized_def demo_virtio_def)
  have four: "replicate 4 0 = [0, 0, 0, 0 :: u8]" by (simp add: eval_nat_numeral)
  have "virtio_entropy_fill demo_virtio [0, 0, 0, 0] 5 = (Ok [5, 5, 5, 6], 7)"
    by (simp add: virtio_entropy_fill_def entropy_loop.simps demo_virtio_def)
  then have fill: "pc_entropy_fill demo_virtio (bare_machine demo_pc) 4
      = Some (Ok [5, 5, 5, 6], (bare_machine demo_pc)\<lparr>pc_entropy := Some 7\<rparr>)"
    unfolding pc_entropy_fill_def four by (simp add: demo_pc_def)
  have has: "has_entropy demo_pc" by (simp add: demo_pc_def)
  have run: "fill_random (bare_platform memory_device (pc_machine demo_cpu demo_font demo_virtio demo_smoltcp)) demo_pc 4
       = Some (Ok [5, 5, 5, 6], demo_pc\<lparr>bare_machine := (bare_machine demo_pc)\<lparr>pc_entropy := Some 7\<rparr>\<rparr>)"
    by (simp add: bare_platform_def bare_fill_random_def pc_machine_def has fill with_machine_def on_field_def map_err_def)
  show ?thesis using random_bytes_are_hardware [OF sized run] run has by (simp only: if_True) blast
qed

end
