(* ===== verification/Host.thy ===== *)
theory Host
  imports Rust_Str "HOL-Library.Sublist"
begin

text \<open>
  The part of Rust's \<^verbatim>\<open>std::fs\<close> and \<^verbatim>\<open>std::path\<close>, on a Unix host, that the desktop platform and its command line
  use. The host's files are a list of nodes by absolute path; symbolic links are followed as the
  operating system does, at most 40 of them. A host may refuse any call on any path, before the call
  has an effect (missing permissions, a full disk); this is the function \<open>host_refuses\<close>. Error texts are
  those of Linux.
\<close>

section \<open>Nodes, paths and errors\<close>

text \<open>An absolute path is the list of its components. A link has an absolute or a relative target.\<close>

type_synonym hpath = "string list"

datatype node = File bytes | Directory | Symlink bool hpath

datatype io_kind = IoNotFound | IoAlreadyExists | IoPermissionDenied | IoOther

datatype io_failure = IoError (io_kind: io_kind) (io_message: string)

definition ENOENT :: io_failure where "ENOENT = IoError IoNotFound ''No such file or directory (os error 2)''"
definition EEXIST :: io_failure where "EEXIST = IoError IoAlreadyExists ''File exists (os error 17)''"
definition ENOTDIR :: io_failure where "ENOTDIR = IoError IoOther ''Not a directory (os error 20)''"
definition EISDIR :: io_failure where "EISDIR = IoError IoOther ''Is a directory (os error 21)''"
definition EINVAL :: io_failure where "EINVAL = IoError IoOther ''Invalid argument (os error 22)''"
definition ENOTEMPTY :: io_failure where "ENOTEMPTY = IoError IoOther ''Directory not empty (os error 39)''"
definition ELOOP :: io_failure where "ELOOP = IoError IoOther ''Too many levels of symbolic links (os error 40)''"

datatype fs_call = Canonicalize | CreateDir | ReadFile | WriteFile | ReadDir | RemoveAll | RemoveFile | Rename

record host =
  host_nodes :: "(hpath \<times> node) list"
  host_refuses :: "fs_call \<Rightarrow> hpath \<Rightarrow> io_failure option"

definition lookup_node :: "host \<Rightarrow> hpath \<Rightarrow> node option" where
  "lookup_node H p = (if p = [] then Some Directory else map_of (host_nodes H) p)"

definition put_node :: "hpath \<Rightarrow> node \<Rightarrow> host \<Rightarrow> host" where
  "put_node p n H = H\<lparr>host_nodes := (p, n) # filter (\<lambda>(q, _). q \<noteq> p) (host_nodes H)\<rparr>"

definition permitted :: "host \<Rightarrow> fs_call \<Rightarrow> hpath \<Rightarrow> (io_failure + 'a) \<Rightarrow> io_failure + 'a" where
  "permitted H call p r = (case host_refuses H call p of None \<Rightarrow> r | Some e \<Rightarrow> Inl e)"

text \<open>The component-wise view of a relative path: its names, or \<open>None\<close> when it is absolute or has a parent
  component.\<close>

definition normal_components :: "string \<Rightarrow> hpath option" where
  "normal_components path = (let cs = filter (\<lambda>c. c \<noteq> [] \<and> c \<noteq> ''.'') (split_on CHR ''/'' path) in
     if starts_with ''/'' path \<or> ''..'' \<in> set cs then None else Some cs)"

section \<open>Resolution\<close>

function resolve_links :: "host \<Rightarrow> nat \<Rightarrow> hpath \<Rightarrow> hpath \<Rightarrow> io_failure + hpath" where
  "resolve_links H links base [] = Inr base"
| "resolve_links H links base (c # cs) =
     (if c = ''..'' then resolve_links H links (butlast base) cs
      else case lookup_node H (base @ [c]) of
          None \<Rightarrow> Inl ENOENT
        | Some (File _) \<Rightarrow> if cs = [] then Inr (base @ [c]) else Inl ENOTDIR
        | Some Directory \<Rightarrow> resolve_links H links (base @ [c]) cs
        | Some (Symlink absolute target) \<Rightarrow>
            if links = 0 then Inl ELOOP else resolve_links H (links - 1) (if absolute then [] else base) (target @ cs))"
  by pat_completeness auto
termination
  by (relation "measures [\<lambda>(H, links, base, cs). links, \<lambda>(H, links, base, cs). length cs]") auto

definition canonicalize :: "host \<Rightarrow> hpath \<Rightarrow> io_failure + hpath" where
  "canonicalize H p = permitted H Canonicalize p (resolve_links H 40 [] p)"

definition host_is_dir :: "host \<Rightarrow> hpath \<Rightarrow> bool" where
  "host_is_dir H p = (case resolve_links H 40 [] p of Inl _ \<Rightarrow> False | Inr q \<Rightarrow> lookup_node H q = Some Directory)"

text \<open>The place of the last component: the directory is resolved, the component itself is not.\<close>

definition resolve_entry :: "host \<Rightarrow> hpath \<Rightarrow> io_failure + hpath" where
  "resolve_entry H p = (if p = [] then Inr [] else case resolve_links H 40 [] (butlast p) of
       Inl e \<Rightarrow> Inl e
     | Inr d \<Rightarrow> if lookup_node H d = Some Directory then Inr (d @ [last p]) else Inl ENOTDIR)"

definition host_is_symlink :: "host \<Rightarrow> hpath \<Rightarrow> bool" where
  "host_is_symlink H p = (case resolve_entry H p of Inl _ \<Rightarrow> False
     | Inr q \<Rightarrow> (case lookup_node H q of Some (Symlink _ _) \<Rightarrow> True | _ \<Rightarrow> False))"

section \<open>Calls\<close>

text \<open>A call returns its result and the host afterwards.\<close>

definition create_dir :: "host \<Rightarrow> hpath \<Rightarrow> (io_failure + unit) \<times> host" where
  "create_dir H p = (case permitted H CreateDir p (resolve_entry H p) of
       Inl e \<Rightarrow> (Inl e, H)
     | Inr q \<Rightarrow> if lookup_node H q \<noteq> None \<or> p \<noteq> [] \<and> last p = ''..'' then (Inl EEXIST, H)
         else (Inr (), put_node q Directory H))"

text \<open>\<^verbatim>\<open>DirBuilder::create_dir_all\<close>: create the directory; if its parent is missing, create that first.\<close>

function create_dirs_all :: "host \<Rightarrow> hpath \<Rightarrow> (io_failure + unit) \<times> host" where
  "create_dirs_all H p = (case create_dir H p of
       (Inr _, H) \<Rightarrow> (Inr (), H)
     | (Inl e, H) \<Rightarrow>
         if io_kind e \<noteq> IoNotFound then (if host_is_dir H p then Inr () else Inl e, H)
         else if p = [] then (Inl e, H)
         else (case create_dirs_all H (butlast p) of
             (Inl e, H) \<Rightarrow> (Inl e, H)
           | (Inr _, H) \<Rightarrow> (case create_dir H p of
                 (Inr _, H) \<Rightarrow> (Inr (), H)
               | (Inl e, H) \<Rightarrow> (if host_is_dir H p then Inr () else Inl e, H))))"
  by pat_completeness auto
termination
  by (relation "measure (\<lambda>(H, p). length p)") auto

declare create_dirs_all.simps [simp del]

definition read_file :: "host \<Rightarrow> hpath \<Rightarrow> io_failure + bytes" where
  "read_file H p = (case permitted H ReadFile p (resolve_links H 40 [] p) of Inl e \<Rightarrow> Inl e
     | Inr q \<Rightarrow> (case lookup_node H q of Some (File d) \<Rightarrow> Inr d | _ \<Rightarrow> Inl EISDIR))"

text \<open>The desktop platform writes no path whose last component is a link; the model refuses one.\<close>

definition write_file :: "host \<Rightarrow> hpath \<Rightarrow> bytes \<Rightarrow> (io_failure + unit) \<times> host" where
  "write_file H p data = (case permitted H WriteFile p (resolve_entry H p) of
       Inl e \<Rightarrow> (Inl e, H)
     | Inr q \<Rightarrow> (case lookup_node H q of
           Some Directory \<Rightarrow> (Inl EISDIR, H)
         | Some (Symlink _ _) \<Rightarrow> (Inl ELOOP, H)
         | _ \<Rightarrow> (Inr (), put_node q (File data) H)))"

text \<open>The entries of a directory: names with their nodes.\<close>

definition children :: "host \<Rightarrow> hpath \<Rightarrow> (string \<times> node) list" where
  "children H d = map (\<lambda>p. (last p, the (lookup_node H p)))
     (remdups (filter (\<lambda>p. p \<noteq> [] \<and> butlast p = d) (map fst (host_nodes H))))"

definition read_dir :: "host \<Rightarrow> hpath \<Rightarrow> io_failure + (string \<times> node) list" where
  "read_dir H p = (case permitted H ReadDir p (resolve_links H 40 [] p) of Inl e \<Rightarrow> Inl e
     | Inr q \<Rightarrow> if lookup_node H q = Some Directory then Inr (children H q) else Inl ENOTDIR)"

definition drop_nodes :: "hpath \<Rightarrow> host \<Rightarrow> host" where
  "drop_nodes p H = H\<lparr>host_nodes := filter (\<lambda>(q, _). \<not> prefix p q) (host_nodes H)\<rparr>"

definition remove_dir_all :: "host \<Rightarrow> hpath \<Rightarrow> (io_failure + unit) \<times> host" where
  "remove_dir_all H p = (case permitted H RemoveAll p (resolve_entry H p) of
       Inl e \<Rightarrow> (Inl e, H)
     | Inr q \<Rightarrow> (case lookup_node H q of
           None \<Rightarrow> (Inl ENOENT, H)
         | Some (File _) \<Rightarrow> (Inl ENOTDIR, H)
         | Some _ \<Rightarrow> (Inr (), drop_nodes q H)))"

definition remove_file :: "host \<Rightarrow> hpath \<Rightarrow> (io_failure + unit) \<times> host" where
  "remove_file H p = (case permitted H RemoveFile p (resolve_entry H p) of
       Inl e \<Rightarrow> (Inl e, H)
     | Inr q \<Rightarrow> (case lookup_node H q of
           None \<Rightarrow> (Inl ENOENT, H)
         | Some Directory \<Rightarrow> (Inl EISDIR, H)
         | Some _ \<Rightarrow> (Inr (), drop_nodes q H)))"

definition move_nodes :: "hpath \<Rightarrow> hpath \<Rightarrow> host \<Rightarrow> host" where
  "move_nodes p q H = H\<lparr>host_nodes := map (\<lambda>(r, n). (if prefix p r then q @ drop (length p) r else r, n))
     (filter (\<lambda>(r, _). prefix p r \<or> \<not> prefix q r) (host_nodes H))\<rparr>"

definition rename_node :: "host \<Rightarrow> hpath \<Rightarrow> hpath \<Rightarrow> (io_failure + unit) \<times> host" where
  "rename_node H p to = (case permitted H Rename p (resolve_entry H p) of
       Inl e \<Rightarrow> (Inl e, H)
     | Inr p \<Rightarrow> (case permitted H Rename to (resolve_entry H to) of
         Inl e \<Rightarrow> (Inl e, H)
       | Inr q \<Rightarrow> (case lookup_node H p of
             None \<Rightarrow> (Inl ENOENT, H)
           | Some n \<Rightarrow>
               if p = q then (Inr (), H)
               else if prefix p q then (Inl EINVAL, H)
               else (case (lookup_node H q, n) of
                   (None, _) \<Rightarrow> (Inr (), move_nodes p q H)
                 | (Some Directory, Directory) \<Rightarrow>
                     if children H q = [] then (Inr (), move_nodes p q H) else (Inl ENOTEMPTY, H)
                 | (Some Directory, _) \<Rightarrow> (Inl EISDIR, H)
                 | (Some _, Directory) \<Rightarrow> (Inl ENOTDIR, H)
                 | (Some _, _) \<Rightarrow> (Inr (), move_nodes p q H)))))"

section \<open>Lookups after the calls\<close>

lemma lookup_Nil [simp]: "lookup_node H [] = Some Directory"
  by (simp add: lookup_node_def)

lemma lookup_None: "lookup_node H p = None \<Longrightarrow> p \<noteq> []"
  by auto

lemma lookup_put: "p \<noteq> [] \<Longrightarrow> lookup_node (put_node p n H) q = (if q = p then Some n else lookup_node H q)"
proof -
  have "map_of (filter (\<lambda>(q, _). q \<noteq> p) xs) q = (if q = p then None else map_of xs q)" for xs :: "(hpath \<times> node) list"
    by (induction xs) auto
  then show "p \<noteq> [] \<Longrightarrow> ?thesis" by (simp add: lookup_node_def put_node_def)
qed

lemma map_of_filter_pairs: "map_of (filter (\<lambda>(q, _). P q) xs) q = (if P q then map_of xs q else None)"
  by (induction xs) auto

lemma lookup_drop: "q \<noteq> [] \<Longrightarrow> lookup_node (drop_nodes p H) q = (if prefix p q then None else lookup_node H q)"
  by (simp add: lookup_node_def drop_nodes_def map_of_filter_pairs)

lemma refuses_after [simp]:
  "host_refuses (put_node p n H) = host_refuses H" "host_refuses (drop_nodes p H) = host_refuses H"
  "host_refuses (move_nodes p q H) = host_refuses H"
  by (simp_all add: put_node_def drop_nodes_def move_nodes_def)

lemma map_of_moved:
  "map_of (map (\<lambda>(r, n). (if prefix p r then q @ drop (length p) r else r, n)) (filter (\<lambda>(r, _). prefix p r \<or> \<not> prefix q r) xs)) r
    = (if prefix q r then map_of xs (p @ drop (length q) r) else if prefix p r then None else map_of xs r)"
proof (induction xs)
  case (Cons x xs)
  obtain s n where x: "x = (s, n)" by (cases x)
  have "q @ drop (length p) s = r \<longleftrightarrow> prefix q r \<and> s = p @ drop (length q) r" if "prefix p s"
    using that by (auto simp: prefix_def)
  moreover have "prefix p s" if "p @ drop (length q) r = s" using that by auto
  ultimately show ?case using Cons by (auto simp: x)
qed simp

lemma lookup_move:
  "p \<noteq> [] \<Longrightarrow> q \<noteq> [] \<Longrightarrow> r \<noteq> [] \<Longrightarrow> lookup_node (move_nodes p q H) r
    = (if prefix q r then lookup_node H (p @ drop (length q) r) else if prefix p r then None else lookup_node H r)"
  by (simp add: lookup_node_def move_nodes_def map_of_moved)

section \<open>Resolved paths\<close>

lemma normal_components_names: "normal_components path = Some cs \<Longrightarrow> ''..'' \<notin> set cs"
  by (auto simp: normal_components_def Let_def split: if_splits)

text \<open>A solid path leads through directories only.\<close>

definition solid :: "host \<Rightarrow> hpath \<Rightarrow> bool" where
  "solid H p \<longleftrightarrow> ''..'' \<notin> set p \<and> (\<forall>r. prefix r p \<longrightarrow> lookup_node H r = Some Directory)"

lemma solid_Nil [simp]: "solid H []"
  by (simp add: solid_def)

lemma solid_snoc: "solid H (p @ [c]) \<longleftrightarrow> solid H p \<and> c \<noteq> ''..'' \<and> lookup_node H (p @ [c]) = Some Directory"
  by (auto simp: solid_def)

lemma solid_butlast: "solid H p \<Longrightarrow> solid H (butlast p)"
  by (cases p rule: rev_cases) (auto simp: solid_snoc)

lemma solid_prefix: "solid H p \<Longrightarrow> prefix q p \<Longrightarrow> solid H q"
  by (auto simp: solid_def prefix_def)

lemma solid_Directory: "solid H p \<Longrightarrow> lookup_node H p = Some Directory"
  by (simp add: solid_def)

lemma resolve_solid: "solid H (base @ a) \<Longrightarrow> resolve_links H n base (a @ cs) = resolve_links H n (base @ a) cs"
proof (induction a arbitrary: base)
  case (Cons c a)
  then have "solid H ((base @ [c]) @ a)" by simp
  moreover have "solid H (base @ [c])" using Cons.prems by (rule solid_prefix) simp
  then have "c \<noteq> ''..''" "lookup_node H (base @ [c]) = Some Directory" by (simp_all add: solid_snoc)
  ultimately show ?case using Cons.IH [of "base @ [c]"] by simp
qed simp

text \<open>A place in a directory: what a resolved path is.\<close>

definition placed :: "host \<Rightarrow> hpath \<Rightarrow> bool" where
  "placed H q \<longleftrightarrow> q = [] \<or> solid H (butlast q) \<and> last q \<noteq> ''..''"

lemma placed_snoc: "placed H (d @ [c]) \<longleftrightarrow> solid H d \<and> c \<noteq> ''..''"
  by (simp add: placed_def)

lemma solid_placed: "solid H q \<Longrightarrow> placed H q"
  by (cases q rule: rev_cases) (auto simp: placed_def solid_snoc)

lemma resolve_placed:
  "solid H base \<Longrightarrow> resolve_links H n base cs = Inr q \<Longrightarrow> placed H q \<and> (lookup_node H q = Some Directory \<longrightarrow> solid H q)
    \<and> (\<exists>k. lookup_node H q = Some k \<and> (\<forall>a t. k \<noteq> Symlink a t))"
proof (induction H n base cs rule: resolve_links.induct)
  case (1 H links base)
  then show ?case by (auto simp: solid_placed solid_Directory)
next
  case (2 H links base c cs)
  show ?case
  proof (cases "c = ''..''")
    case True
    then show ?thesis using 2(1) [OF True solid_butlast [OF 2(4)]] 2(5) by simp
  next
    case False
    then show ?thesis using 2
      by (auto simp: solid_snoc placed_snoc split: option.splits node.splits if_splits)
  qed
qed

lemma resolve_entry_placed: "placed H q \<Longrightarrow> resolve_entry H q = Inr q"
proof (cases q rule: rev_cases)
  case (snoc d c)
  assume "placed H q"
  then have "solid H d" by (simp add: snoc placed_snoc)
  then show ?thesis using resolve_solid [of H "[]" d 40 "[]"] by (simp add: resolve_entry_def snoc solid_Directory)
qed (simp add: resolve_entry_def)

lemma resolve_entry_snoc:
  "resolve_entry H (p @ [c]) = Inr q \<longleftrightarrow> (\<exists>d. resolve_links H 40 [] p = Inr d \<and> lookup_node H d = Some Directory \<and> q = d @ [c])"
  by (auto simp: resolve_entry_def split: sum.splits)

section \<open>Creating directories only adds directories\<close>

definition grows :: "host \<Rightarrow> host \<Rightarrow> bool" where
  "grows H H' \<longleftrightarrow> host_refuses H' = host_refuses H
     \<and> (\<forall>q. lookup_node H' q = lookup_node H q \<or> lookup_node H q = None \<and> lookup_node H' q = Some Directory)"

lemma grows_refl [simp]: "grows H H"
  by (simp add: grows_def)

lemma grows_trans: "grows H H' \<Longrightarrow> grows H' H'' \<Longrightarrow> grows H H''"
  unfolding grows_def by metis

lemma grows_lookup: "grows H H' \<Longrightarrow> lookup_node H q = Some n \<Longrightarrow> lookup_node H' q = Some n"
  unfolding grows_def by (metis option.distinct(1))

lemma grows_solid: "grows H H' \<Longrightarrow> solid H p \<Longrightarrow> solid H' p"
  by (auto simp: solid_def grows_lookup)

lemma grows_placed: "grows H H' \<Longrightarrow> placed H p \<Longrightarrow> placed H' p"
  by (auto simp: placed_def grows_solid)

lemma create_dir_cases:
  assumes "create_dir H p = (r, H')"
  obtains (no) e where "r = Inl e" "H' = H"
  | (made) q where "r = Inr ()" "resolve_entry H p = Inr q" "lookup_node H q = None" "H' = put_node q Directory H"
proof (cases "permitted H CreateDir p (resolve_entry H p)")
  case (Inl e)
  then show thesis using assms no [of e] by (simp add: create_dir_def)
next
  case (Inr q)
  then have entry: "resolve_entry H p = Inr q" by (simp add: permitted_def split: option.split_asm)
  show thesis
  proof (cases "lookup_node H q")
    case None
    then have "r = Inl EEXIST \<and> H' = H \<or> r = Inr () \<and> H' = put_node q Directory H"
      using Inr assms by (auto simp: create_dir_def split: if_splits)
    then show thesis using no made [OF _ entry None] by blast
  next
    case (Some n)
    then have "r = Inl EEXIST \<and> H' = H" using Inr assms by (auto simp: create_dir_def)
    then show thesis using no by blast
  qed
qed

lemma create_dir_grows: "create_dir H p = (r, H') \<Longrightarrow> grows H H'"
proof (erule create_dir_cases)
  fix q assume q: "lookup_node H q = None" and H': "H' = put_node q Directory H"
  show ?thesis using lookup_put [OF lookup_None [OF q]] q by (simp add: grows_def H')
qed simp

text \<open>What creating one directory keeps, creating all of them keeps.\<close>

lemma create_dirs_all_keeps:
  assumes "create_dirs_all H p = (r, H')" "P H" "\<And>H p r H'. P H \<Longrightarrow> create_dir H p = (r, H') \<Longrightarrow> P H'"
  shows "P H'"
  using assms(1,2)
proof (induction H p arbitrary: r H' rule: create_dirs_all.induct)
  case (1 H p)
  obtain r1 H1 where c1: "create_dir H p = (r1, H1)" by fastforce
  obtain r2 H2 where c2: "create_dirs_all H1 (butlast p) = (r2, H2)" by fastforce
  obtain r3 H3 where c3: "create_dir H2 p = (r3, H3)" by fastforce
  have P1: "P H1" using assms(3) [OF 1(3) c1] .
  show ?case
  proof (cases "\<exists>e. r1 = Inl e \<and> io_kind e = IoNotFound \<and> p \<noteq> []")
    case True
    then obtain e where e: "r1 = Inl e" "io_kind e = IoNotFound" "p \<noteq> []" by blast
    have P2: "P H2" using "1.IH" [of r1 H1 e] c1 c2 e P1 by simp
    have "H' = H2 \<or> H' = H3" using 1(2) c1 c2 c3 e
      by (subst (asm) create_dirs_all.simps) (auto split: sum.splits)
    then show ?thesis using P2 assms(3) [OF P2 c3] by blast
  next
    case False
    then have "H' = H1" using 1(2) c1 by (subst (asm) create_dirs_all.simps) (auto split: sum.splits if_splits)
    then show ?thesis using P1 by simp
  qed
qed

lemma create_dirs_all_grows: "create_dirs_all H p = (r, H') \<Longrightarrow> grows H H'"
  by (rule create_dirs_all_keeps [where P = "grows H"]) (auto dest: create_dir_grows grows_trans)

section \<open>What the other calls do\<close>

lemma children_mem: "(c, n) \<in> set (children H d) \<longleftrightarrow> lookup_node H (d @ [c]) = Some n"
proof -
  have "d @ [c] \<in> fst ` set (host_nodes H) \<longleftrightarrow> lookup_node H (d @ [c]) \<noteq> None"
    by (simp add: lookup_node_def map_of_eq_None_iff)
  moreover have "(c, n) \<in> set (children H d) \<longleftrightarrow> d @ [c] \<in> fst ` set (host_nodes H) \<and> n = the (lookup_node H (d @ [c]))"
  proof -
    have "(c, n) = (last p, m) \<and> p \<noteq> [] \<and> butlast p = d \<longleftrightarrow> p = d @ [c] \<and> n = m" for p m
      by (cases p rule: rev_cases) auto
    then show ?thesis unfolding children_def by (force simp del: image_eqI)
  qed
  ultimately show ?thesis by auto
qed

lemma children_lookup: "children H d = [] \<Longrightarrow> lookup_node H (d @ [c]) = None"
  using children_mem [of c _ H d] by (metis empty_iff list.set(1) not_Some_eq)

lemma distinct_children: "distinct (map fst (children H d))"
proof -
  have "inj_on last {p. p \<noteq> [] \<and> butlast p = d}" by (auto simp: inj_on_def) (metis append_butlast_last_id)
  then show ?thesis
    by (auto simp: children_def distinct_map o_def intro: inj_on_subset)
qed

lemma permitted_Inr: "permitted H call p r = Inr q \<Longrightarrow> r = Inr q"
  by (simp add: permitted_def split: option.splits)

lemma write_file_cases:
  assumes "write_file H p data = (r, H')"
  obtains (no) e where "r = Inl e" "H' = H"
  | (yes) q where "r = Inr ()" "resolve_entry H p = Inr q" "q \<noteq> []" "\<And>n. lookup_node H q = Some n \<Longrightarrow> \<exists>d. n = File d"
      "H' = put_node q (File data) H"
proof (cases "permitted H WriteFile p (resolve_entry H p)")
  case (Inl e)
  then show thesis using assms no [of e] by (simp add: write_file_def)
next
  case (Inr q)
  note entry = permitted_Inr [OF Inr]
  show thesis
  proof (cases "lookup_node H q = None \<or> (\<exists>d. lookup_node H q = Some (File d))")
    case True
    then have "r = Inr () \<and> H' = put_node q (File data) H" using Inr assms by (auto simp: write_file_def)
    then show thesis using yes [OF _ entry] True by (cases "q = []") auto
  next
    case False
    then have "\<exists>e. r = Inl e \<and> H' = H" using Inr assms by (auto simp: write_file_def split: option.splits node.splits)
    then show thesis using no by blast
  qed
qed

lemma remove_cases:
  assumes "(if directory then remove_dir_all H p else remove_file H p) = (r, H')"
  obtains (no) e where "r = Inl e" "H' = H"
  | (yes) q where "r = Inr ()" "resolve_entry H p = Inr q" "H' = drop_nodes q H"
proof (cases "permitted H (if directory then RemoveAll else RemoveFile) p (resolve_entry H p)")
  case (Inl e)
  then show thesis using assms no [of e] by (simp add: remove_dir_all_def remove_file_def split: if_splits)
next
  case (Inr q)
  have "(\<exists>e. r = Inl e \<and> H' = H) \<or> r = Inr () \<and> H' = drop_nodes q H"
    using assms Inr by (cases directory) (auto simp: remove_dir_all_def remove_file_def split: option.splits node.splits)
  then show thesis using no yes [OF _ permitted_Inr [OF Inr]] by blast
qed

lemma rename_node_cases:
  assumes "rename_node H p to = (r, H')"
  obtains (no) e where "r = Inl e" "H' = H"
  | (same) q where "r = Inr ()" "resolve_entry H p = Inr q" "resolve_entry H to = Inr q" "H' = H"
  | (moved) a b n where "r = Inr ()" "resolve_entry H p = Inr a" "resolve_entry H to = Inr b" "lookup_node H a = Some n"
      "\<not> prefix a b" "H' = move_nodes a b H"
      "lookup_node H b = Some Directory \<Longrightarrow> n = Directory \<and> children H b = []"
proof (cases "permitted H Rename p (resolve_entry H p)")
  case (Inl e)
  then show thesis using assms no [of e] by (simp add: rename_node_def)
next
  case a: (Inr a)
  show thesis
  proof (cases "permitted H Rename to (resolve_entry H to)")
    case (Inl e)
    then show thesis using assms no [of e] a by (simp add: rename_node_def)
  next
    case b: (Inr b)
    note entries = permitted_Inr [OF a] permitted_Inr [OF b]
    show thesis
    proof (cases "lookup_node H a = None \<or> a = b \<or> prefix a b")
      case True
      then have "(\<exists>e. r = Inl e \<and> H' = H) \<or> r = Inr () \<and> a = b \<and> H' = H"
        using assms a b by (auto simp: rename_node_def split: option.splits if_splits)
      then show thesis using no same entries by blast
    next
      case False
      then obtain n where n: "lookup_node H a = Some n" "\<not> prefix a b" by auto
      have "(\<exists>e. r = Inl e \<and> H' = H) \<or> r = Inr () \<and> H' = move_nodes a b H
          \<and> (lookup_node H b = Some Directory \<longrightarrow> n = Directory \<and> children H b = [])"
        using assms a b n False by (auto simp: rename_node_def split: option.splits node.splits if_splits)
      then show thesis using no moved [OF _ entries n] by blast
    qed
  qed
qed

end
