(* ===== verification/Desktop.thy ===== *)
theory Desktop
  imports Host Tree_Shape Shell Rhai
begin

text \<open>
  \<^verbatim>\<open>platforms/desktop\<close>: the \<^verbatim>\<open>Platform\<close> trait over the files of a host, below a root directory, and the command line that
  starts AFOS on it. The files are those of the host theory; standard streams, the clock, the random
  number generator and TCP streams are the record \<open>std_io\<close>. A failing \<^verbatim>\<open>print!\<close> panics, which is the
  outcome \<open>None\<close>.
\<close>

section \<open>The platform\<close>

record ('w, 's) std_io =
  std_print :: "string \<Rightarrow> 'w \<Rightarrow> 'w option"
  std_flush :: "'w \<Rightarrow> (io_failure + unit) \<times> 'w"
  std_read_line :: "'w \<Rightarrow> (io_failure + string) \<times> 'w"
  std_prompt_password :: "string \<Rightarrow> 'w \<Rightarrow> (io_failure + string) \<times> 'w"
  std_elapsed_millis :: "'w \<Rightarrow> nat \<times> 'w"
  std_getrandom :: "nat \<Rightarrow> 'w \<Rightarrow> (string + bytes) \<times> 'w"
  std_tcp_connect :: "string \<Rightarrow> u16 \<Rightarrow> 'w \<Rightarrow> (io_failure + 's) \<times> 'w"
  std_tcp_write :: "'s \<Rightarrow> bytes \<Rightarrow> 'w \<Rightarrow> (io_failure + nat) \<times> 'w"
  std_tcp_read :: "'s \<Rightarrow> nat \<Rightarrow> 'w \<Rightarrow> (io_failure + nat \<times> bytes) \<times> 'w"
  std_link_len :: "hpath \<Rightarrow> node \<Rightarrow> u64"
  std_os :: string
  std_arch :: string

record ('w, 's) desktop =
  desk_root :: hpath
  desk_host :: host
  desk_world :: 'w
  remove_on_drop :: bool
  desk_sockets :: "(u64 \<times> 's) list"
  desk_next_handle :: u64

definition io_error :: "io_failure \<Rightarrow> error" where
  "io_error e = (case io_kind e of
       IoNotFound \<Rightarrow> NotFound (io_message e)
     | IoAlreadyExists \<Rightarrow> AlreadyExists (io_message e)
     | IoPermissionDenied \<Rightarrow> PermissionDenied (io_message e)
     | IoOther \<Rightarrow> Io (io_message e))"

definition desktop_new :: "hpath \<Rightarrow> bool \<Rightarrow> host \<Rightarrow> 'w \<Rightarrow> ('w, 's) desktop res \<times> host" where
  "desktop_new root remove H w = (case create_dirs_all H root of
       (Inl e, H) \<Rightarrow> (Err (io_error e), H)
     | (Inr _, H) \<Rightarrow> (case canonicalize H root of
           Inl e \<Rightarrow> (Err (io_error e), H)
         | Inr root \<Rightarrow> (Ok \<lparr>desk_root = root, desk_host = H, desk_world = w, remove_on_drop = remove,
             desk_sockets = [], desk_next_handle = 1\<rparr>, H)))"

definition desktop_drop :: "('w, 's) desktop \<Rightarrow> host" where
  "desktop_drop p = (if remove_on_drop p then snd (remove_dir_all (desk_host p) (desk_root p)) else desk_host p)"

definition joined :: "('w, 's) desktop \<Rightarrow> string \<Rightarrow> hpath res" where
  "joined p relative = (case normal_components relative of None \<Rightarrow> Err InvalidPath | Some cs \<Rightarrow> Ok (desk_root p @ cs))"

definition escapes :: error where
  "escapes = PermissionDenied ''path escapes the AFOS data directory''"

definition existing :: "('w, 's) desktop \<Rightarrow> string \<Rightarrow> hpath res" where
  "existing p relative = and_then (joined p relative) (\<lambda>path.
     case canonicalize (desk_host p) path of
       Inl e \<Rightarrow> Err (if io_kind e = IoNotFound then NotFound relative else io_error e)
     | Inr target \<Rightarrow> if \<not> prefix (desk_root p) target then Err escapes else Ok target)"

definition writable_path :: "('w, 's) desktop \<Rightarrow> string \<Rightarrow> hpath res \<times> host" where
  "writable_path p relative = (let H = desk_host p in case joined p relative of
       Inl e \<Rightarrow> (Err e, H)
     | Inr path \<Rightarrow>
         if path = [] then (Err InvalidPath, H)
         else (case create_dirs_all H (butlast path) of
             (Inl e, H) \<Rightarrow> (Err (io_error e), H)
           | (Inr _, H) \<Rightarrow> (case canonicalize H (butlast path) of
                 Inl e \<Rightarrow> (Err (io_error e), H)
               | Inr canonical_parent \<Rightarrow>
                   if \<not> prefix (desk_root p) canonical_parent then (Err escapes, H)
                   else if host_is_symlink H path
                   then (Err (PermissionDenied ''symbolic-link targets are not writable''), H)
                   else (Ok path, H))))"

text \<open>A call of \<^verbatim>\<open>std::fs\<close> on the host, and one on the rest of the system.\<close>

definition on_host :: "('w, 's) desktop \<Rightarrow> (io_failure + 'a) \<times> host \<Rightarrow> (('w, 's) desktop, 'a) outcome" where
  "on_host p m = (case m of (r, H) \<Rightarrow> Some (map_err io_error r, p\<lparr>desk_host := H\<rparr>))"

definition with_writable :: "('w, 's) desktop \<Rightarrow> string \<Rightarrow> (hpath \<Rightarrow> host \<Rightarrow> (io_failure + 'a) \<times> host) \<Rightarrow> (('w, 's) desktop, 'a) outcome" where
  "with_writable p relative call = (case writable_path p relative of
       (Inl e, H) \<Rightarrow> Some (Err e, p\<lparr>desk_host := H\<rparr>)
     | (Inr path, H) \<Rightarrow> on_host p (call path H))"

definition on_world :: "('w, 's) desktop \<Rightarrow> ('a \<times> 'w) \<Rightarrow> ('a \<times> ('w, 's) desktop) option" where
  "on_world p m = (case m of (a, w) \<Rightarrow> Some (a, p\<lparr>desk_world := w\<rparr>))"

section \<open>The methods\<close>

definition desk_console_write :: "('w, 's) std_io \<Rightarrow> ('w, 's) desktop \<Rightarrow> string \<Rightarrow> (('w, 's) desktop, unit) outcome" where
  "desk_console_write S p text = (case std_print S text (desk_world p) of None \<Rightarrow> None
     | Some w \<Rightarrow> (case std_flush S w of (r, w) \<Rightarrow> Some (map_err io_error r, p\<lparr>desk_world := w\<rparr>)))"

definition trim_line_end :: "string \<Rightarrow> string" where
  "trim_line_end line = rev (dropWhile (\<lambda>c. c = CHR 0x0A \<or> c = CHR 0x0D) (rev line))"

definition desk_console_read_line ::
  "('w, 's) std_io \<Rightarrow> ('w, 's) desktop \<Rightarrow> string \<Rightarrow> bool \<Rightarrow> (('w, 's) desktop, string) outcome" where
  "desk_console_read_line S p prompt secret =
     (if secret then on_world p (map_prod (map_err io_error) id (std_prompt_password S prompt (desk_world p)))
      else bind (desk_console_write S p prompt) (\<lambda>_ p. case std_read_line S (desk_world p) of
          (Inl e, w) \<Rightarrow> Some (Err (io_error e), p\<lparr>desk_world := w\<rparr>)
        | (Inr line, w) \<Rightarrow> Some (if line = [] then Err (Io ''end of input'') else Ok (trim_line_end line),
            p\<lparr>desk_world := w\<rparr>)))"

definition desk_console_clear :: "('w, 's) std_io \<Rightarrow> ('w, 's) desktop \<Rightarrow> (('w, 's) desktop, unit) outcome" where
  "desk_console_clear S p = desk_console_write S p ([CHR 0x1B] @ ''[2J'' @ [CHR 0x1B] @ ''[H'')"

definition desk_read :: "('w, 's) desktop \<Rightarrow> string \<Rightarrow> (('w, 's) desktop, bytes) outcome" where
  "desk_read p path = attempt (existing p path) p (\<lambda>path. Some (map_err io_error (read_file (desk_host p) path), p))"

definition desk_write :: "('w, 's) desktop \<Rightarrow> string \<Rightarrow> bytes \<Rightarrow> (('w, 's) desktop, unit) outcome" where
  "desk_write p path data = with_writable p path (\<lambda>path H. write_file H path data)"

definition node_entry :: "('w, 's) std_io \<Rightarrow> hpath \<Rightarrow> string \<times> node \<Rightarrow> storage_entry" where
  "node_entry S d = (\<lambda>(name, n). \<lparr>entry_name = lossy name, entry_is_dir = (n = Directory),
     entry_len = (case n of File data \<Rightarrow> word_of_nat (length data) | _ \<Rightarrow> std_link_len S (d @ [name]) n)\<rparr>)"

definition desk_list :: "('w, 's) std_io \<Rightarrow> ('w, 's) desktop \<Rightarrow> string \<Rightarrow> (('w, 's) desktop, storage_entry list) outcome" where
  "desk_list S p path = attempt (existing p path) p (\<lambda>directory.
     if \<not> host_is_dir (desk_host p) directory then Some (Err (NotDirectory path), p)
     else Some (map_err io_error (map_sum id (\<lambda>entries. sort_key entry_name (map (node_entry S directory) entries))
       (read_dir (desk_host p) directory)), p))"

definition desk_create_dir_all :: "('w, 's) desktop \<Rightarrow> string \<Rightarrow> (('w, 's) desktop, unit) outcome" where
  "desk_create_dir_all p path = with_writable p path (\<lambda>path H. create_dirs_all H path)"

definition desk_remove :: "('w, 's) desktop \<Rightarrow> string \<Rightarrow> (('w, 's) desktop, unit) outcome" where
  "desk_remove p path = attempt (existing p path) p (\<lambda>path.
     on_host p (if host_is_dir (desk_host p) path then remove_dir_all (desk_host p) path else remove_file (desk_host p) path))"

definition desk_rename :: "('w, 's) desktop \<Rightarrow> string \<Rightarrow> string \<Rightarrow> (('w, 's) desktop, unit) outcome" where
  "desk_rename p from to = attempt (existing p from) p (\<lambda>from.
     with_writable p to (\<lambda>to H. rename_node H from to))"

definition desk_exists :: "('w, 's) desktop \<Rightarrow> string \<Rightarrow> (('w, 's) desktop, bool) outcome" where
  "desk_exists p path = Some (case existing p path of
       Inr _ \<Rightarrow> Ok True
     | Inl (NotFound _) \<Rightarrow> Ok False
     | Inl e \<Rightarrow> Err e, p)"

definition desk_monotonic_millis :: "('w, 's) std_io \<Rightarrow> ('w, 's) desktop \<Rightarrow> u64 \<times> ('w, 's) desktop" where
  "desk_monotonic_millis S p = (case std_elapsed_millis S (desk_world p) of
     (millis, w) \<Rightarrow> (if millis < 2 ^ 64 then word_of_nat millis else - 1, p\<lparr>desk_world := w\<rparr>))"

definition desk_fill_random :: "('w, 's) std_io \<Rightarrow> ('w, 's) desktop \<Rightarrow> nat \<Rightarrow> (('w, 's) desktop, bytes) outcome" where
  "desk_fill_random S p n = on_world p (map_prod (map_err (\<lambda>e. Io (''random-number generator: '' @ e))) id
     (std_getrandom S n (desk_world p)))"

definition desk_net_status :: "('w, 's) desktop \<Rightarrow> (('w, 's) desktop, net_status) outcome" where
  "desk_net_status p = Some (Ok \<lparr>link_up = True, mac = ''host'', address = None, gateway = None\<rparr>, p)"

text \<open>\<^verbatim>\<open>next_handle\<close> wraps around, as in a release build.\<close>

definition desk_net_connect :: "('w, 's) std_io \<Rightarrow> ('w, 's) desktop \<Rightarrow> string \<Rightarrow> u16 \<Rightarrow> (('w, 's) desktop, u64) outcome" where
  "desk_net_connect S p host_name port = (case std_tcp_connect S host_name port (desk_world p) of
       (Inl e, w) \<Rightarrow> Some (Err (io_error e), p\<lparr>desk_world := w\<rparr>)
     | (Inr stream, w) \<Rightarrow> (let handle = desk_next_handle p in
         Some (Ok handle, p\<lparr>desk_world := w, desk_next_handle := handle + 1,
           desk_sockets := (handle, stream) # filter (\<lambda>(h, _). h \<noteq> handle) (desk_sockets p)\<rparr>)))"

definition with_stream :: "('w, 's) desktop \<Rightarrow> u64 \<Rightarrow> ('s \<Rightarrow> 'w \<Rightarrow> (io_failure + 'a) \<times> 'w) \<Rightarrow> (('w, 's) desktop, 'a) outcome" where
  "with_stream p handle call = attempt
     (ok_or (map_of (desk_sockets p) handle) (NotFound (''network connection '' @ show_nat (unat handle)))) p
     (\<lambda>stream. on_world p (map_prod (map_err io_error) id (call stream (desk_world p))))"

definition desk_net_send :: "('w, 's) std_io \<Rightarrow> ('w, 's) desktop \<Rightarrow> u64 \<Rightarrow> bytes \<Rightarrow> (('w, 's) desktop, nat) outcome" where
  "desk_net_send S p handle data = with_stream p handle (\<lambda>stream. std_tcp_write S stream data)"

definition desk_net_recv :: "('w, 's) std_io \<Rightarrow> ('w, 's) desktop \<Rightarrow> u64 \<Rightarrow> nat \<Rightarrow> (('w, 's) desktop, nat \<times> bytes) outcome" where
  "desk_net_recv S p handle n = with_stream p handle (\<lambda>stream. std_tcp_read S stream n)"

definition desk_net_close :: "('w, 's) desktop \<Rightarrow> u64 \<Rightarrow> (('w, 's) desktop, unit) outcome" where
  "desk_net_close p handle = Some (Ok (), p\<lparr>desk_sockets := filter (\<lambda>(h, _). h \<noteq> handle) (desk_sockets p)\<rparr>)"

definition desk_system_info :: "('w, 's) std_io \<Rightarrow> system_info" where
  "desk_system_info S = \<lparr>info_name = ''AFOS'', info_version = ''0.2.0'', info_platform = std_os S, info_architecture = std_arch S\<rparr>"

definition desktop_platform :: "('w, 's) std_io \<Rightarrow> ('w, 's) desktop platform" where
  "desktop_platform S = \<lparr>
     console_write = desk_console_write S, console_read_line = desk_console_read_line S,
     console_clear = desk_console_clear S, storage_read = desk_read, storage_write = desk_write,
     storage_list = desk_list S, storage_create_dir_all = desk_create_dir_all,
     storage_remove = desk_remove, storage_rename = desk_rename, storage_exists = desk_exists,
     monotonic_millis = desk_monotonic_millis S, fill_random = desk_fill_random S,
     platform_info = (\<lambda>_. desk_system_info S), poll_cancel = (\<lambda>p. Some (False, p)),
     net_status = desk_net_status, net_connect = desk_net_connect S, net_send = desk_net_send S,
     net_recv = desk_net_recv S, net_close = desk_net_close\<rparr>"

section \<open>What a storage call can touch\<close>

text \<open>Outside the root nothing changes, except that directories may appear.\<close>

definition untouched :: "hpath \<Rightarrow> host \<Rightarrow> host \<Rightarrow> bool" where
  "untouched root H H' \<longleftrightarrow> (\<forall>q. \<not> prefix root q \<longrightarrow>
     lookup_node H' q = lookup_node H q \<or> lookup_node H q = None \<and> lookup_node H' q = Some Directory)"

lemma grows_untouched: "grows H H' \<Longrightarrow> untouched root H H'"
  by (simp add: grows_def untouched_def)

lemma untouched_refl [simp]: "untouched root H H"
  by (simp add: untouched_def)

lemma untouched_trans: "untouched root H H' \<Longrightarrow> untouched root H' H'' \<Longrightarrow> untouched root H H''"
  unfolding untouched_def by metis

lemma canonicalize_Inr: "canonicalize H p = Inr q \<Longrightarrow> resolve_links H 40 [] p = Inr q"
  by (simp add: canonicalize_def permitted_def split: option.splits)

lemma existing_Ok:
  assumes "existing p relative = Ok q"
  obtains cs where "normal_components relative = Some cs" "resolve_links (desk_host p) 40 [] (desk_root p @ cs) = Inr q"
    "prefix (desk_root p) q" "placed (desk_host p) q"
proof -
  from assms obtain cs where cs: "normal_components relative = Some cs" "canonicalize (desk_host p) (desk_root p @ cs) = Inr q"
    "prefix (desk_root p) q"
    by (auto simp: existing_def joined_def and_then_Inr_iff split: option.splits sum.splits if_splits)
  then show thesis using that canonicalize_Inr [OF cs(2)] resolve_placed [OF solid_Nil canonicalize_Inr [OF cs(2)]] by blast
qed

lemma writable_path_cases:
  assumes "writable_path p relative = (r, H)"
  obtains (no) e where "r = Err e" "grows (desk_host p) H"
  | (yes) cs d where "normal_components relative = Some cs" "r = Ok (desk_root p @ cs)" "desk_root p @ cs \<noteq> []"
      "grows (desk_host p) H" "resolve_links H 40 [] (butlast (desk_root p @ cs)) = Inr d" "prefix (desk_root p) d"
proof (cases "normal_components relative")
  case None
  then show thesis using assms no [of InvalidPath] by (simp add: writable_path_def joined_def)
next
  case (Some cs)
  obtain made H1 where made: "create_dirs_all (desk_host p) (butlast (desk_root p @ cs)) = (made, H1)" by fastforce
  note g = create_dirs_all_grows [OF made]
  show thesis
  proof (cases "desk_root p @ cs = [] \<or> (\<exists>e. made = Inl e)")
    case True
    then have "\<exists>e. r = Err e \<and> (H = H1 \<or> H = desk_host p)"
      using assms Some made by (auto simp: writable_path_def joined_def Let_def split: if_splits)
    then show thesis using g no by auto
  next
    case False
    then have ok: "desk_root p @ cs \<noteq> []" "made = Inr ()" by (cases made, auto)+
    then show thesis
    proof (cases "canonicalize H1 (butlast (desk_root p @ cs))")
      case (Inl e)
      then show thesis using assms Some made g no [of "io_error e"] ok by (simp add: writable_path_def joined_def Let_def split: if_splits)
    next
      case (Inr d)
      then have run: "(r, H) = (if \<not> prefix (desk_root p) d then (Err escapes, H1)
          else if host_is_symlink H1 (desk_root p @ cs)
          then (Err (PermissionDenied ''symbolic-link targets are not writable''), H1) else (Ok (desk_root p @ cs), H1))"
        using assms Some made ok unfolding writable_path_def joined_def Let_def by (simp only: option.case sum.case prod.case if_False)
      then have "H = H1" by (auto split: if_splits)
      moreover have "r = Ok (desk_root p @ cs) \<and> prefix (desk_root p) d \<or> (\<exists>e. r = Err e)" using run by (auto split: if_splits)
      ultimately show thesis using no yes Some ok(1) g canonicalize_Inr [OF Inr] by blast
    qed
  qed
qed

lemma entry_below:
  "p \<noteq> [] \<Longrightarrow> resolve_links H 40 [] (butlast p) = Inr d \<Longrightarrow> prefix root d \<Longrightarrow> permitted H call p (resolve_entry H p) = Inr q \<Longrightarrow>
    prefix root q \<and> q = d @ [last p]"
  by (auto simp: resolve_entry_def permitted_def split: option.splits if_splits intro: prefix_prefix)

lemma put_untouched: "p \<noteq> [] \<Longrightarrow> prefix root p \<Longrightarrow> untouched root H (put_node p n H)"
  by (auto simp: untouched_def lookup_put)

lemma drop_untouched: "prefix root p \<Longrightarrow> untouched root H (drop_nodes p H)"
  using lookup_drop unfolding untouched_def by (metis prefix_order.trans lookup_Nil prefix_Nil)

lemma move_untouched:
  assumes "p \<noteq> []" "q \<noteq> []" "prefix root p" "prefix root q"
  shows "untouched root H (move_nodes p q H)"
  unfolding untouched_def
proof (intro allI impI)
  fix r assume r: "\<not> prefix root r"
  then have "\<not> prefix p r" "\<not> prefix q r" using assms(3,4) prefix_order.trans by blast+
  moreover have "lookup_node (move_nodes p q H) [] = lookup_node H []" by simp
  ultimately show "lookup_node (move_nodes p q H) r = lookup_node H r
      \<or> lookup_node H r = None \<and> lookup_node (move_nodes p q H) r = Some Directory"
    using lookup_move [OF assms(1,2)] by (cases "r = []") simp_all
qed

lemma with_writable_untouched:
  assumes "with_writable p relative call = Some (r, p')"
    and call: "\<And>path H d H' x. grows (desk_host p) H \<Longrightarrow> path \<noteq> [] \<Longrightarrow> resolve_links H 40 [] (butlast path) = Inr d \<Longrightarrow>
      prefix (desk_root p) d \<Longrightarrow> call path H = (x, H') \<Longrightarrow> untouched (desk_root p) H H'"
  shows "untouched (desk_root p) (desk_host p) (desk_host p') \<and> desk_root p' = desk_root p"
proof -
  obtain w H where w: "writable_path p relative = (w, H)" by fastforce
  then show ?thesis
  proof (cases rule: writable_path_cases)
    case (no e)
    then show ?thesis using assms(1) w by (auto simp: with_writable_def grows_untouched)
  next
    case (yes cs d)
    obtain x H' where x: "call (desk_root p @ cs) H = (x, H')" by fastforce
    have "untouched (desk_root p) H H'" by (rule call [OF yes(4,3,5,6) x])
    moreover have "p' = p\<lparr>desk_host := H'\<rparr>" using assms(1) w x yes(2) by (auto simp: with_writable_def on_host_def)
    ultimately show ?thesis using untouched_trans [OF grows_untouched [OF yes(4)]] by simp
  qed
qed

lemma desk_write_untouched:
  assumes "desk_write p path data = Some (r, p')"
  shows "untouched (desk_root p) (desk_host p) (desk_host p') \<and> desk_root p' = desk_root p"
  using assms unfolding desk_write_def
proof (rule with_writable_untouched)
  fix path H d H' x
  assume h: "path \<noteq> []" "resolve_links H 40 [] (butlast path) = Inr d" "prefix (desk_root p) d" "write_file H path data = (x, H')"
  from h(4) show "untouched (desk_root p) H H'"
  proof (cases rule: write_file_cases)
    case (yes q)
    then have "prefix (desk_root p) q"
      using h(1-3) by (auto simp: resolve_entry_def split: if_splits intro: prefix_prefix)
    then show ?thesis using yes put_untouched by blast
  qed simp
qed

lemma desk_create_dir_all_untouched:
  assumes "desk_create_dir_all p path = Some (r, p')"
  shows "untouched (desk_root p) (desk_host p) (desk_host p') \<and> desk_root p' = desk_root p"
  using assms unfolding desk_create_dir_all_def
  by (rule with_writable_untouched) (auto dest: create_dirs_all_grows grows_untouched)

lemma desk_remove_untouched:
  assumes "desk_remove p path = Some (r, p')"
  shows "untouched (desk_root p) (desk_host p) (desk_host p') \<and> desk_root p' = desk_root p"
proof (cases "existing p path")
  case (Inl e)
  then show ?thesis using assms by (simp add: desk_remove_def)
next
  case (Inr q)
  from Inr show ?thesis
  proof (cases rule: existing_Ok)
    case (1 cs)
    obtain x H' where run: "(if host_is_dir (desk_host p) q then remove_dir_all (desk_host p) q else remove_file (desk_host p) q) = (x, H')"
      by fastforce
    then have "untouched (desk_root p) (desk_host p) H'"
    proof (cases rule: remove_cases)
      case (yes q')
      then have "q' = q" using resolve_entry_placed [OF 1(4)] by simp
      then show ?thesis using yes drop_untouched [OF 1(3)] by simp
    qed simp
    then show ?thesis using assms Inr run by (auto simp: desk_remove_def on_host_def)
  qed
qed

lemma desk_rename_untouched:
  assumes "desk_rename p from to = Some (r, p')"
  shows "untouched (desk_root p) (desk_host p) (desk_host p') \<and> desk_root p' = desk_root p"
proof (cases "existing p from")
  case (Inl e)
  then show ?thesis using assms by (simp add: desk_rename_def)
next
  case (Inr q)
  then have run: "with_writable p to (\<lambda>to H. rename_node H q to) = Some (r, p')" using assms by (simp add: desk_rename_def)
  from Inr show ?thesis
  proof (cases rule: existing_Ok)
    case (1 cs)
    from run show ?thesis
    proof (rule with_writable_untouched)
      fix path H d H' x
      assume h: "grows (desk_host p) H" "path \<noteq> []" "resolve_links H 40 [] (butlast path) = Inr d" "prefix (desk_root p) d"
        "rename_node H q path = (x, H')"
      from h(5) show "untouched (desk_root p) H H'"
      proof (cases rule: rename_node_cases)
        case (moved a b n)
        have "a = q" using moved(2) resolve_entry_placed [OF grows_placed [OF h(1) 1(4)]] by simp
        moreover have "prefix (desk_root p) b"
          using h(2-4) moved(3) by (auto simp: resolve_entry_def split: if_splits intro: prefix_prefix)
        moreover have "a \<noteq> []" using moved(5) by auto
        moreover have "b \<noteq> []" using h(2) moved(3) by (auto simp: resolve_entry_def split: sum.splits if_splits)
        ultimately show ?thesis using moved(6) move_untouched 1(3) by blast
      qed simp_all
    qed
  qed
qed


text \<open>C40: the check of a write comes too late to prevent directories outside the root. If a link in the root leads
  to a directory elsewhere, writing two levels below the link is refused, since the path escapes, but
  the missing directory has been created at the other place.\<close>

theorem refused_write_creates_directory:
  assumes "solid (desk_host p) (desk_root p)" "lookup_node (desk_host p) (desk_root p @ [link]) = Some (Symlink True out)"
    and "solid (desk_host p) out" "lookup_node (desk_host p) (out @ [name]) = None" "\<not> prefix (desk_root p) (out @ [name])"
    and "\<forall>call q. host_refuses (desk_host p) call q = None" "normal_components path = Some [link, name, file]"
  shows "\<exists>p'. desk_write p path data = Some (Err escapes, p')
    \<and> lookup_node (desk_host p) (out @ [name]) = None \<and> lookup_node (desk_host p') (out @ [name]) = Some Directory"
proof -
  let ?H = "desk_host p" and ?H' = "put_node (out @ [name]) Directory (desk_host p)"
  have names: "link \<noteq> ''..''" "name \<noteq> ''..''"
    using normal_components_names [OF assms(7)] by auto
  have "resolve_links ?H 40 [] (desk_root p @ [link]) = Inr out"
    using resolve_solid [of ?H "[]" "desk_root p" 40 "[link]"] resolve_solid [of ?H "[]" out 39 "[]"] assms(1-3) names by simp
  then have entry: "resolve_entry ?H (desk_root p @ [link, name]) = Inr (out @ [name])"
    using resolve_entry_snoc [of ?H "desk_root p @ [link]" name] solid_Directory [OF assms(3)] by simp
  then have "create_dir ?H (desk_root p @ [link, name]) = (Inr (), ?H')"
    using assms(4,6) names by (simp add: create_dir_def permitted_def)
  then have made: "create_dirs_all ?H (desk_root p @ [link, name]) = (Inr (), ?H')"
    by (subst create_dirs_all.simps) simp
  have solid: "solid ?H' (desk_root p)" "solid ?H' (out @ [name])"
    using assms(1,3) grows_solid [OF create_dirs_all_grows [OF made]] names by (simp_all add: solid_snoc lookup_put)
  moreover have "lookup_node ?H' (desk_root p @ [link]) = Some (Symlink True out)"
    using assms(2) grows_lookup [OF create_dirs_all_grows [OF made]] by simp
  ultimately have "resolve_links ?H' 40 [] (desk_root p @ [link, name]) = Inr (out @ [name])"
    using resolve_solid [of ?H' "[]" "desk_root p" 40 "[link, name]"] resolve_solid [of ?H' "[]" "out @ [name]" 39 "[]"] names
    by simp
  then have "canonicalize ?H' (desk_root p @ [link, name]) = Inr (out @ [name])"
    using assms(6) by (simp add: canonicalize_def permitted_def)
  then have "writable_path p path = (Err escapes, ?H')"
    using made assms(5,7) by (simp add: writable_path_def joined_def butlast_append Let_def)
  then show ?thesis using assms(4) by (simp add: desk_write_def with_writable_def lookup_put)
qed

section \<open>Plain roots\<close>

text \<open>Below a plain root there are no links, and every node lies in a directory.\<close>

definition plain_root :: "host \<Rightarrow> hpath \<Rightarrow> bool" where
  "plain_root H root \<longleftrightarrow> solid H root \<and> (\<forall>q n. prefix root q \<and> q \<noteq> root \<and> lookup_node H q = Some n \<longrightarrow>
     (\<forall>a t. n \<noteq> Symlink a t) \<and> lookup_node H (butlast q) = Some Directory)"

lemma plain_rootD:
  assumes "plain_root H root" "lookup_node H (root @ cs) = Some n" "cs \<noteq> []"
  shows "n \<noteq> Symlink a t" "lookup_node H (root @ butlast cs) = Some Directory"
  using assms unfolding plain_root_def by (metis append_self_conv butlast_append prefixI)+

lemma plain_solid: "plain_root H root \<Longrightarrow> ''..'' \<notin> set cs \<Longrightarrow> lookup_node H (root @ cs) = Some Directory \<Longrightarrow> solid H (root @ cs)"
proof (induction cs rule: rev_induct)
  case (snoc c cs)
  have "lookup_node H (root @ cs) = Some Directory" using plain_rootD(2) [OF snoc.prems(1,3)] by simp
  then have "solid H (root @ cs)" using snoc by simp
  then show ?case using snoc.prems solid_snoc [of H "root @ cs" c] by auto
qed (simp add: plain_root_def)

lemma plain_above: "plain_root H root \<Longrightarrow> lookup_node H (root @ cs @ ds) = Some n \<Longrightarrow> ds \<noteq> [] \<Longrightarrow> lookup_node H (root @ cs) = Some Directory"
proof (induction ds arbitrary: n rule: rev_induct)
  case (snoc d ds)
  have "lookup_node H (root @ cs @ ds) = Some Directory"
    using plain_rootD(2) [of H root "cs @ ds @ [d]" n] snoc.prems by (simp add: butlast_append)
  then show ?case using snoc by (cases "ds = []") auto
qed simp

lemma resolve_plain:
  "plain_root H root \<Longrightarrow> ''..'' \<notin> set cs \<Longrightarrow> resolve_links H n (root @ bs) cs = Inr q \<Longrightarrow> q = root @ bs @ cs"
proof (induction cs arbitrary: bs)
  case (Cons c cs)
  then show ?case using Cons.IH [of "bs @ [c]"] plain_rootD(1) [OF Cons.prems(1), of "bs @ [c]"]
    by (fastforce split: option.splits node.splits if_splits)
qed simp

lemma resolve_root:
  assumes "plain_root H root"
  shows "resolve_links H n [] (root @ cs) = resolve_links H n root cs"
  using resolve_solid [of H "[]" root n cs] assms by (simp add: plain_root_def)

lemma resolve_found:
  assumes "plain_root H root" "''..'' \<notin> set cs" "lookup_node H (root @ cs) = Some n"
  shows "resolve_links H k [] (root @ cs) = Inr (root @ cs)"
proof (cases cs rule: rev_cases)
  case (snoc ds c)
  have "solid H (root @ ds)"
    using plain_rootD(2) [OF assms(1,3)] assms(2) by (intro plain_solid [OF assms(1)]) (simp_all add: snoc)
  then have "resolve_links H k [] (root @ cs) = resolve_links H k (root @ ds) [c]"
    using resolve_solid [of H "[]" "root @ ds" k "[c]"] by (simp add: snoc)
  then show ?thesis using assms(2,3) plain_rootD(1) [OF assms(1,3)] by (cases n) (auto simp: snoc)
qed (use assms resolve_root [of H root k "[]"] in simp)

lemma plain_put:
  assumes "plain_root H root" "lookup_node H d = Some Directory" "\<And>a t. n \<noteq> Symlink a t"
    and "lookup_node H (d @ [c]) = Some Directory \<Longrightarrow> n = Directory"
  shows "plain_root (put_node (d @ [c]) n H) root"
proof -
  let ?H = "put_node (d @ [c]) n H"
  have lk: "lookup_node ?H q = (if q = d @ [c] then Some n else lookup_node H q)" for q by (rule lookup_put) simp
  have dir: "lookup_node ?H q = Some Directory" if "lookup_node H q = Some Directory" for q
    using that assms(4) by (auto simp: lk)
  have "solid ?H root" using assms(1) dir by (auto simp: plain_root_def solid_def)
  moreover have "(\<forall>a t. k \<noteq> Symlink a t) \<and> lookup_node ?H (butlast q) = Some Directory"
    if q: "prefix root q \<and> q \<noteq> root \<and> lookup_node ?H q = Some k" for q k
  proof (cases "q = d @ [c]")
    case True
    then have "k = n" "butlast q = d" using q by (simp_all add: lk)
    then show ?thesis using dir [OF assms(2)] assms(3) by simp
  next
    case False
    then have "lookup_node H q = Some k" using q by (simp add: lk)
    then have "(\<forall>a t. k \<noteq> Symlink a t) \<and> lookup_node H (butlast q) = Some Directory"
      using q assms(1) unfolding plain_root_def by blast
    then show ?thesis using dir by blast
  qed
  ultimately show ?thesis unfolding plain_root_def by blast
qed

lemma create_dir_plain:
  assumes "plain_root H root" "create_dir H p = (r, H')"
  shows "plain_root H' root"
  using assms(2)
proof (cases rule: create_dir_cases)
  case (made q)
  then obtain d c where "q = d @ [c]" "lookup_node H d = Some Directory"
    using lookup_None [OF made(3)] by (auto simp: resolve_entry_def split: if_splits sum.splits)
  then show ?thesis using made plain_put [OF assms(1), of d Directory c] by simp
qed (simp add: assms(1))

lemma create_dirs_all_plain: "plain_root H root \<Longrightarrow> create_dirs_all H p = (r, H') \<Longrightarrow> plain_root H' root"
  by (rule create_dirs_all_keeps [where P = "\<lambda>H. plain_root H root"]) (auto dest: create_dir_plain)

lemma not_above_root: "prefix root q \<Longrightarrow> q \<noteq> root \<Longrightarrow> prefix r root \<Longrightarrow> \<not> prefix q r"
  by (meson prefix_order.antisym prefix_order.trans)

lemma prefix_butlast: "prefix p (butlast q) \<Longrightarrow> prefix p q"
  by (meson prefix_order.trans prefixeq_butlast)

lemma plain_drop:
  assumes "plain_root H root" "prefix root p" "p \<noteq> root"
  shows "plain_root (drop_nodes p H) root"
proof -
  have lk: "lookup_node (drop_nodes p H) q = (if prefix p q then None else lookup_node H q)" for q
    using lookup_drop [of q p H] assms(2,3) by (cases "q = []") auto
  have "solid (drop_nodes p H) root"
    using assms not_above_root [OF assms(2,3)] by (auto simp: plain_root_def solid_def lk)
  then show ?thesis using assms(1) prefix_butlast [of p] by (auto simp: plain_root_def lk split: if_splits)
qed

lemma not_prefix_butlast: "b \<noteq> [] \<Longrightarrow> \<not> prefix b (butlast b)"
  by (cases b rule: rev_cases) (auto dest: prefix_length_le)

lemma plain_move:
  assumes plain: "plain_root H root" and a: "prefix root a" "a \<noteq> root" and b: "prefix root b" "b \<noteq> root"
    and apart: "\<not> prefix a b" "\<not> prefix b a" and dir: "lookup_node H (butlast b) = Some Directory"
  shows "plain_root (move_nodes a b H) root"
proof -
  have nonempty: "a \<noteq> []" "b \<noteq> []" using a b by auto
  have lk: "lookup_node (move_nodes a b H) r = (if prefix b r then lookup_node H (a @ drop (length b) r)
      else if prefix a r then None else lookup_node H r)" for r
    using lookup_move [OF nonempty] nonempty by (cases "r = []") auto
  have step: "(\<forall>x t. n \<noteq> Symlink x t) \<and> lookup_node H (butlast r) = Some Directory"
    if "prefix root r" "r \<noteq> root" "lookup_node H r = Some n" for r n
    using plain that unfolding plain_root_def by blast
  have "solid (move_nodes a b H) root"
    using plain not_above_root [OF a] not_above_root [OF b] by (auto simp: plain_root_def solid_def lk)
  moreover have "(\<forall>x t. n \<noteq> Symlink x t) \<and> lookup_node (move_nodes a b H) (butlast r) = Some Directory"
    if r: "prefix root r \<and> r \<noteq> root \<and> lookup_node (move_nodes a b H) r = Some n" for r n
  proof (cases "prefix b r")
    case True
    then obtain s where s: "r = b @ s" by (auto simp: prefix_def)
    then have "lookup_node H (a @ s) = Some n" using r by (simp add: lk)
    moreover have "prefix root (a @ s)" "a @ s \<noteq> root" using a by (auto simp: prefix_def)
    ultimately have as: "(\<forall>x t. n \<noteq> Symlink x t) \<and> lookup_node H (butlast (a @ s)) = Some Directory" using step by blast
    show ?thesis
    proof (cases "s = []")
      case True
      have "\<not> prefix b (butlast b)" "\<not> prefix a (butlast b)"
        using nonempty apart(1) prefix_butlast [of a b] not_prefix_butlast by auto
      then show ?thesis using as dir True s by (simp add: lk)
    next
      case False
      then show ?thesis using as s by (simp add: lk butlast_append)
    qed
  next
    case False
    then have "\<not> prefix a r" "lookup_node H r = Some n" using r by (auto simp: lk split: if_splits)
    then show ?thesis using step [of r n] r False prefix_butlast [of b r] prefix_butlast [of a r] by (auto simp: lk)
  qed
  ultimately show ?thesis unfolding plain_root_def by blast
qed

section \<open>The platform contract\<close>

text \<open>The invariant of the platform: a plain root on which nothing hinders resolving and reading. What
  is stored at a storage path is the contents of the file there.\<close>

definition desk_good :: "('w, 's) desktop \<Rightarrow> bool" where
  "desk_good p \<longleftrightarrow> plain_root (desk_host p) (desk_root p)
     \<and> (\<forall>q. host_refuses (desk_host p) Canonicalize q = None \<and> host_refuses (desk_host p) ReadFile q = None)"

definition file_of :: "node option \<Rightarrow> bytes option" where
  "file_of n = (case n of Some (File d) \<Rightarrow> Some d | _ \<Rightarrow> None)"

definition desk_files :: "('w, 's) desktop \<Rightarrow> string \<Rightarrow> bytes option" where
  "desk_files p path = (if storage_path path
     then file_of (lookup_node (desk_host p) (desk_root p @ split_on slash path)) else None)"

lemma file_of_Some: "file_of n = Some d \<longleftrightarrow> n = Some (File d)"
  by (auto simp: file_of_def split: option.splits node.splits)

lemma storage_components:
  assumes "storage_path path"
  shows "normal_components path = Some (split_on slash path)" "''..'' \<notin> set (split_on slash path)"
proof -
  have names: "set (split_on slash path) \<inter> {[], ''.'', ''..''} = {}" using assms by (simp add: storage_path_def)
  then have "filter (\<lambda>c. c \<noteq> [] \<and> c \<noteq> ''.'') (split_on slash path) = split_on slash path" by (auto simp: filter_id_conv)
  moreover have "\<not> starts_with ''/'' path" using names by (cases path) (auto simp: starts_with_def)
  ultimately show "normal_components path = Some (split_on slash path)" using names by (auto simp: normal_components_def)
  show "''..'' \<notin> set (split_on slash path)" using names by auto
qed

lemma grows_files: "grows (desk_host p) H \<Longrightarrow> desk_files (p\<lparr>desk_host := H\<rparr>) = desk_files p"
proof
  fix path assume g: "grows (desk_host p) H"
  have "file_of (lookup_node H q) = file_of (lookup_node (desk_host p) q)" for q
  proof -
    have "lookup_node H q = lookup_node (desk_host p) q \<or> lookup_node (desk_host p) q = None \<and> lookup_node H q = Some Directory"
      using g unfolding grows_def by blast
    then show ?thesis by (auto simp: file_of_def)
  qed
  then show "desk_files (p\<lparr>desk_host := H\<rparr>) path = desk_files p path" by (simp add: desk_files_def)
qed

lemma existing_good:
  assumes "desk_good p" "storage_path path"
  shows "existing p path = Ok q \<Longrightarrow> q = desk_root p @ split_on slash path"
    "lookup_node (desk_host p) (desk_root p @ split_on slash path) = Some n \<Longrightarrow> existing p path = Ok (desk_root p @ split_on slash path)"
proof -
  have plain: "plain_root (desk_host p) (desk_root p)" using assms(1) by (simp add: desk_good_def)
  note cs = storage_components [OF assms(2)]
  show "q = desk_root p @ split_on slash path" if "existing p path = Ok q"
    using that
  proof (cases rule: existing_Ok)
    case (1 ds)
    then show ?thesis using resolve_plain [OF plain cs(2), of 40 "[]" q] resolve_root [OF plain] cs(1) by simp
  qed
  show "existing p path = Ok (desk_root p @ split_on slash path)"
    if "lookup_node (desk_host p) (desk_root p @ split_on slash path) = Some n"
    using resolve_found [OF plain cs(2) that] assms(1)
    by (simp add: existing_def joined_def cs(1) canonicalize_def permitted_def desk_good_def)
qed

lemma desk_reads:
  assumes "desk_good p" "storage_path path"
  shows "desk_read p path = Some (Ok d, p') \<Longrightarrow> desk_files p path = Some d"
    "desk_files p path = Some d \<Longrightarrow> \<exists>p'. desk_read p path = Some (Ok d, p')"
    "desk_files p path = Some d \<Longrightarrow> \<exists>p'. desk_exists p path = Some (Ok True, p')"
proof -
  let ?q = "desk_root p @ split_on slash path"
  have plain: "plain_root (desk_host p) (desk_root p)" using assms(1) by (simp add: desk_good_def)
  note cs = storage_components [OF assms(2)]
  show "desk_files p path = Some d" if "desk_read p path = Some (Ok d, p')"
  proof -
    from that obtain q where q: "existing p path = Ok q" "read_file (desk_host p) q = Inr d"
      by (auto simp: desk_read_def map_err_def split: sum.splits elim!: attempt_SomeE)
    then obtain q' where "resolve_links (desk_host p) 40 [] ?q = Inr q'" "lookup_node (desk_host p) q' = Some (File d)"
      using existing_good(1) [OF assms q(1)]
      by (auto simp: read_file_def dest!: permitted_Inr split: sum.splits option.splits node.splits)
    then show ?thesis
      using resolve_plain [OF plain cs(2), of 40 "[]" q'] resolve_root [OF plain] assms(2) by (simp add: desk_files_def file_of_def)
  qed
  assume "desk_files p path = Some d"
  then have stored: "lookup_node (desk_host p) ?q = Some (File d)" by (auto simp: desk_files_def file_of_Some split: if_splits)
  note ex = existing_good(2) [OF assms stored]
  then show "\<exists>p'. desk_exists p path = Some (Ok True, p')" by (simp add: desk_exists_def)
  have "read_file (desk_host p) ?q = Inr d"
    using resolve_found [OF plain cs(2) stored] assms(1) stored by (simp add: read_file_def permitted_def desk_good_def)
  then show "\<exists>p'. desk_read p path = Some (Ok d, p')" using ex by (simp add: desk_read_def map_err_def)
qed

lemma writable_path_plain:
  assumes "writable_path p path = (r, H)" "plain_root (desk_host p) root"
  shows "plain_root H root"
proof -
  have "H = desk_host p \<or> (\<exists>q x. create_dirs_all (desk_host p) q = (x, H))"
    using assms(1) by (auto simp: writable_path_def Let_def split: sum.splits prod.splits if_splits)
  then show ?thesis using assms(2) create_dirs_all_plain by blast
qed

lemma writable_good:
  assumes "desk_good p" "storage_path path" "writable_path p path = (r, H)"
  shows "desk_good (p\<lparr>desk_host := H\<rparr>)" "desk_files (p\<lparr>desk_host := H\<rparr>) = desk_files p" "grows (desk_host p) H"
    "r = Ok q \<Longrightarrow> q = desk_root p @ split_on slash path"
    "r = Ok q \<Longrightarrow> resolve_entry H q = Inr e \<Longrightarrow> e = q \<and> lookup_node H (butlast q) = Some Directory"
proof -
  let ?cs = "split_on slash path"
  have plain: "plain_root H (desk_root p)" using writable_path_plain [OF assms(3)] assms(1) by (simp add: desk_good_def)
  show g: "grows (desk_host p) H" using assms(3) by (cases rule: writable_path_cases) auto
  then show "desk_good (p\<lparr>desk_host := H\<rparr>)" using assms(1) plain by (simp add: desk_good_def grows_def)
  show "desk_files (p\<lparr>desk_host := H\<rparr>) = desk_files p" by (rule grows_files [OF g])
  note cs = storage_components [OF assms(2)]
  assume r: "r = Ok q"
  have "\<exists>d. q = desk_root p @ ?cs \<and> resolve_links H 40 [] (butlast (desk_root p @ ?cs)) = Inr d"
    using assms(3) by (cases rule: writable_path_cases) (use r cs(1) in auto)
  then obtain d where d: "q = desk_root p @ ?cs" "resolve_links H 40 [] (butlast (desk_root p @ ?cs)) = Inr d" by blast
  then show "q = desk_root p @ ?cs" by simp
  have "''..'' \<notin> set (butlast ?cs)" using cs(2) by (auto dest: in_set_butlastD)
  then have "d = butlast q"
    using d resolve_plain [OF plain, of "butlast ?cs" 40 "[]" d] resolve_root [OF plain, of 40 "butlast ?cs"] by (simp add: butlast_append)
  moreover have "q \<noteq> []" using d by simp
  ultimately show "e = q \<and> lookup_node H (butlast q) = Some Directory" if "resolve_entry H q = Inr e"
    using that d by (auto simp: resolve_entry_def butlast_append split: if_splits)
qed

lemma file_view_update:
  assumes "storage_path path"
  shows "desk_files (p\<lparr>desk_host := put_node (desk_root p @ split_on slash path) (File d) H\<rparr>)
    = (desk_files (p\<lparr>desk_host := H\<rparr>))(path \<mapsto> d)"
proof
  fix q
  have "desk_root p @ split_on slash q = desk_root p @ split_on slash path \<longleftrightarrow> q = path"
    using split_on_inject [of slash q path] by simp
  then show "desk_files (p\<lparr>desk_host := put_node (desk_root p @ split_on slash path) (File d) H\<rparr>) q
      = ((desk_files (p\<lparr>desk_host := H\<rparr>))(path \<mapsto> d)) q"
    using assms by (simp add: desk_files_def lookup_put file_of_def)
qed

lemma desk_write_effect:
  assumes "desk_good p" "storage_path path" "desk_write p path d = Some (r, p')"
  shows "desk_good p' \<and> desk_files p' = (if isl r then desk_files p else (desk_files p)(path \<mapsto> d))"
proof -
  obtain w H where w: "writable_path p path = (w, H)" by fastforce
  note good = writable_good [OF assms(1,2) w]
  show ?thesis
  proof (cases w)
    case (Inl e)
    then show ?thesis using assms(3) w good(1,2) by (auto simp: desk_write_def with_writable_def)
  next
    case (Inr q)
    obtain x H' where x: "write_file H q d = (x, H')" by fastforce
    have p': "p' = p\<lparr>desk_host := H'\<rparr>" "r = map_err io_error x"
      using assms(3) w Inr x by (auto simp: desk_write_def with_writable_def on_host_def)
    from x show ?thesis
    proof (cases rule: write_file_cases)
      case (no e)
      then show ?thesis using good(1,2) p' by (simp add: map_err_def)
    next
      case (yes t)
      have t: "t = q" "lookup_node H (butlast q) = Some Directory" using good(5) [OF Inr yes(2)] by simp_all
      have "plain_root H' (desk_root p)"
        using plain_put [of H "desk_root p" "butlast q" "File d" "last q"] good(1) t yes by (fastforce simp: desk_good_def)
      moreover have "host_refuses H' = host_refuses H" using yes(5) by simp
      ultimately have "desk_good p'" using good(1) p'(1) by (simp add: desk_good_def)
      moreover have "desk_files p' = (desk_files p)(path \<mapsto> d)"
        using file_view_update [OF assms(2), of p d H] yes(5) t(1) good(2) good(4) [OF Inr] p'(1) by simp
      ultimately show ?thesis using yes(1) p'(2) by (simp add: map_err_def)
    qed
  qed
qed

lemma desk_create_dir_all_effect:
  assumes "desk_good p" "storage_path path" "desk_create_dir_all p path = Some (r, p')"
  shows "desk_good p' \<and> desk_files p' = desk_files p"
proof -
  obtain w H where w: "writable_path p path = (w, H)" by fastforce
  note good = writable_good [OF assms(1,2) w]
  show ?thesis
  proof (cases w)
    case (Inl e)
    then show ?thesis using assms(3) w good(1,2) by (auto simp: desk_create_dir_all_def with_writable_def)
  next
    case (Inr q)
    obtain x H' where x: "create_dirs_all H q = (x, H')" by fastforce
    have p': "p' = p\<lparr>desk_host := H'\<rparr>"
      using assms(3) w Inr x by (auto simp: desk_create_dir_all_def with_writable_def on_host_def)
    have g: "grows H H'" by (rule create_dirs_all_grows [OF x])
    then have "desk_files p' = desk_files p" using grows_files [OF grows_trans [OF good(3) g]] p' by simp
    moreover have "desk_good p'"
      using good(1) create_dirs_all_plain [OF _ x] g p' by (simp add: desk_good_def grows_def)
    ultimately show ?thesis by simp
  qed
qed

lemma desk_remove_effect:
  assumes "desk_good p" "storage_path path" "desk_remove p path = Some (r, p')"
  shows "desk_good p' \<and> desk_files p' = (if isl r then desk_files p else (\<lambda>q. if at_or_below path q then None else desk_files p q))"
proof (cases "existing p path")
  case (Inl e)
  then show ?thesis using assms(1,3) by (auto simp: desk_remove_def)
next
  case (Inr q)
  let ?H = "desk_host p"
  have q: "q = desk_root p @ split_on slash path" by (rule existing_good(1) [OF assms(1,2) Inr])
  have placed: "placed ?H q" using Inr by (cases rule: existing_Ok)
  obtain x H' where x: "(if host_is_dir ?H q then remove_dir_all ?H q else remove_file ?H q) = (x, H')" by fastforce
  have p': "p' = p\<lparr>desk_host := H'\<rparr>" "r = map_err io_error x"
    using assms(3) Inr x by (auto simp: desk_remove_def on_host_def)
  from x show ?thesis
  proof (cases rule: remove_cases)
    case (no e)
    then show ?thesis using assms(1) p' by (simp add: map_err_def)
  next
    case (yes t)
    then have t: "H' = drop_nodes q ?H" using resolve_entry_placed [OF placed] by simp
    have "plain_root H' (desk_root p)" using plain_drop [of ?H "desk_root p" q] assms(1) t q by (simp add: desk_good_def)
    then have "desk_good p'" using assms(1) t p'(1) by (simp add: desk_good_def)
    moreover have "desk_files p' a = (if at_or_below path a then None else desk_files p a)" for a
      using lookup_drop [of "desk_root p @ split_on slash a" q ?H] t p'(1)
      by (simp add: desk_files_def q at_or_below_split file_of_def)
    ultimately show ?thesis using yes(1) p'(2) by (auto simp: map_err_def)
  qed
qed

lemma desk_rename_moved:
  assumes good: "desk_good p" "storage_path from" "storage_path to" and host: "plain_root H (desk_root p)"
    and files: "desk_files (p\<lparr>desk_host := H\<rparr>) = desk_files p"
    and ab: "a = desk_root p @ split_on slash from" "b = desk_root p @ split_on slash to" "\<not> prefix a b"
    and node: "lookup_node H a = Some n" "lookup_node H (butlast b) = Some Directory"
      "lookup_node H b = Some Directory \<Longrightarrow> n = Directory \<and> children H b = []"
  shows "plain_root (move_nodes a b H) (desk_root p)"
    "desk_files (p\<lparr>desk_host := move_nodes a b H\<rparr>) q = (if at_or_below to q then desk_files p (from @ drop (length to) q)
       else if at_or_below from q then None else desk_files p q)"
proof -
  have apart: "\<not> prefix b a"
  proof
    assume "prefix b a"
    then obtain c s where a: "a = b @ [c] @ s" using ab(3) by (cases "drop (length b) a") (auto simp: prefix_def)
    have "lookup_node H b = Some Directory"
      using plain_above [OF host, of "split_on slash to" "[c] @ s" n] node(1) a ab(2) by simp
    then have "lookup_node H (b @ [c]) = None" using node(3) children_lookup by blast
    moreover have "lookup_node H (b @ [c]) \<noteq> None"
      using plain_above [OF host, of "split_on slash to @ [c]" s n] node(1) a ab(2) by (cases "s = []") auto
    ultimately show False by blast
  qed
  have root: "prefix (desk_root p) a" "a \<noteq> desk_root p" "prefix (desk_root p) b" "b \<noteq> desk_root p" using ab by simp_all
  show "plain_root (move_nodes a b H) (desk_root p)" by (rule plain_move [OF host root ab(3) apart node(2)])
  have nonempty: "a \<noteq> []" "b \<noteq> []" using root by auto
  have lk: "lookup_node (move_nodes a b H) (desk_root p @ cs) = (if prefix (split_on slash to) cs
      then lookup_node H (desk_root p @ split_on slash from @ drop (length (split_on slash to)) cs)
      else if prefix (split_on slash from) cs then None else lookup_node H (desk_root p @ cs))" if "cs \<noteq> []" for cs
    using lookup_move [OF nonempty, of "desk_root p @ cs" H] that by (simp add: ab)
  have view: "desk_files p q = (if storage_path q then file_of (lookup_node H (desk_root p @ split_on slash q)) else None)" for q
    using fun_cong [OF files, of q] by (auto simp: desk_files_def split: if_splits)
  have moved: "desk_files (p\<lparr>desk_host := K\<rparr>) q = (if storage_path q then file_of (lookup_node K (desk_root p @ split_on slash q)) else None)"
    for K q by (simp add: desk_files_def)
  show "desk_files (p\<lparr>desk_host := move_nodes a b H\<rparr>) q = (if at_or_below to q then desk_files p (from @ drop (length to) q)
       else if at_or_below from q then None else desk_files p q)"
  proof (cases "at_or_below to q")
    case True
    then obtain s where s: "q = to @ s" "s = [] \<or> starts_with ''/'' s" by (auto simp: at_or_below_def starts_with_iff)
    have sp: "storage_path (from @ s) \<longleftrightarrow> storage_path q"
      using storage_path_transplant [OF good(2), of to s] storage_path_transplant [OF good(3), of "from" s] s by auto
    have "split_on slash (from @ s) = split_on slash from @ drop (length (split_on slash to)) (split_on slash q)"
      using s by (auto simp: starts_with_iff split_on_append)
    then show ?thesis using True lk [of "split_on slash q"] sp s(1) by (simp add: view moved at_or_below_split)
  next
    case False
    then show ?thesis using lk [of "split_on slash q"] by (simp add: view moved at_or_below_split file_of_def)
  qed
qed

lemma desk_rename_effect:
  assumes "desk_good p" "storage_path from" "storage_path to" "desk_rename p from to = Some (r, p')"
  shows "desk_good p' \<and> desk_files p' = (if isl r \<or> from = to then desk_files p
    else (\<lambda>q. if at_or_below to q then desk_files p (from @ drop (length to) q)
           else if at_or_below from q then None else desk_files p q))"
proof (cases "existing p from")
  case (Inl e)
  then show ?thesis using assms(1,4) by (auto simp: desk_rename_def)
next
  case a: (Inr a)
  obtain w H where w: "writable_path p to = (w, H)" by fastforce
  note good = writable_good [OF assms(1,3) w]
  show ?thesis
  proof (cases w)
    case (Inl e)
    then show ?thesis using assms(4) a w good(1,2) by (auto simp: desk_rename_def with_writable_def)
  next
    case (Inr q)
    obtain x H' where x: "rename_node H a q = (x, H')" by fastforce
    have p': "p' = p\<lparr>desk_host := H'\<rparr>" "r = map_err io_error x"
      using assms(4) a w Inr x by (auto simp: desk_rename_def with_writable_def on_host_def)
    have aeq: "a = desk_root p @ split_on slash from" by (rule existing_good(1) [OF assms(1,2) a])
    have "placed (desk_host p) a" using a by (cases rule: existing_Ok)
    note entry = resolve_entry_placed [OF grows_placed [OF good(3) this]]
    from x show ?thesis
    proof (cases rule: rename_node_cases)
      case (no e)
      then show ?thesis using good(1,2) p' by (simp add: map_err_def)
    next
      case (same t)
      have "q = a" using good(5) [OF Inr same(3)] same(2) entry by simp
      then have "from = to" using aeq good(4) [OF Inr] by simp
      then show ?thesis using same good(1,2) p' by simp
    next
      case (moved a' b n)
      have eq: "a' = a" "b = q" "q = desk_root p @ split_on slash to"
        using moved(2) entry good(5) [OF Inr moved(3)] good(4) [OF Inr] by simp_all
      have plain: "plain_root H (desk_root p)" using good(1) by (simp add: desk_good_def)
      note m = desk_rename_moved [OF assms(1-3) plain good(2) aeq eq(3) moved(5) [unfolded eq(1,2)] moved(4) [unfolded eq(1)]
          conjunct2 [OF good(5) [OF Inr moved(3)]] moved(7) [unfolded eq(2)]]
      have "desk_good p'" using m(1) good(1) p'(1) moved(6) eq(1,2) by (simp add: desk_good_def)
      moreover have "from \<noteq> to" using moved(5) eq aeq by auto
      ultimately show ?thesis using m(2) p' moved(1,6) eq(1,2) by (simp add: map_err_def fun_eq_iff)
    qed
  qed
qed

lemma world_keeps:
  assumes "desk_good p"
  shows "keeps desk_good desk_files p (desk_console_write S p text)" "keeps desk_good desk_files p (on_world p m)"
    "keeps desk_good desk_files p (Some (desk_monotonic_millis S p))" "keeps desk_good desk_files p (desk_net_connect S p host_name port)"
    "keeps desk_good desk_files p (desk_net_close p handle)" "keeps desk_good desk_files p (desk_console_read_line S p text secret)"
  using assms
  by (auto simp: confined_def desk_good_def desk_files_def desk_console_write_def on_world_def desk_monotonic_millis_def
      desk_net_connect_def desk_net_close_def desk_console_read_line_def fun_eq_iff Let_def
      split: option.splits prod.splits sum.splits if_splits)

lemma read_keeps:
  assumes "desk_good p"
  shows "keeps desk_good desk_files p (desk_read p path)" "keeps desk_good desk_files p (desk_list S p path)"
    "keeps desk_good desk_files p (desk_exists p path)" "keeps desk_good desk_files p (with_stream p handle call)"
  using assms
  by (auto simp: desk_read_def desk_list_def desk_exists_def with_stream_def
      intro!: confined_attempt confined_return world_keeps(2))

text \<open>On a plain root the desktop platform keeps the contract that the core relies on.\<close>

interpretation desk: storage_platform "desktop_platform S" desk_files desk_good
  for S :: "('w, 's) std_io"
proof (unfold_locales, unfold desktop_platform_def platform.simps)
  fix p :: "('w, 's) desktop" and path "from" to d u e p'
  assume good: "desk_good p" and path: "storage_path path"
  show "desk_read p path = Some (Ok d, p') \<Longrightarrow> desk_files p path = Some d"
    "desk_files p path = Some d \<Longrightarrow> \<exists>p'. desk_read p path = Some (Ok d, p')"
    "desk_files p path = Some d \<Longrightarrow> \<exists>p'. desk_exists p path = Some (Ok True, p')"
    using desk_reads [OF good path] by blast+
  show "keeps desk_good desk_files p (desk_create_dir_all p path)"
    using desk_create_dir_all_effect [OF good path] by (auto simp: confined_def)
  show "desk_write p path d = Some (Ok u, p') \<Longrightarrow> desk_good p' \<and> desk_files p' = (desk_files p)(path \<mapsto> d)"
    "desk_write p path d = Some (Err e, p') \<Longrightarrow> desk_good p' \<and> desk_files p' = desk_files p"
    using desk_write_effect [OF good path] by fastforce+
  show "desk_remove p path = Some (Ok u, p') \<Longrightarrow>
      desk_good p' \<and> desk_files p' = (\<lambda>q. if at_or_below path q then None else desk_files p q)"
    "desk_remove p path = Some (Err e, p') \<Longrightarrow> desk_good p' \<and> desk_files p' = desk_files p"
    using desk_remove_effect [OF good path] by fastforce+
next
  fix p :: "('w, 's) desktop" and "from" to u e p'
  assume good: "desk_good p" and paths: "storage_path from" "storage_path to"
  show "desk_rename p from to = Some (Ok u, p') \<Longrightarrow>
      desk_good p' \<and> desk_files p' = (if from = to then desk_files p else
        (\<lambda>q. if at_or_below to q then desk_files p (from @ drop (length to) q)
             else if at_or_below from q then None else desk_files p q))"
    using desk_rename_effect [OF good paths, of "Ok u" p'] by simp
  show "desk_rename p from to = Some (Err e, p') \<Longrightarrow> desk_good p' \<and> desk_files p' = desk_files p"
    using desk_rename_effect [OF good paths, of "Err e" p'] by simp
qed (simp_all add: world_keeps read_keeps desk_console_clear_def desk_fill_random_def desk_net_status_def desk_net_send_def
    desk_net_recv_def confined_return)

section \<open>The storage calls as updates of a map\<close>


section \<open>Examples\<close>

definition demo_host :: "(hpath \<times> node) list \<Rightarrow> host" where
  "demo_host extra = \<lparr>host_nodes = [([''data''], Directory), ([''data'', ''user''], Directory),
     ([''data'', ''user'', ''a''], File [7])] @ extra, host_refuses = (\<lambda>_ _. None)\<rparr>"

definition demo_desktop :: "(hpath \<times> node) list \<Rightarrow> (unit, unit) desktop" where
  "demo_desktop extra = \<lparr>desk_root = [''data''], desk_host = demo_host extra, desk_world = (), remove_on_drop = False,
     desk_sockets = [], desk_next_handle = 1\<rparr>"

abbreviation demo_links :: "(hpath \<times> node) list" where
  "demo_links \<equiv> [([''data'', ''l''], Symlink True [''out'']), ([''out''], Directory)]"

lemma demo_lookup: "lookup_node (demo_host extra) q = (if q = [] \<or> q = [''data''] \<or> q = [''data'', ''user''] then Some Directory
    else if q = [''data'', ''user'', ''a''] then Some (File [7]) else map_of extra q)"
  by (auto simp: lookup_node_def demo_host_def)

lemma demo_solid: "solid (demo_host extra) [''data'']"
  by (auto simp: solid_def demo_lookup prefix_Cons)

lemma demo_desk_good: "desk_good (demo_desktop [])"
proof -
  have "(\<forall>a t. n \<noteq> Symlink a t) \<and> lookup_node (demo_host []) (butlast q) = Some Directory"
    if "prefix [''data''] q \<and> q \<noteq> [''data''] \<and> lookup_node (demo_host []) q = Some n" for q n
    using that by (auto simp: demo_lookup split: if_splits)
  then have "plain_root (demo_host []) [''data'']" unfolding plain_root_def using demo_solid by blast
  then show ?thesis by (simp add: desk_good_def demo_desktop_def) (simp add: demo_host_def)
qed



theorem refused_write_creates_directory_witness:
  "\<exists>p'. desk_write (demo_desktop demo_links) ''l/x/y'' [1] = Some (Err escapes, p')
     \<and> lookup_node (desk_host p') [''out'', ''x''] = Some Directory"
proof -
  let ?p = "demo_desktop demo_links"
  have "solid (desk_host ?p) (desk_root ?p)" using demo_solid by (simp add: demo_desktop_def)
  moreover have "lookup_node (desk_host ?p) (desk_root ?p @ [''l'']) = Some (Symlink True [''out''])"
    by (simp add: demo_desktop_def demo_lookup)
  moreover have "solid (desk_host ?p) [''out'']" by (auto simp: demo_desktop_def solid_def demo_lookup prefix_Cons)
  moreover have "lookup_node (desk_host ?p) ([''out''] @ [''x'']) = None" "\<not> prefix (desk_root ?p) ([''out''] @ [''x''])"
    "\<forall>call q. host_refuses (desk_host ?p) call q = None"
    by (simp_all add: demo_desktop_def demo_lookup) (simp add: demo_host_def)
  moreover have "normal_components ''l/x/y'' = Some [''l'', ''x'', ''y'']" by (simp add: normal_components_def starts_with_def)
  ultimately have "\<exists>p'. desk_write ?p ''l/x/y'' [1] = Some (Err escapes, p')
      \<and> lookup_node (desk_host ?p) ([''out''] @ [''x'']) = None \<and> lookup_node (desk_host p') ([''out''] @ [''x'']) = Some Directory"
    by (rule refused_write_creates_directory)
  then show ?thesis by auto
qed

end
