(* ===== verification/Spec2Isabelle.thy ===== *)
theory Spec2Isabelle
  imports Demo Kernel Desktop
begin

text \<open>AFOS.\<close>

section \<open>Passwords\<close>

text \<open>C10: setting a password takes effect: right afterwards that password is accepted, and every
  password with another hash is refused as a wrong one. This holds on every platform that satisfies
  the storage contract; the verifier goes through hexadecimal text and the file system and back.\<close>

theorem set_password_takes_effect:
  assumes "storage_platform P files good" "guard_good good table g" "random_sized P" "hash_sized A"
    and "password \<noteq> []" "set_password A P g password = Some (Ok (), g')"
  shows "\<exists>salt hash. derive A (as_bytes password) salt = Ok hash
    \<and> (\<exists>g''. verify A P g' password = Some (Ok (), g'') \<and> fst g'' = security_new)
    \<and> (\<forall>guess h. derive A (as_bytes guess) salt = Ok h \<and> h \<noteq> hash \<longrightarrow>
        (\<exists>g''. verify A P g' guess = Some (Err AuthenticationFailed, g'') \<and> unat (failed_attempts (fst g'')) = 1))"
proof -
  note effect = storage_platform.set_password_effect [OF assms(1)]
  obtain salt hash where s: "guard_good good table g'" "holds_verifier files g' salt hash" "fst g' = security_new"
    "derive A (as_bytes password) salt = Ok hash"
    using effect [OF assms(2-6)] .
  have free: "blocked_until (fst g') = 0" using s(3) by (simp add: security_new_def)
  note answer = storage_platform.verify_answer [OF assms(1) s(1,2) free]
  obtain g'' now where "verify A P g' password = Some (Ok (), g'')" "fst g'' = security_new"
    using answer [OF s(4)] by auto
  moreover have "\<exists>g''. verify A P g' guess = Some (Err AuthenticationFailed, g'') \<and> unat (failed_attempts (fst g'')) = 1"
    if "derive A (as_bytes guess) salt = Ok h" "h \<noteq> hash" for guess h
  proof -
    note wrong = that
    obtain g2 now where "verify A P g' guess = Some (Err AuthenticationFailed, g2)" "fst g2 = note_failure now (fst g')"
      using answer [OF wrong(1)] wrong(2) by auto
    then show ?thesis using s(3) by (simp add: note_failure_attempts security_new_def)
  qed
  ultimately show ?thesis using s(4) by blast
qed

theorem set_password_takes_effect_witness:
  "\<exists>g'. set_password demo_argon2 demo_platform (demo_guard []) ''pw'' = Some (Ok (), g')
    \<and> (\<exists>g''. verify demo_argon2 demo_platform g' ''pw'' = Some (Ok (), g''))
    \<and> (\<exists>g''. verify demo_argon2 demo_platform g' ''xy'' = Some (Err AuthenticationFailed, g''))"
proof -
  obtain g' where g': "set_password demo_argon2 demo_platform (demo_guard []) ''pw'' = Some (Ok (), g')"
    using demo_set by blast
  have "derive demo_argon2 (as_bytes p) salt = Ok (take 32 (as_bytes p @ replicate 32 0))" for p salt
    by (simp add: derive_def demo_argon2_def)
  moreover have "take 32 (as_bytes ''xy'' @ replicate 32 0) \<noteq> take 32 (as_bytes ''pw'' @ replicate 32 0)"
    by code_simp
  ultimately have wrong: "\<exists>h. derive demo_argon2 (as_bytes ''xy'') salt = Ok h \<and> h \<noteq> hash"
    if "derive demo_argon2 (as_bytes ''pw'') salt = Ok hash" for salt hash
    using that by auto
  have "''pw'' \<noteq> []" by simp
  from set_password_takes_effect [OF bare.storage_platform_axioms demo_guard_good demo_random_sized
        demo_hash_sized this g'] wrong g'
  show ?thesis by blast
qed

text \<open>C11: guessing is slowed down. In any sequence of attempts none of which succeeds, from the third
  wrong password on the time between two comparisons is at least the lockout delay: one second,
  doubling with every further wrong password up to 32 seconds (or up to the end of the clock).
  An attempt in between is refused without comparing anything.\<close>

theorem lockout_spacing:
  assumes "guesses A P (security_new, v) passwords = Some (log, g')" "plain_reads P"
    and "\<forall>entry \<in> set log. snd entry \<noteq> Ok ()"
    and "length (wrong_times log) < 2 ^ 32" "2 \<le> i" "i + 1 < length (wrong_times log)"
  shows "min (unat (wrong_times log ! i) + 1000 * 2 ^ min (i - 2) 5) (2 ^ 64 - 1)
      \<le> unat (wrong_times log ! (i + 1))"
proof -
  have "min (unat (wrong_times log ! i) + lockout (i + 1)) (2 ^ 64 - 1) \<le> unat (wrong_times log ! (i + 1))"
    using guesses_gaps [OF assms(1,2)] assms(3-6) by (simp add: security_new_def)
  moreover have "i + 1 - 3 = i - 2" by simp
  ultimately show ?thesis by (simp only: lockout_def)
qed

lemma demo_plain_reads: "plain_reads demo_platform"
  by (auto simp: plain_reads_def bare_platform_def bare_read_def Let_def ok_or_def split: option.splits if_splits)

definition demo_locked :: "u64 \<Rightarrow> (bytes, demo) bare_metal vfs" where
  "demo_locked t = vfs_new (demo_state [] [(''user/config/security'',
     as_bytes (encode_verifier (replicate 16 7) (replicate 32 9)))] \<lparr>bare_machine := \<lparr>demo_time = t, demo_keys = []\<rparr>\<rparr>)"

lemma demo_wrong:
  assumes "elapsed_millis 0 1000 t = t" "blocked_until sm \<le> t"
  shows "verify demo_argon2 demo_platform (sm, demo_locked t) ''a''
      = Some (Err AuthenticationFailed, (note_failure t sm, demo_locked (t + 5000)))
    \<and> fst (monotonic_millis demo_platform (vfs_platform (demo_locked t))) = t"
proof -
  have "vfs_read_text demo_platform (demo_locked t) SECURITY_PATH
      = Some (Ok (encode_verifier (replicate 16 7) (replicate 32 9)), demo_locked t)" for t
    by (simp add: vfs_read_text_def vfs_read_def on_platform_def bare_platform_def bare_read_def demo_locked_def
        vfs_new_def demo_state_def verifier_utf8)
  moreover have "(demo_locked t)\<lparr>vfs_platform := vfs_platform (demo_locked t)\<lparr>bare_machine := \<lparr>demo_time = t + 5000, demo_keys = []\<rparr>\<rparr>\<rparr>
      = demo_locked (t + 5000)"
    by (simp add: demo_locked_def vfs_new_def)
  moreover have "monotonic_millis demo_platform (vfs_platform (demo_locked t))
      = (t, vfs_platform (demo_locked t)\<lparr>bare_machine := \<lparr>demo_time = t + 5000, demo_keys = []\<rparr>\<rparr>)"
    using assms(1) by (simp add: bare_platform_def bare_monotonic_millis_def bare_clock_def demo_machine_def demo_locked_def
        vfs_new_def demo_state_def)
  moreover have "take 32 (as_bytes ''a'' @ replicate 32 0) \<noteq> replicate 32 9" by code_simp
  moreover have "derive demo_argon2 (as_bytes ''a'') salt = Ok (take 32 (as_bytes ''a'' @ replicate 32 0))" for salt
    by (simp add: derive_def demo_argon2_def)
  moreover have "\<not> t < blocked_until sm" using assms(2) by simp
  ultimately show ?thesis
    by (simp add: verify_def on_vfs_def parse_encode_verifier Let_def del: take_append)
qed

theorem lockout_spacing_witness:
  "\<exists>log g. guesses demo_argon2 demo_platform (security_new, demo_locked 0) [''a'', ''a'', ''a'', ''a''] = Some (log, g)
    \<and> length (wrong_times log) = 4
    \<and> min (unat (wrong_times log ! 2) + 1000) (2 ^ 64 - 1) \<le> unat (wrong_times log ! 3)"
proof -
  let ?run = "guesses demo_argon2 demo_platform (security_new, demo_locked 0) [''a'', ''a'', ''a'', ''a'']"
  let ?log = "map (\<lambda>t. (t, Err AuthenticationFailed)) [0, 5000, 10000, 15000]"
  have clock: "elapsed_millis 0 1000 0 = 0" "elapsed_millis 0 1000 5000 = 5000"
    "elapsed_millis 0 1000 10000 = 10000" "elapsed_millis 0 1000 15000 = 15000" by code_simp+
  have steps: "note_failure 0 security_new = \<lparr>failed_attempts = 1, blocked_until = 0\<rparr>"
    "note_failure 5000 \<lparr>failed_attempts = 1, blocked_until = 0\<rparr> = \<lparr>failed_attempts = 2, blocked_until = 0\<rparr>"
    "note_failure 10000 \<lparr>failed_attempts = 2, blocked_until = 0\<rparr> = \<lparr>failed_attempts = 3, blocked_until = 11000\<rparr>"
    by code_simp+
  have "\<exists>g. ?run = Some (?log, g)"
    using demo_wrong [OF clock(1), of security_new] demo_wrong [OF clock(2), of "\<lparr>failed_attempts = 1, blocked_until = 0\<rparr>"]
      demo_wrong [OF clock(3), of "\<lparr>failed_attempts = 2, blocked_until = 0\<rparr>"]
      demo_wrong [OF clock(4), of "\<lparr>failed_attempts = 3, blocked_until = 11000\<rparr>"]
    by (simp add: steps) (simp add: security_new_def)
  then obtain g where run: "?run = Some (?log, g)" ..
  have n: "length (wrong_times ?log) = 4" by (simp add: wrong_times_def)
  have "\<forall>entry \<in> set ?log. snd entry \<noteq> Ok ()" by simp
  from lockout_spacing [OF run demo_plain_reads this, of 2] n
  have "min (unat (wrong_times ?log ! 2) + 1000) (2 ^ 64 - 1) \<le> unat (wrong_times ?log ! 3)"
    by simp
  with run n show ?thesis by blast
qed

section \<open>Applications\<close>


definition demo_app :: app_identity where
  "demo_app = \<lparr>app_id = ''notes'', source_path = ''/apps/notes.rhai'', trusted = False, api_version = 1,
     capabilities = [FsRead ''/user'']\<rparr>"

definition demo_files :: "(string \<times> bytes) list" where
  "demo_files = [(''user/config/security'', as_bytes (encode_verifier (replicate 16 7) (as_bytes ''pw'' @ replicate 30 0))),
     (''user/x'', as_bytes ''hi'')]"

definition demo_session :: "string list \<Rightarrow> app_identity \<Rightarrow> (bytes, demo) bare_metal session" where
  "demo_session keys app = session_new (system_new (demo_state keys demo_files)) app [] ''/user''"

lemma demo_files_good: "bare_good (demo_state keys demo_files)"
proof -
  let ?F = "{''user/config/security'', ''user/x''}" and ?D = "{''user'', ''user/config''}"
  have split: "split_on slash a = [''user''] \<longleftrightarrow> a = ''user''"
    "split_on slash a = [''user'', ''config''] \<longleftrightarrow> a = ''user/config''" for a
    using split_on_inject [of slash a "''user''"] split_on_inject [of slash a "''user/config''"] by simp_all
  then have a: "above ''user/config'' = {''user''}" "above ''user'' = {}" "above ''user/x'' = {''user''}"
    "above ''user/config/security'' = {''user'', ''user/config''}"
    by (auto simp: above_split prefix_Cons)
  have "(at_or_below a q \<and> a \<noteq> q \<longrightarrow> a \<in> D) \<longleftrightarrow> (a \<in> above q \<longrightarrow> a \<in> D)" for a q D
    by (simp add: above_def)
  then have "shape ?F ?D" by (simp only: shape_def) (simp add: a storage_path_def)
  moreover have "omap demo_files" by (simp add: demo_files_def omap_def)
  ultimately show ?thesis
    by (simp add: bare_good_def demo_state_def tree_shape_def oset_def) (simp add: demo_files_def)
qed

lemma demo_session_good: "session_good bare_good [] app (demo_session keys app)"
proof -
  have "canonical ''/user''" using canonical_abs [of "[''user'']"] by (simp add: abs_path_def proper_def)
  then show ?thesis
    by (simp add: session_good_def demo_session_def session_new_def sys_good_def system_new_def system_with_vfs_def
        vfs_good_def vfs_new_def demo_files_good)
qed

lemma demo_verifier:
  "holds_verifier bare_files (sys_guard (session_system (demo_session keys app))) (replicate 16 7)
     (as_bytes ''pw'' @ replicate 30 0)"
  by (simp add: holds_verifier_def sys_guard_def guard_view_def vfs_view_def bare_files_def demo_session_def
      session_new_def system_new_def system_with_vfs_def vfs_new_def demo_state_def demo_files_def)



definition demo_engine :: "string \<Rightarrow> script" where
  "demo_engine source = Invoke (Fs_write ''/user/x'' ''new'') (\<lambda>_. Invoke (Appdata_write ''d'' ''1'') (\<lambda>_.
     Finish (Inr DUnit)))"

definition demo_image :: "embedded_file list" where
  "demo_image = [embedded_text ''/sys/apps/w.rhai'' ''// afos:capabilities=fs.write:/user/x'']"

definition demo_afos :: "(bytes, demo) bare_metal afos" where
  "demo_afos = (afos_with_system_files (demo_state [] demo_files) demo_image)\<lparr>afos_runtimes := \<lparr>runtimes =
     [rhai_runtime demo_engine]\<rparr>\<rparr>"


text \<open>C36: the password verifier can be exposed all the same. Renaming its parent directory is an
  ordinary write: a trusted application that declares read and write access to \<^verbatim>\<open>/user\<close> renames
  \<^verbatim>\<open>/user/config\<close> and then reads the verifier, salt and hash, under the new name.\<close>

theorem config_rename_exposes_verifier:
  assumes "storage_platform P files good" "session_good good table app se" "trusted app"
    and "holds_verifier files (sys_guard (session_system se)) salt hash"
    and "FsRead ''/user'' \<in> set (capabilities app)" "FsWrite ''/user'' \<in> set (capabilities app)"
    and "session_rename A P se ''/user/config'' ''/user/c'' = Some (Ok (), se')"
  shows "\<exists>se''. session_read_text A P se' ''/user/c/security'' = Some (Ok (encode_verifier salt hash), se'')"
  using storage_platform.config_rename_exposes [OF assms] .

definition demo_mover :: app_identity where
  "demo_mover = \<lparr>app_id = ''mv'', source_path = ''/sys/apps/mv.rhai'', trusted = True, api_version = 1,
     capabilities = [FsRead ''/user'', FsWrite ''/user'']\<rparr>"

theorem config_rename_exposes_verifier_witness:
  "\<exists>se' se''. session_rename demo_argon2 demo_platform (demo_session [] demo_mover) ''/user/config'' ''/user/c'' = Some (Ok (), se')
    \<and> session_read_text demo_argon2 demo_platform se' ''/user/c/security''
        = Some (Ok (encode_verifier (replicate 16 7) (as_bytes ''pw'' @ replicate 30 0)), se'')"
proof -
  have "map_option fst (session_rename demo_argon2 demo_platform (demo_session [] demo_mover) ''/user/config'' ''/user/c'')
      = Some (Ok ())"
    by code_simp
  then obtain se' where r: "session_rename demo_argon2 demo_platform (demo_session [] demo_mover) ''/user/config'' ''/user/c''
      = Some (Ok (), se')" by auto
  have t: "trusted demo_mover" "FsRead ''/user'' \<in> set (capabilities demo_mover)"
    "FsWrite ''/user'' \<in> set (capabilities demo_mover)" by (simp_all add: demo_mover_def)
  show ?thesis
    using r config_rename_exposes_verifier [OF bare.storage_platform_axioms demo_session_good t(1) demo_verifier t(2,3) r]
    by blast
qed

end
